(* ===== verification/Prelude.thy ===== *)
theory Prelude
  imports Complex_Main "HOL-Library.Word" "HOL-Library.Code_Target_Numeral"
begin

text \<open>
  Shared vocabulary of the development.  It holds the machine view of Go's integers and of its
  time package, the named collections of rewrite rules that the component theories extend, and
  generic lemmas on lists, options and maps that several components share.

  Conventions.  A Go string is a list of bytes (type string), a Go int or int64 is an int together
  with the function \<open>i64\<close> that wraps a result to 64 bits wherever the code can overflow, and a
  uint64 is a 64-bit word.  An instant of type \<open>time.Time\<close> is the number of nanoseconds since Go's
  zero time, so that \<open>IsZero\<close> is equality with 0; a \<open>time.Duration\<close> is an int of nanoseconds.
\<close>

section \<open>Rewrite collections\<close>

named_theorems go_eval \<open>definitions unfolded when a concrete run is evaluated\<close>
named_theorems step_inv \<open>preservation of a component invariant by one operation\<close>

section \<open>64-bit integers\<close>

definition i64 :: "int \<Rightarrow> int" where
  "i64 x = (x + 2 ^ 63) mod 2 ^ 64 - 2 ^ 63"

lemma i64_id: "- (2 ^ 63) \<le> x \<Longrightarrow> x < 2 ^ 63 \<Longrightarrow> i64 x = x"
  by (simp add: i64_def)

lemma i64_lower: "- (2 ^ 63) \<le> i64 x"
  by (simp add: i64_def)

lemma i64_upper: "i64 x < 2 ^ 63"
proof -
  have "(x + 2 ^ 63) mod 2 ^ 64 < (2 ^ 64 :: int)" by (rule pos_mod_bound) simp
  then show ?thesis by (simp add: i64_def)
qed

lemma i64_idem [simp]: "i64 (i64 x) = i64 x"
  by (rule i64_id) (rule i64_lower, rule i64_upper)

text \<open>Go's integer division and remainder truncate towards zero.\<close>

definition go_div :: "int \<Rightarrow> int \<Rightarrow> int" where
  "go_div a b = sgn a * sgn b * (\<bar>a\<bar> div \<bar>b\<bar>)"

definition go_rem :: "int \<Rightarrow> int \<Rightarrow> int" where
  "go_rem a b = sgn a * (\<bar>a\<bar> mod \<bar>b\<bar>)"

lemma go_rem_nonneg: "0 \<le> a \<Longrightarrow> 0 < b \<Longrightarrow> go_rem a b = a mod b"
  by (cases "a = 0") (simp_all add: go_rem_def)

lemma go_div_nonneg: "0 \<le> a \<Longrightarrow> 0 < b \<Longrightarrow> go_div a b = a div b"
  by (cases "a = 0") (simp_all add: go_div_def)

lemma go_div_rem: "b \<noteq> 0 \<Longrightarrow> b * go_div a b + go_rem a b = a"
proof -
  have "b * go_div a b = sgn a * (\<bar>b\<bar> * (\<bar>a\<bar> div \<bar>b\<bar>))"
    by (simp add: go_div_def abs_sgn[of b] mult.commute mult.left_commute)
  moreover have "\<bar>b\<bar> * (\<bar>a\<bar> div \<bar>b\<bar>) + \<bar>a\<bar> mod \<bar>b\<bar> = \<bar>a\<bar>" by simp
  ultimately have "b * go_div a b + go_rem a b = sgn a * \<bar>a\<bar>"
    by (metis distrib_left go_rem_def)
  then show ?thesis by (simp add: sgn_mult_abs)
qed

section \<open>Instants and durations\<close>

type_synonym time = int
type_synonym duration = int

definition nanosecond :: duration where "nanosecond = 1"
definition millisecond :: duration where "millisecond = 1000000"
definition second :: duration where "second = 1000000000"
definition minute :: duration where "minute = 60000000000"

lemmas time_units [go_eval] = nanosecond_def millisecond_def second_def minute_def

text \<open>\<open>t.Sub(u)\<close> saturates at the limits of int64; \<open>t.After(u)\<close> is the strict order.\<close>

definition time_sub :: "time \<Rightarrow> time \<Rightarrow> duration" where
  "time_sub t u = max (- (2 ^ 63)) (min (2 ^ 63 - 1) (t - u))"

definition time_after :: "time \<Rightarrow> time \<Rightarrow> bool" where
  "time_after t u \<longleftrightarrow> u < t"

definition time_is_zero :: "time \<Rightarrow> bool" where
  "time_is_zero t \<longleftrightarrow> t = 0"

lemmas time_ops [go_eval] = time_sub_def time_after_def time_is_zero_def

lemma time_sub_exact: "- (2 ^ 63) \<le> t - u \<Longrightarrow> t - u < 2 ^ 63 \<Longrightarrow> time_sub t u = t - u"
  by (simp add: time_sub_def)

lemma time_sub_le: "0 \<le> t - u \<Longrightarrow> time_sub t u \<le> t - u"
  by (simp add: time_sub_def)

lemma time_sub_ge_iff: "- (2 ^ 63) < d \<Longrightarrow> d < 2 ^ 63 \<Longrightarrow> d \<le> time_sub t u \<longleftrightarrow> d \<le> t - u"
  by (auto simp: time_sub_def)

lemma time_sub_less_iff: "- (2 ^ 63) < d \<Longrightarrow> d < 2 ^ 63 \<Longrightarrow> time_sub t u < d \<longleftrightarrow> t - u < d"
  by (auto simp: time_sub_def)

section \<open>Maps with finite domain\<close>

text \<open>The \<open>len\<close> of a Go map.\<close>

definition map_len :: "('k \<rightharpoonup> 'v) \<Rightarrow> nat" where
  "map_len m = card (dom m)"

lemma map_len_empty [simp]: "map_len Map.empty = 0"
  by (simp add: map_len_def)

lemma map_len_upd_le: "finite (dom m) \<Longrightarrow> map_len (m(k \<mapsto> v)) \<le> Suc (map_len m)"
  by (simp add: map_len_def card_insert_le_m1 card_insert_if)

lemma map_len_upd_new: "finite (dom m) \<Longrightarrow> m k = None \<Longrightarrow> map_len (m(k \<mapsto> v)) = Suc (map_len m)"
  by (simp add: map_len_def card_insert_if domIff)

lemma map_len_upd_old: "finite (dom m) \<Longrightarrow> m k \<noteq> None \<Longrightarrow> map_len (m(k \<mapsto> v)) = map_len m"
  by (simp add: map_len_def card_insert_if domIff)

lemma map_len_del: "finite (dom m) \<Longrightarrow> m k \<noteq> None \<Longrightarrow> Suc (map_len (m(k := None))) = map_len m"
  using card_Suc_Diff1 [of "dom m" k] by (simp add: map_len_def domIff)

lemma map_len_del_le: "finite (dom m) \<Longrightarrow> map_len (m(k := None)) \<le> map_len m"
  by (simp add: map_len_def card_Diff1_le)

lemma map_len_mono: "finite (dom m) \<Longrightarrow> dom m' \<subseteq> dom m \<Longrightarrow> map_len m' \<le> map_len m"
  by (simp add: map_len_def card_mono)

text \<open>The number of entries of a map whose value satisfies a predicate.\<close>

definition map_count :: "('v \<Rightarrow> bool) \<Rightarrow> ('k \<rightharpoonup> 'v) \<Rightarrow> nat" where
  "map_count P m = card {k. \<exists>v. m k = Some v \<and> P v}"

lemma map_count_finite: "finite (dom m) \<Longrightarrow> finite {k. \<exists>v. m k = Some v \<and> P v}"
  by (rule finite_subset [of _ "dom m"]) auto

lemma map_count_empty [simp]: "map_count P Map.empty = 0"
  by (simp add: map_count_def)

lemma map_count_True: "map_count (\<lambda>_. True) m = map_len m"
  by (simp add: map_count_def map_len_def dom_def)

lemma map_count_del:
  assumes "finite (dom m)" "m k = Some v"
  shows "map_count P m = map_count P (m(k := None)) + (if P v then 1 else 0)"
proof -
  let ?A = "{j. \<exists>v. m j = Some v \<and> P v}"
  have "{j. \<exists>v. (m(k := None)) j = Some v \<and> P v} = ?A - {k}" by auto
  then have eq: "map_count P (m(k := None)) = card (?A - {k})"
    by (simp only: map_count_def)
  have fin: "finite ?A" by (rule map_count_finite [OF assms(1)])
  show ?thesis
  proof (cases "P v")
    case True
    then have "k \<in> ?A" using assms(2) by simp
    from card.remove [OF fin this] True show ?thesis unfolding eq unfolding map_count_def by simp
  next
    case False
    then have "?A - {k} = ?A" using assms(2) by auto
    with False show ?thesis unfolding eq unfolding map_count_def by simp
  qed
qed

lemma map_count_del_None: "m k = None \<Longrightarrow> m(k := None) = m"
  by auto

lemma map_count_new:
  assumes "finite (dom m)" "m k = None"
  shows "map_count P (m(k \<mapsto> v)) = map_count P m + (if P v then 1 else 0)"
proof -
  have "(m(k \<mapsto> v))(k := None) = m" using assms(2) by auto
  moreover have "map_count P (m(k \<mapsto> v)) = map_count P ((m(k \<mapsto> v))(k := None)) + (if P v then 1 else 0)"
    by (rule map_count_del) (use assms(1) in auto)
  ultimately show ?thesis by simp
qed

lemma map_count_same:
  "finite (dom m) \<Longrightarrow> m k = Some u \<Longrightarrow> P u = P v \<Longrightarrow> map_count P (m(k \<mapsto> v)) = map_count P m"
  using map_count_del [of "m(k \<mapsto> v)" k v P] map_count_del [of m k u P] by simp

lemma map_count_old:
  "finite (dom m) \<Longrightarrow> m k = Some u \<Longrightarrow>
   map_count P (m(k \<mapsto> v)) + (if P u then 1 else 0) = map_count P m + (if P v then 1 else 0)"
  using map_count_del [of "m(k \<mapsto> v)" k v P] map_count_del [of m k u P] by simp

lemma map_count_pos: "finite (dom m) \<Longrightarrow> m k = Some v \<Longrightarrow> P v \<Longrightarrow> 0 < map_count P m"
  by (simp add: map_count_del)

lemma map_count_le: "finite (dom m) \<Longrightarrow> map_count P m \<le> map_len m"
  unfolding map_count_def map_len_def by (rule card_mono) auto

lemma map_count_cong:
  "(\<And>k v. m k = Some v \<Longrightarrow> P v = Q v) \<Longrightarrow> map_count P m = map_count Q m"
  unfolding map_count_def by (rule arg_cong [where f = card]) auto

end
