(* ===== verification/GoText.thy ===== *)
theory GoText
  imports Prelude "HOL-Library.Sublist"
begin

text \<open>
  The functions of Go's packages strings and strconv that the program calls, on byte strings.
  Trimming and case conversion are those of ASCII text; the additional Unicode white space and
  letters that the Go functions also know are outside this model (no header, path, protocol or
  configuration keyword of the program contains them).
\<close>

section \<open>Package strings\<close>

text \<open>\<open>CHR 0x09\<close> to \<open>CHR 0x0D\<close> are tab, newline, vertical tab, form feed, carriage return.\<close>

definition is_space :: "char \<Rightarrow> bool" where
  "is_space c \<longleftrightarrow> c \<in> {CHR '' '', CHR 0x09, CHR 0x0A, CHR 0x0B, CHR 0x0C, CHR 0x0D}"

definition trim_left_with :: "(char \<Rightarrow> bool) \<Rightarrow> string \<Rightarrow> string" where
  "trim_left_with p s = dropWhile p s"

definition trim_right_with :: "(char \<Rightarrow> bool) \<Rightarrow> string \<Rightarrow> string" where
  "trim_right_with p s = rev (dropWhile p (rev s))"

definition trim_space :: "string \<Rightarrow> string" where
  "trim_space s = trim_right_with is_space (trim_left_with is_space s)"

definition has_prefix :: "string \<Rightarrow> string \<Rightarrow> bool" where
  "has_prefix s p \<longleftrightarrow> take (length p) s = p"

definition has_suffix :: "string \<Rightarrow> string \<Rightarrow> bool" where
  "has_suffix s p \<longleftrightarrow> has_prefix (rev s) (rev p)"

definition trim_prefix :: "string \<Rightarrow> string \<Rightarrow> string" where
  "trim_prefix s p = (if has_prefix s p then drop (length p) s else s)"

fun contains_str :: "string \<Rightarrow> string \<Rightarrow> bool" where
  "contains_str [] p \<longleftrightarrow> p = []"
| "contains_str (c # s) p \<longleftrightarrow> has_prefix (c # s) p \<or> contains_str s p"

definition contains_any :: "string \<Rightarrow> string \<Rightarrow> bool" where
  "contains_any s chars \<longleftrightarrow> list_ex (\<lambda>c. List.member chars c) s"

fun split_on :: "char \<Rightarrow> string \<Rightarrow> string list" where
  "split_on c [] = [[]]"
| "split_on c (x # xs) =
     (if x = c then [] # split_on c xs
      else (case split_on c xs of [] \<Rightarrow> [[x]] | y # ys \<Rightarrow> (x # y) # ys))"

fun join_with :: "string \<Rightarrow> string list \<Rightarrow> string" where
  "join_with sep [] = []"
| "join_with sep [x] = x"
| "join_with sep (x # y # ys) = x @ sep @ join_with sep (y # ys)"

text \<open>\<open>strings.Cut\<close> at the first occurrence of one byte.\<close>

fun cut_at :: "char \<Rightarrow> string \<Rightarrow> (string \<times> string) option" where
  "cut_at c [] = None"
| "cut_at c (x # xs) =
     (if x = c then Some ([], xs) else map_option (\<lambda>(a, b). (x # a, b)) (cut_at c xs))"

definition upper_char :: "char \<Rightarrow> char" where
  "upper_char c =
     (if 97 \<le> (of_char c :: nat) \<and> (of_char c :: nat) \<le> 122 then char_of ((of_char c :: nat) - 32) else c)"

definition lower_char :: "char \<Rightarrow> char" where
  "lower_char c =
     (if 65 \<le> (of_char c :: nat) \<and> (of_char c :: nat) \<le> 90 then char_of ((of_char c :: nat) + 32) else c)"

definition to_upper :: "string \<Rightarrow> string" where "to_upper s = map upper_char s"
definition to_lower :: "string \<Rightarrow> string" where "to_lower s = map lower_char s"

lemmas strings_eval [go_eval] =
  is_space_def trim_left_with_def trim_right_with_def trim_space_def has_prefix_def has_suffix_def
  trim_prefix_def contains_any_def to_upper_def to_lower_def upper_char_def lower_char_def

subsection \<open>Laws\<close>

lemma has_prefix_append [simp]: "has_prefix (p @ s) p"
  by (simp add: has_prefix_def)

lemma has_prefix_iff: "has_prefix s p \<longleftrightarrow> (\<exists>r. s = p @ r)"
  by (metis append_eq_conv_conj append_take_drop_id has_prefix_def)

lemma trim_right_suffix: "\<exists>r. s = trim_right_with p s @ r \<and> list_all p r"
proof -
  have "rev s = takeWhile p (rev s) @ dropWhile p (rev s)" by simp
  then have "s = rev (dropWhile p (rev s)) @ rev (takeWhile p (rev s))"
    by (metis rev_append rev_rev_ident)
  moreover have "list_all p (rev (takeWhile p (rev s)))"
    by (auto simp: list_all_iff dest: set_takeWhileD)
  ultimately show ?thesis unfolding trim_right_with_def by blast
qed

lemma trim_right_last: "trim_right_with p s \<noteq> [] \<Longrightarrow> \<not> p (last (trim_right_with p s))"
  by (simp add: trim_right_with_def last_rev hd_dropWhile)

lemma trim_right_fix: "s = [] \<or> \<not> p (last s) \<Longrightarrow> trim_right_with p s = s"
  by (cases s rule: rev_cases) (auto simp: trim_right_with_def)

lemma trim_right_idem [simp]: "trim_right_with p (trim_right_with p s) = trim_right_with p s"
  by (rule trim_right_fix) (use trim_right_last in blast)

lemma trim_right_hd: "trim_right_with p s \<noteq> [] \<Longrightarrow> hd (trim_right_with p s) = hd s"
  using trim_right_suffix [of s p] by (metis hd_append2)

lemma trim_left_fix: "s = [] \<or> \<not> p (hd s) \<Longrightarrow> trim_left_with p s = s"
  by (cases s) (auto simp: trim_left_with_def)

lemma trim_left_hd: "trim_left_with p s \<noteq> [] \<Longrightarrow> \<not> p (hd (trim_left_with p s))"
  by (simp add: trim_left_with_def hd_dropWhile)

lemma trim_space_hd: "trim_space s \<noteq> [] \<Longrightarrow> \<not> is_space (hd (trim_space s))"
  unfolding trim_space_def
  by (metis trim_left_hd trim_right_fix trim_right_hd)

lemma trim_space_last: "trim_space s \<noteq> [] \<Longrightarrow> \<not> is_space (last (trim_space s))"
  unfolding trim_space_def by (rule trim_right_last)

lemma trim_space_fix:
  "s = [] \<or> (\<not> is_space (hd s) \<and> \<not> is_space (last s)) \<Longrightarrow> trim_space s = s"
  by (auto simp: trim_space_def trim_left_fix trim_right_fix)

lemma trim_space_idem [simp]: "trim_space (trim_space s) = trim_space s"
  by (rule trim_space_fix) (use trim_space_hd trim_space_last in blast)

lemma trim_space_sub: "set (trim_space s) \<subseteq> set s"
  unfolding trim_space_def trim_right_with_def trim_left_with_def
  by (metis order_trans set_dropWhileD set_rev subsetI)

lemma split_on_not_Nil [simp]: "split_on c s \<noteq> []"
  by (induction s) (auto split: list.splits)

lemma join_split: "join_with [c] (split_on c s) = s"
proof (induction s)
  case (Cons x xs)
  then show ?case by (cases "split_on c xs"; cases "tl (split_on c xs)") (auto split: list.splits)
qed simp

lemma split_on_no_sep: "y \<in> set (split_on c s) \<Longrightarrow> c \<notin> set y"
  by (induction s arbitrary: y) (auto split: list.splits if_splits)

lemma split_on_sub: "y \<in> set (split_on c s) \<Longrightarrow> set y \<subseteq> set s"
proof (induction s arbitrary: y)
  case (Cons x xs)
  then show ?case by (cases "split_on c xs") (auto split: if_splits, fastforce+)
qed simp

lemma split_on_none: "c \<notin> set s \<Longrightarrow> split_on c s = [s]"
  by (induction s) auto

lemma split_on_append: "c \<notin> set y \<Longrightarrow> split_on c (y @ c # s) = y # split_on c s"
  by (induction y) auto

lemma split_join:
  "ys \<noteq> [] \<Longrightarrow> (\<And>y. y \<in> set ys \<Longrightarrow> c \<notin> set y) \<Longrightarrow> split_on c (join_with [c] ys) = ys"
  by (induction "[c]" ys rule: join_with.induct) (auto simp: split_on_none split_on_append)

lemma cut_at_None: "cut_at c s = None \<longleftrightarrow> c \<notin> set s"
  by (induction s) auto

lemma cut_at_Some: "cut_at c s = Some (a, b) \<Longrightarrow> s = a @ c # b \<and> c \<notin> set a"
  by (induction s arbitrary: a) (auto split: if_splits)

lemma cut_at_append: "c \<notin> set a \<Longrightarrow> cut_at c (a @ c # b) = Some (a, b)"
  by (induction a) auto

section \<open>Package strconv\<close>

definition digit_char :: "nat \<Rightarrow> char" where
  "digit_char d = char_of (if d < 10 then 48 + d else 87 + d)"

definition digit_val :: "char \<Rightarrow> nat option" where
  "digit_val c = (let n = (of_char c :: nat) in
     if 48 \<le> n \<and> n \<le> 57 then Some (n - 48)
     else if 97 \<le> n \<and> n \<le> 122 then Some (n - 87)
     else if 65 \<le> n \<and> n \<le> 90 then Some (n - 55) else None)"

lemma digit_val_char: "d < 36 \<Longrightarrow> digit_val (digit_char d) = Some d"
  by (auto simp: digit_val_def digit_char_def Let_def)

text \<open>The digits of a number in a base from 2 to 36 (\<open>FormatUint\<close>; base 10 for \<open>Itoa\<close>).\<close>

fun format_nat :: "nat \<Rightarrow> nat \<Rightarrow> string" where
  "format_nat b n =
     (if b < 2 \<or> n < b then [digit_char n] else format_nat b (n div b) @ [digit_char (n mod b)])"

declare format_nat.simps [simp del]

definition itoa :: "int \<Rightarrow> string" where
  "itoa n = (if n < 0 then CHR ''-'' # format_nat 10 (nat (- n)) else format_nat 10 (nat n))"

text \<open>Reading digits in a base, most significant first; None on a byte that is no digit of it.\<close>

fun parse_digits :: "nat \<Rightarrow> nat \<Rightarrow> string \<Rightarrow> nat option" where
  "parse_digits b acc [] = Some acc"
| "parse_digits b acc (c # cs) =
     (case digit_val c of
        Some d \<Rightarrow> if d < b then parse_digits b (acc * b + d) cs else None
      | None \<Rightarrow> None)"

text \<open>\<open>strconv.ParseInt(s, 10, 64)\<close>, which is also \<open>strconv.Atoi\<close> on a 64-bit platform: an optional
  sign, at least one decimal digit, and a value in the range of int64.\<close>

definition parse_int :: "string \<Rightarrow> int option" where
  "parse_int s =
     (let (neg, ds) =
        (case s of [] \<Rightarrow> (False, [])
         | c # cs \<Rightarrow> if c = CHR ''-'' then (True, cs) else if c = CHR ''+'' then (False, cs) else (False, s))
      in if ds = [] then None
         else case parse_digits 10 0 ds of
            None \<Rightarrow> None
          | Some n \<Rightarrow>
              if neg then (if int n \<le> 2 ^ 63 then Some (- int n) else None)
              else (if int n < 2 ^ 63 then Some (int n) else None))"

lemma parse_digits_append:
  "parse_digits b acc (xs @ ys) =
     (case parse_digits b acc xs of None \<Rightarrow> None | Some n \<Rightarrow> parse_digits b n ys)"
  by (induction xs arbitrary: acc) (auto split: option.splits)

lemma parse_format_nat:
  "2 \<le> b \<Longrightarrow> b \<le> 36 \<Longrightarrow> parse_digits b 0 (format_nat b n) = Some n"
proof (induction b n rule: format_nat.induct)
  case (1 b n)
  show ?case
  proof (cases "n < b")
    case True
    with 1 show ?thesis by (subst format_nat.simps) (simp add: digit_val_char)
  next
    case False
    have "n mod b < b" using 1 by simp
    then have "n mod b < 36" using "1.prems"(2) by linarith
    with False 1 \<open>n mod b < b\<close> show ?thesis
      by (subst format_nat.simps) (simp add: parse_digits_append digit_val_char)
  qed
qed

lemma format_nat_inj: "2 \<le> b \<Longrightarrow> b \<le> 36 \<Longrightarrow> format_nat b m = format_nat b n \<Longrightarrow> m = n"
  by (metis option.inject parse_format_nat)

lemma format_nat_not_Nil [simp]: "format_nat b n \<noteq> []"
  by (subst format_nat.simps) simp

lemma format_nat_chars:
  "2 \<le> b \<Longrightarrow> c \<in> set (format_nat b n) \<Longrightarrow> \<exists>d < b. c = digit_char d"
proof (induction b n rule: format_nat.induct)
  case (1 b n)
  show ?case
  proof (cases "n < b")
    case True
    with 1 show ?thesis by (subst (asm) format_nat.simps) auto
  next
    case False
    with 1 have "c \<in> set (format_nat b (n div b)) \<or> c = digit_char (n mod b)"
      by (subst (asm) format_nat.simps) auto
    with False 1 show ?thesis by (metis bot_nat_0.not_eq_extremum linorder_not_less mod_less_divisor
      not_numeral_le_zero)
  qed
qed

lemma format_nat_length: "2 \<le> b \<Longrightarrow> 0 < k \<Longrightarrow> n < b ^ k \<Longrightarrow> length (format_nat b n) \<le> k"
proof (induction b n arbitrary: k rule: format_nat.induct)
  case (1 b n)
  show ?case
  proof (cases "n < b")
    case True
    then show ?thesis using 1(3) by (subst format_nat.simps) simp
  next
    case False
    then have "k \<noteq> 1" using 1(4) by auto
    then obtain j where k: "k = Suc j" "0 < j" using 1(3) by (cases k) auto
    have "n div b < b ^ j" using 1(2,4) k by (simp add: less_mult_imp_div_less mult.commute)
    then have "length (format_nat b (n div b)) \<le> j" using 1(1,2) k False by simp
    then show ?thesis using False 1(2) k by (subst format_nat.simps) simp
  qed
qed

lemma digit_char_not_sign: "d < 10 \<Longrightarrow> digit_char d \<noteq> CHR ''-'' \<and> digit_char d \<noteq> CHR ''+''"
  by (auto simp: digit_char_def dest: arg_cong [where f = "of_char :: char \<Rightarrow> nat"])

lemma hd_format_nat: "\<exists>c cs. format_nat 10 n = c # cs \<and> c \<noteq> CHR ''-'' \<and> c \<noteq> CHR ''+''"
proof (cases "format_nat 10 n")
  case (Cons c cs)
  then obtain d where "d < 10" "c = digit_char d" using format_nat_chars [of 10 c n] by auto
  with Cons digit_char_not_sign show ?thesis by blast
qed simp

lemma parse_int_itoa: "- (2 ^ 63) \<le> n \<Longrightarrow> n < 2 ^ 63 \<Longrightarrow> parse_int (itoa n) = Some n"
  using hd_format_nat [of "nat n"] parse_format_nat [of 10 "nat n"] parse_format_nat [of 10 "nat (- n)"]
  by (auto simp: parse_int_def itoa_def)

lemma parse_int_range: "parse_int s = Some n \<Longrightarrow> - (2 ^ 63) \<le> n \<and> n < 2 ^ 63"
  by (auto simp: parse_int_def Let_def split: prod.splits option.splits if_splits)

end
