(* ===== verification/GoPath.thy ===== *)
theory GoPath
  imports GoText
begin

text \<open>
  Go's package path as far as the access control calls it: \<open>path.Clean\<close> on the request path and
  \<open>path.Match\<close> of an allowed pattern.  \<open>path.Match\<close> follows the library's own algorithm (split off a
  chunk up to the next star, match it leftmost, never backtrack over an earlier chunk).  Runes are
  single bytes here; multi-byte characters inside a character class or under a question mark are outside the model.
\<close>

section \<open>Clean\<close>

definition clean_push :: "bool \<Rightarrow> string list \<Rightarrow> string \<Rightarrow> string list" where
  "clean_push rooted stack part =
     (if part = '''' \<or> part = ''.'' then stack
      else if part = ''..'' then
        (if stack \<noteq> [] \<and> hd stack \<noteq> ''..'' then tl stack
         else if rooted then stack else ''..'' # stack)
      else part # stack)"

definition path_clean :: "string \<Rightarrow> string" where
  "path_clean p =
     (let rooted = has_prefix p ''/'';
          out = join_with ''/'' (rev (foldl (clean_push rooted) [] (split_on CHR ''/'' p)))
      in if rooted then ''/'' @ out else if out = '''' then ''.'' else out)"

section \<open>Match\<close>

text \<open>\<open>scanChunk\<close>: leading stars, then the bytes before the next star outside brackets.\<close>

fun scan_bytes :: "bool \<Rightarrow> string \<Rightarrow> string \<times> string" where
  "scan_bytes inrange [] = ([], [])"
| "scan_bytes inrange (c # cs) =
     (if c = CHR 0x5C then
        (case cs of
           [] \<Rightarrow> ([c], [])
         | d # ds \<Rightarrow> (case scan_bytes inrange ds of (a, b) \<Rightarrow> (c # d # a, b)))
      else if c = CHR ''*'' \<and> \<not> inrange then ([], c # cs)
      else
        (case scan_bytes (if c = CHR ''['' then True else if c = CHR '']'' then False else inrange) cs of
           (a, b) \<Rightarrow> (c # a, b)))"

definition scan_chunk :: "string \<Rightarrow> bool \<times> string \<times> string" where
  "scan_chunk pattern =
     (let p = dropWhile (\<lambda>c. c = CHR ''*'') pattern in (p \<noteq> pattern, scan_bytes False p))"

text \<open>\<open>getEsc\<close>: one possibly escaped character of a class; None is ErrBadPattern.\<close>

fun get_esc :: "string \<Rightarrow> (char \<times> string) option" where
  "get_esc [] = None"
| "get_esc (c # cs) =
     (if c = CHR ''-'' \<or> c = CHR '']'' then None
      else if c = CHR 0x5C then
        (case cs of [] \<Rightarrow> None | d # ds \<Rightarrow> if ds = [] then None else Some (d, ds))
      else if cs = [] then None else Some (c, cs))"

lemma get_esc_shorter: "get_esc s = Some (c, rest) \<Longrightarrow> length rest < length s"
  by (cases s) (auto split: if_splits list.splits)

text \<open>The ranges of a class after the optional caret: whether one holds \<open>r\<close>, and the rest of the chunk.\<close>

function class_ranges :: "nat \<Rightarrow> string \<Rightarrow> bool \<Rightarrow> bool \<Rightarrow> (bool \<times> string) option" where
  "class_ranges r chunk seen found =
     (if chunk \<noteq> [] \<and> hd chunk = CHR '']'' \<and> seen then Some (found, tl chunk)
      else
        (case get_esc chunk of
           None \<Rightarrow> None
         | Some (lo, rest) \<Rightarrow>
             if hd rest = CHR ''-'' then
               (case get_esc (tl rest) of
                  None \<Rightarrow> None
                | Some (hi, rest') \<Rightarrow> class_ranges r rest' True (found \<or> (of_char lo \<le> r \<and> r \<le> of_char hi)))
             else class_ranges r rest True (found \<or> of_char lo = r)))"
  by pat_completeness auto
termination
proof (relation "measure (\<lambda>(r, chunk, seen, found). length chunk)")
  fix chunk lo rest hi rest' and x y :: "char \<times> string"
  assume "get_esc chunk = Some x" "(lo, rest) = x" "get_esc (tl rest) = Some y" "(hi, rest') = y"
  then have "length rest < length chunk" "length rest' < length (tl rest)" by (metis get_esc_shorter)+
  then show "((r, rest', b, f), r, chunk, seen, found) \<in> measure (\<lambda>(r, chunk, seen, found). length chunk)"
    for r :: nat and b f seen found :: bool by simp
qed (use get_esc_shorter in auto)

declare class_ranges.simps [simp del]

lemma class_ranges_shorter: "class_ranges r chunk seen found = Some (b, rest) \<Longrightarrow> length rest < length chunk"
proof (induction r chunk seen found rule: class_ranges.induct)
  case (1 r chunk seen found)
  show ?case
  proof (cases "chunk \<noteq> [] \<and> hd chunk = CHR '']'' \<and> seen")
    case True
    with 1(3) show ?thesis by (cases chunk) (auto simp: class_ranges.simps)
  next
    case stop: False
    with 1(3) obtain lo r1 where g: "get_esc chunk = Some (lo, r1)"
      by (auto simp: class_ranges.simps [of r chunk] split: option.splits if_splits)
    note short = get_esc_shorter [OF g]
    show ?thesis
    proof (cases "hd r1 = CHR ''-''")
      case True
      with stop g 1(3) obtain hi r2 where g2: "get_esc (tl r1) = Some (hi, r2)"
        by (auto simp: class_ranges.simps [of r chunk] split: option.splits)
      have "length rest < length r2"
        using 1(1) [OF stop g refl True g2 refl] 1(3) stop g True g2 by (simp add: class_ranges.simps [of r chunk])
      with short get_esc_shorter [OF g2] show ?thesis by simp
    next
      case False
      have "length rest < length r1"
        using 1(2) [OF stop g refl False] 1(3) stop g False by (simp add: class_ranges.simps [of r chunk])
      with short show ?thesis by simp
    qed
  qed
qed

text \<open>
  \<open>matchChunk\<close>: the outer None is ErrBadPattern, the inner None a failed match, otherwise the rest of
  the text.  After a failure the loop goes on over the chunk to find syntax errors, with \<open>s\<close> as None.
\<close>

definition next_char :: "string option \<Rightarrow> nat" where
  "next_char s = (case s of Some (c # _) \<Rightarrow> of_char c | _ \<Rightarrow> 0)"

definition advance :: "bool \<Rightarrow> string option \<Rightarrow> string option" where
  "advance ok s = (if ok then map_option tl s else None)"

function match_chunk :: "string \<Rightarrow> string option \<Rightarrow> string option option" where
  "match_chunk [] s = Some s"
| "match_chunk (c # chunk) s =
     (let s = (if s = Some [] then None else s) in
      if c = CHR ''['' then
        (let negated = (chunk \<noteq> [] \<and> hd chunk = CHR ''^'');
             chunk = (if negated then tl chunk else chunk)
         in case class_ranges (next_char s) chunk False False of
              None \<Rightarrow> None
            | Some (found, rest) \<Rightarrow> match_chunk rest (advance (found \<noteq> negated) s))
      else if c = CHR ''?'' then match_chunk chunk (advance (next_char s \<noteq> of_char CHR ''/'') s)
      else if c = CHR 0x5C then
        (case chunk of [] \<Rightarrow> None | d # ds \<Rightarrow> match_chunk ds (advance (next_char s = of_char d) s))
      else match_chunk chunk (advance (next_char s = of_char c) s))"
  by pat_completeness auto
termination
proof (relation "measure (\<lambda>(chunk, s). length chunk)", goal_cases)
  case (2 c chunk s x xa xb x2 xba y)
  then have "length y < length xb" by (metis class_ranges_shorter)
  moreover have "length xb \<le> length chunk" using 2 by simp
  ultimately show ?case by simp
qed simp_all

declare match_chunk.simps [simp del]

text \<open>The star's search: the rest after the leftmost later match that fits, not going past a slash.\<close>

fun star_search :: "string \<Rightarrow> bool \<Rightarrow> string \<Rightarrow> string option" where
  "star_search chunk last_chunk [] = None"
| "star_search chunk last_chunk (c # name) =
     (if c = CHR ''/'' then None
      else
        (case match_chunk chunk (Some name) of
           Some (Some t) \<Rightarrow> if last_chunk \<and> t \<noteq> [] then star_search chunk last_chunk name else Some t
         | _ \<Rightarrow> star_search chunk last_chunk name))"

lemma scan_bytes_append: "scan_bytes b s = (x, y) \<Longrightarrow> x @ y = s"
proof (induction b s arbitrary: x y rule: scan_bytes.induct)
  case (2 inrange c cs)
  show ?case
  proof (cases "c = CHR 0x5C")
    case esc: True
    show ?thesis
    proof (cases cs)
      case (Cons d ds)
      obtain u v where "scan_bytes inrange ds = (u, v)" by fastforce
      with 2(1) [OF esc Cons] 2(3) esc Cons show ?thesis by auto
    qed (use 2(3) esc in auto)
  next
    case plain: False
    show ?thesis
    proof (cases "c = CHR ''*'' \<and> \<not> inrange")
      case False
      obtain u v where "scan_bytes (if c = CHR ''['' then True else if c = CHR '']'' then False else inrange) cs = (u, v)" by fastforce
      with 2(2) [OF plain False] 2(3) plain False show ?thesis by auto
    qed (use 2(3) plain in auto)
  qed
qed simp

lemma scan_bytes_moves: "c \<noteq> CHR ''*'' \<Longrightarrow> scan_bytes b (c # cs) = (x, y) \<Longrightarrow> x \<noteq> []"
  by (auto split: if_splits list.splits prod.splits)

lemma scan_chunk_shorter:
  assumes "pattern \<noteq> []" "scan_chunk pattern = (star, chunk, rest)"
  shows "length rest < length pattern"
proof -
  let ?p = "dropWhile (\<lambda>c. c = CHR ''*'') pattern"
  have scan: "scan_bytes False ?p = (chunk, rest)" using assms(2) by (auto simp: scan_chunk_def Let_def)
  have len: "length chunk + length rest = length ?p" using scan_bytes_append [OF scan] by (metis length_append)
  show ?thesis
  proof (cases pattern)
    case (Cons c cs)
    show ?thesis
    proof (cases "c = CHR ''*''")
      case True
      then have "length ?p \<le> length cs" by (simp add: Cons length_dropWhile_le)
      with len show ?thesis by (simp add: Cons)
    next
      case False
      then have "chunk \<noteq> []" using scan scan_bytes_moves by (simp add: Cons)
      with len False show ?thesis by (cases chunk) (simp_all add: Cons)
    qed
  qed (use assms(1) in simp)
qed

text \<open>
  \<open>path.Match\<close> with its error folded into False, which is how \<open>matchesPath\<close> reads it: a malformed
  chunk is an error whatever the text, so checking it once suffices.
\<close>

function path_match :: "string \<Rightarrow> string \<Rightarrow> bool" where
  "path_match pattern name =
     (if pattern = [] then name = []
      else
        (case scan_chunk pattern of
           (star, chunk, rest) \<Rightarrow>
             if star \<and> chunk = [] then CHR ''/'' \<notin> set name
             else
               (case match_chunk chunk (Some name) of
                  None \<Rightarrow> False
                | Some r \<Rightarrow>
                    (if r \<noteq> None \<and> (the r = [] \<or> rest \<noteq> []) then path_match rest (the r)
                     else if \<not> star then False
                     else
                       (case star_search chunk (rest = []) name of
                          None \<Rightarrow> False
                        | Some t \<Rightarrow> path_match rest t)))))"
  by pat_completeness auto
termination
  by (relation "measure (\<lambda>(pattern, name). length pattern)") (auto simp: scan_chunk_shorter [OF _ sym])

declare path_match.simps [simp del]

section \<open>Laws\<close>

definition literal :: "string \<Rightarrow> bool" where
  "literal p \<longleftrightarrow> list_all (\<lambda>c. c \<noteq> CHR ''*'' \<and> c \<noteq> CHR ''?'' \<and> c \<noteq> CHR ''['' \<and> c \<noteq> CHR 0x5C) p"

lemma literal_simps [simp]:
  "literal []"
  "literal (c # p) \<longleftrightarrow> c \<noteq> CHR ''*'' \<and> c \<noteq> CHR ''?'' \<and> c \<noteq> CHR ''['' \<and> c \<noteq> CHR 0x5C \<and> literal p"
  by (auto simp: literal_def)

lemma match_chunk_failed: "literal p \<Longrightarrow> match_chunk p None = Some None"
  by (induction p) (simp_all add: match_chunk.simps Let_def advance_def)

lemma match_chunk_literal:
  "literal p \<Longrightarrow> match_chunk p (Some s) = Some (if has_prefix s p then Some (drop (length p) s) else None)"
proof (induction p arbitrary: s)
  case (Cons c p)
  show ?case
  proof (cases s)
    case Nil
    with Cons.prems show ?thesis by (simp add: match_chunk.simps Let_def advance_def match_chunk_failed has_prefix_def)
  next
    case s: (Cons d t)
    show ?thesis
    proof (cases "d = c")
      case True
      with Cons s show ?thesis by (simp add: match_chunk.simps Let_def advance_def next_char_def has_prefix_def)
    next
      case False
      then have "(of_char d :: nat) \<noteq> of_char c" by simp
      with Cons.prems s False show ?thesis
        by (simp add: match_chunk.simps Let_def advance_def next_char_def has_prefix_def match_chunk_failed)
    qed
  qed
qed (simp add: match_chunk.simps has_prefix_def)

lemma scan_bytes_literal: "literal p \<Longrightarrow> scan_bytes False p = (p, [])"
proof (induction p)
  case (Cons c p)
  then show ?case by (cases "c = CHR '']''") (simp_all)
qed simp

lemma scan_bytes_star: "literal p \<Longrightarrow> scan_bytes False (p @ ''*'') = (p, ''*'')"
proof (induction p)
  case (Cons c p)
  then show ?case by (cases "c = CHR '']''") (simp_all)
qed simp

lemma literal_no_star: "literal p \<Longrightarrow> dropWhile (\<lambda>c. c = CHR ''*'') (p @ q) = (if p = [] then dropWhile (\<lambda>c. c = CHR ''*'') q else p @ q)"
  by (cases p) auto

lemma path_match_literal: "literal p \<Longrightarrow> path_match p name \<longleftrightarrow> name = p"
proof (cases "p = []")
  case False
  assume lit: "literal p"
  have "scan_chunk p = (False, p, [])"
    using lit False literal_no_star [OF lit, of "[]"] by (simp add: scan_chunk_def Let_def scan_bytes_literal)
  then show ?thesis using False lit
    by (auto simp: path_match.simps [of p] path_match.simps [of "[]"] match_chunk_literal has_prefix_iff)
qed (simp add: path_match.simps)

lemma path_match_star: "literal p \<Longrightarrow> path_match (p @ ''*'') name \<longleftrightarrow> (\<exists>r. name = p @ r \<and> CHR ''/'' \<notin> set r)"
proof -
  assume lit: "literal p"
  have star: "path_match ''*'' n \<longleftrightarrow> CHR ''/'' \<notin> set n" for n
    by (simp add: path_match.simps [of "''*''"] scan_chunk_def)
  show ?thesis
  proof (cases "p = []")
    case False
    have "scan_chunk (p @ ''*'') = (False, p, ''*'')"
      using lit False literal_no_star [OF lit, of "''*''"] by (simp add: scan_chunk_def Let_def scan_bytes_star)
    then show ?thesis using False lit
      by (auto simp: path_match.simps [of "p @ ''*''"] match_chunk_literal has_prefix_iff star)
  qed (simp add: star)
qed

lemma clean_push_parts: "x \<in> set (clean_push rooted st part) \<Longrightarrow> x \<in> set st \<or> x = part \<or> x = ''..''"
  by (auto simp: clean_push_def split: if_splits dest: list.set_sel(2))

text \<open>The cleaned path of a rooted path has no empty, dot or dot-dot element.\<close>

lemma clean_push_rooted: "(\<forall>x \<in> set st. x \<notin> {'''', ''.'', ''..''}) \<Longrightarrow> \<forall>x \<in> set (clean_push True st part). x \<notin> {'''', ''.'', ''..''}"
  by (auto simp: clean_push_def dest: list.set_sel(2))

lemma clean_rooted_parts: "\<forall>x \<in> set (foldl (clean_push True) st parts). x \<notin> {'''', ''.'', ''..''}"
  if "\<forall>x \<in> set st. x \<notin> {'''', ''.'', ''..''}"
  using that
proof (induction parts arbitrary: st)
  case (Cons q parts)
  show ?case unfolding foldl_Cons by (rule Cons.IH [OF clean_push_rooted [OF Cons.prems]])
qed simp

lemma path_clean_rooted:
  assumes "has_prefix p ''/''"
  shows "\<exists>parts. path_clean p = ''/'' @ join_with ''/'' parts \<and> (\<forall>x \<in> set parts. x \<notin> {'''', ''.'', ''..''} \<and> CHR ''/'' \<notin> set x)"
proof -
  let ?st = "foldl (clean_push True) [] (split_on CHR ''/'' p)"
  have "\<forall>x \<in> set ?st. x \<notin> {'''', ''.'', ''..''}" by (rule clean_rooted_parts) simp
  moreover have "CHR ''/'' \<notin> set x" if "x \<in> set (foldl (clean_push b) st parts)"
    "\<forall>y \<in> set st. CHR ''/'' \<notin> set y" "\<forall>y \<in> set parts. CHR ''/'' \<notin> set y" for x b st parts
    using that
  proof (induction parts arbitrary: st)
    case (Cons q parts)
    have "\<forall>y \<in> set (clean_push b st q). CHR ''/'' \<notin> set y"
    proof
      fix y assume "y \<in> set (clean_push b st q)"
      then show "CHR ''/'' \<notin> set y" using clean_push_parts [of y b st q] Cons.prems by auto
    qed
    with Cons show ?case by simp
  qed simp
  then have "\<forall>x \<in> set ?st. CHR ''/'' \<notin> set x" using split_on_no_sep by fastforce
  ultimately show ?thesis using assms by (intro exI [of _ "rev ?st"]) (simp add: path_clean_def Let_def)
qed

lemma clean_push_plain: "\<forall>x \<in> set parts. x \<notin> {'''', ''.'', ''..''} \<Longrightarrow> foldl (clean_push b) st parts = rev parts @ st"
  by (induction parts arbitrary: st) (auto simp: clean_push_def)

lemma path_clean_idem:
  assumes "has_prefix p ''/''"
  shows "has_prefix (path_clean p) ''/''" "path_clean (path_clean p) = path_clean p"
proof -
  obtain parts where p: "path_clean p = ''/'' @ join_with ''/'' parts"
    and plain: "\<forall>x \<in> set parts. x \<notin> {'''', ''.'', ''..''} \<and> CHR ''/'' \<notin> set x"
    using path_clean_rooted [OF assms] by blast
  show rooted: "has_prefix (path_clean p) ''/''" by (simp add: p has_prefix_def)
  have "split_on CHR ''/'' (path_clean p) = '''' # (if parts = [] then [''''] else parts)"
    using plain split_join [of parts "CHR ''/''"] by (auto simp: p)
  then have "rev (foldl (clean_push True) [] (split_on CHR ''/'' (path_clean p))) = parts"
    using plain by (auto simp: clean_push_plain clean_push_def)
  then show "path_clean (path_clean p) = path_clean p"
    using rooted by (simp add: path_clean_def [of "path_clean p"] Let_def) (simp add: p)
qed

lemma has_prefix_extend: "has_prefix a p \<Longrightarrow> has_prefix (a @ b) p"
  unfolding has_prefix_def by (metis append.assoc append_eq_conv_conj append_take_drop_id)

end
