(* ===== verification/GoNet.thy ===== *)
theory GoNet
  imports GoText
begin

unbundle bit_operations_syntax

text \<open>
  The parts of Go's package net that the program calls: \<open>ParseIP\<close>, \<open>IP.String\<close>, \<open>IP.To4\<close>,
  \<open>IP.Mask\<close>, \<open>IP.IsLoopback\<close>, \<open>ParseCIDR\<close>, \<open>IPNet.Contains\<close>, \<open>SplitHostPort\<close> and
  \<open>JoinHostPort\<close>.  A \<open>net.IP\<close> is modelled by its canonical form: every use in the program goes
  through \<open>To4\<close> (directly, or inside \<open>Contains\<close>, \<open>String\<close> and \<open>IsLoopback\<close>), which reads an
  IPv4-mapped 16-byte address as the IPv4 address it embeds, so a mapped address is an
  \<open>IPv4\<close> value here.
\<close>

section \<open>Addresses\<close>

datatype ipaddr = IPv4 "32 word" | IPv6 "128 word"

definition mapped4 :: "128 word \<Rightarrow> bool" where
  "mapped4 w \<longleftrightarrow> drop_bit 32 w = 0xFFFF"

text \<open>The canonical form (\<open>To4\<close>).\<close>

fun canon_ip :: "ipaddr \<Rightarrow> ipaddr" where
  "canon_ip (IPv4 w) = IPv4 w"
| "canon_ip (IPv6 w) = (if mapped4 w then IPv4 (ucast w) else IPv6 w)"

definition is_canon :: "ipaddr \<Rightarrow> bool" where
  "is_canon a \<longleftrightarrow> (case a of IPv4 _ \<Rightarrow> True | IPv6 w \<Rightarrow> \<not> mapped4 w)"

lemma canon_ip_canon [simp]: "is_canon (canon_ip a)"
  by (cases a) (auto simp: is_canon_def)

lemma canon_ip_fix: "is_canon a \<Longrightarrow> canon_ip a = a"
  by (cases a) (auto simp: is_canon_def)

subsection \<open>Reading an address\<close>

definition octet :: "string \<Rightarrow> nat option" where
  "octet f =
     (if f = [] \<or> (1 < length f \<and> hd f = CHR ''0'') then None
      else case parse_digits 10 0 f of
          None \<Rightarrow> None
        | Some n \<Rightarrow> if n \<le> 255 then Some n else None)"

definition word_of_octets :: "nat \<Rightarrow> nat \<Rightarrow> nat \<Rightarrow> nat \<Rightarrow> 32 word" where
  "word_of_octets a b c d = of_nat (((a * 256 + b) * 256 + c) * 256 + d)"

definition parse_ipv4 :: "string \<Rightarrow> 32 word option" where
  "parse_ipv4 s =
     (case map octet (split_on CHR ''.'' s) of
        [Some a, Some b, Some c, Some d] \<Rightarrow> Some (word_of_octets a b c d)
      | _ \<Rightarrow> None)"

definition is_hex :: "char \<Rightarrow> bool" where
  "is_hex c \<longleftrightarrow> (case digit_val c of Some d \<Rightarrow> d < 16 | None \<Rightarrow> False)"

text \<open>
  The group loop of \<open>netip.parseIPv6\<close>: the first argument counts the groups that still fit, the
  second holds the groups read so far, the third the position of the ellipsis.  None is a parse
  error; otherwise the groups, the ellipsis and the unread text.
\<close>

fun v6_groups :: "nat \<Rightarrow> nat list \<Rightarrow> nat option \<Rightarrow> string \<Rightarrow> (nat list \<times> nat option \<times> string) option" where
  "v6_groups 0 gs el s = Some (gs, el, s)"
| "v6_groups (Suc k) gs el s =
     (let hex = takeWhile is_hex s; rest = dropWhile is_hex s in
      if hex = [] \<or> 4 < length hex then None
      else if rest \<noteq> [] \<and> hd rest = CHR ''.'' then
        (if (el = None \<and> length gs \<noteq> 6) \<or> 6 < length gs then None
         else case parse_ipv4 s of
             None \<Rightarrow> None
           | Some w \<Rightarrow> Some (gs @ [unat w div 65536, unat w mod 65536], el, []))
      else case parse_digits 16 0 hex of
          None \<Rightarrow> None
        | Some v \<Rightarrow>
            (let gs' = gs @ [v] in
             case rest of
               [] \<Rightarrow> Some (gs', el, [])
             | [c] \<Rightarrow> None
             | c # d # more \<Rightarrow>
                 if c \<noteq> CHR '':'' then None
                 else if d = CHR '':'' then
                   (if el \<noteq> None then None
                    else if more = [] then Some (gs', Some (length gs'), [])
                    else v6_groups k gs' (Some (length gs')) more)
                 else v6_groups k gs' el (d # more)))"

definition expand_groups :: "(nat list \<times> nat option \<times> string) option \<Rightarrow> nat list option" where
  "expand_groups r =
     (case r of
        None \<Rightarrow> None
      | Some (gs, el, rest) \<Rightarrow>
          if rest \<noteq> [] then None
          else if length gs < 8 then
            (case el of
               None \<Rightarrow> None
             | Some e \<Rightarrow> Some (take e gs @ replicate (8 - length gs) 0 @ drop e gs))
          else if el \<noteq> None then None
          else Some gs)"

definition word_of_groups :: "nat list \<Rightarrow> 128 word" where
  "word_of_groups gs = of_nat (foldl (\<lambda>acc g. acc * 65536 + g) 0 gs)"

definition parse_groups :: "string \<Rightarrow> nat list option" where
  "parse_groups s =
     (if has_prefix s ''::'' then
        (if drop 2 s = [] then Some (replicate 8 0)
         else expand_groups (v6_groups 8 [] (Some 0) (drop 2 s)))
      else expand_groups (v6_groups 8 [] None s))"

definition parse_ipv6 :: "string \<Rightarrow> 128 word option" where
  "parse_ipv6 s = map_option word_of_groups (parse_groups s)"

text \<open>
  \<open>netip.ParseAddr\<close> without zones: the first dot or colon decides the family, and the callers in
  package net refuse every address with a zone, so a percent sign is an error here.
\<close>

definition parse_addr :: "string \<Rightarrow> ipaddr option" where
  "parse_addr s =
     (if CHR ''%'' \<in> set s then None
      else case dropWhile (\<lambda>c. c \<noteq> CHR ''.'' \<and> c \<noteq> CHR '':'') s of
          [] \<Rightarrow> None
        | c # _ \<Rightarrow>
            if c = CHR ''.'' then map_option IPv4 (parse_ipv4 s)
            else map_option IPv6 (parse_ipv6 s))"

definition parse_ip :: "string \<Rightarrow> ipaddr option" where
  "parse_ip s = map_option canon_ip (parse_addr s)"

lemma parse_ip_canon: "parse_ip s = Some a \<Longrightarrow> is_canon a"
  by (auto simp: parse_ip_def)

subsection \<open>Printing an address\<close>

definition octets_of :: "32 word \<Rightarrow> nat list" where
  "octets_of w = [unat w div 16777216, unat w div 65536 mod 256, unat w div 256 mod 256, unat w mod 256]"

definition groups_of :: "128 word \<Rightarrow> nat list" where
  "groups_of w = map (\<lambda>i. unat w div 65536 ^ (7 - i) mod 65536) [0..<8]"

definition zero_run :: "nat list \<Rightarrow> nat \<Rightarrow> nat" where
  "zero_run gs i = length (takeWhile (\<lambda>g. g = 0) (drop i gs))"

text \<open>The leftmost longest run of at least two zero groups, as its start and its end.\<close>

definition best_run :: "nat list \<Rightarrow> (nat \<times> nat) option" where
  "best_run gs =
     foldl (\<lambda>best i.
         let l = zero_run gs i;
             cur = (case best of None \<Rightarrow> 0 | Some (a, b) \<Rightarrow> b - a)
         in if 2 \<le> l \<and> cur < l then Some (i, i + l) else best)
       None [0..<length gs]"

definition show_groups :: "nat list \<Rightarrow> string" where
  "show_groups gs = join_with '':'' (map (format_nat 16) gs)"

fun ip_string :: "ipaddr \<Rightarrow> string" where
  "ip_string (IPv4 w) = join_with ''.'' (map (format_nat 10) (octets_of w))"
| "ip_string (IPv6 w) =
     (let gs = groups_of w in
      case best_run gs of
        None \<Rightarrow> show_groups gs
      | Some (a, b) \<Rightarrow> show_groups (take a gs) @ ''::'' @ show_groups (drop b gs))"

definition is_loopback :: "ipaddr \<Rightarrow> bool" where
  "is_loopback a = (case a of IPv4 w \<Rightarrow> drop_bit 24 w = 127 | IPv6 w \<Rightarrow> w = 1)"

text \<open>\<open>ip.Mask(net.CIDRMask(64, 128))\<close> of an address that is not IPv4.\<close>

definition mask64 :: "128 word \<Rightarrow> 128 word" where
  "mask64 w = w AND NOT (mask 64)"

section \<open>Networks\<close>

datatype ipnet = Net4 "32 word" nat | Net6 "128 word" nat

text \<open>
  \<open>ParseCIDR\<close>.  The prefix length is a non-empty run of decimal digits not above the length of the
  address; the base is masked.  A base in the IPv4-mapped block turns the network into an
  IPv4 network when it is matched (\<open>networkNumberAndMask\<close>), which happens only for prefix lengths
  of at least 96.
\<close>

definition cidr_mask :: "nat \<Rightarrow> 'a::len word" where
  "cidr_mask n = NOT (mask (LENGTH('a) - n))"

definition parse_cidr :: "string \<Rightarrow> ipnet option" where
  "parse_cidr s =
     (case cut_at CHR ''/'' s of
        None \<Rightarrow> None
      | Some (addr, len) \<Rightarrow>
          (case (parse_addr addr, if len = [] then None else parse_digits 10 0 len) of
             (Some (IPv4 w), Some n) \<Rightarrow> if n \<le> 32 then Some (Net4 (w AND cidr_mask n) n) else None
           | (Some (IPv6 w), Some n) \<Rightarrow>
               if n \<le> 128 then
                 (let base = w AND cidr_mask n in
                  if mapped4 base then Some (Net4 (ucast base) (n - 96)) else Some (Net6 base n))
               else None
           | _ \<Rightarrow> None))"

fun net_contains :: "ipnet \<Rightarrow> ipaddr \<Rightarrow> bool" where
  "net_contains (Net4 b n) (IPv4 a) \<longleftrightarrow> b AND cidr_mask n = a AND cidr_mask n"
| "net_contains (Net6 b n) (IPv6 a) \<longleftrightarrow> b AND cidr_mask n = a AND cidr_mask n"
| "net_contains _ _ \<longleftrightarrow> False"

section \<open>Host and port\<close>

definition split_host_port :: "string \<Rightarrow> (string \<times> string) option" where
  "split_host_port s =
     (if CHR '':'' \<notin> set s then None
      else if hd s = CHR ''['' then
        (case cut_at CHR '']'' s of
           None \<Rightarrow> None
         | Some (pre, post) \<Rightarrow>
             (case post of
                [] \<Rightarrow> None
              | c # port \<Rightarrow>
                  if c \<noteq> CHR '':'' \<or> CHR '':'' \<in> set port then None
                  else if CHR ''['' \<in> set (tl s) \<or> CHR '']'' \<in> set post then None
                  else Some (tl pre, port)))
      else
        (case cut_at CHR '':'' (rev s) of
           None \<Rightarrow> None
         | Some (rport, rhost) \<Rightarrow>
             if CHR '':'' \<in> set rhost then None
             else if CHR ''['' \<in> set s \<or> CHR '']'' \<in> set s then None
             else Some (rev rhost, rev rport)))"

definition join_host_port :: "string \<Rightarrow> string \<Rightarrow> string" where
  "join_host_port host port =
     (if CHR '':'' \<in> set host then ''['' @ host @ '']:'' @ port else host @ '':'' @ port)"

lemma split_join_host_port:
  assumes "CHR ''['' \<notin> set host" "CHR '']'' \<notin> set host"
    and "CHR ''['' \<notin> set port" "CHR '']'' \<notin> set port" "CHR '':'' \<notin> set port"
  shows "split_host_port (join_host_port host port) = Some (host, port)"
proof (cases "CHR '':'' \<in> set host")
  case True
  have "cut_at CHR '']'' ((CHR ''['' # host) @ CHR '']'' # CHR '':'' # port)
      = Some (CHR ''['' # host, CHR '':'' # port)"
    by (rule cut_at_append) (use assms in auto)
  with True assms show ?thesis
    by (auto simp: split_host_port_def join_host_port_def)
next
  case False
  have "cut_at CHR '':'' (rev port @ CHR '':'' # rev host) = Some (rev port, rev host)"
    by (rule cut_at_append) (use assms in auto)
  moreover have "hd (host @ CHR '':'' # port) \<noteq> CHR ''[''"
    using assms by (cases host) auto
  ultimately show ?thesis using False assms
    by (simp add: split_host_port_def join_host_port_def)
qed

section \<open>Laws of addresses and networks\<close>

lemma cidr_mask_0 [simp]: "(cidr_mask 0 :: 'a::len word) = 0"
  by (simp add: cidr_mask_def)

lemma net_contains_masked:
  "net_contains (Net4 (w AND cidr_mask n) n) (IPv4 a) \<longleftrightarrow> w AND cidr_mask n = a AND cidr_mask n"
  "net_contains (Net6 (v AND cidr_mask n) n) (IPv6 b) \<longleftrightarrow> v AND cidr_mask n = b AND cidr_mask n"
  by (simp_all add: ac_simps)

lemma net4_all: "net_contains (Net4 b 0) (IPv4 a)"
  by simp

lemma mask64_not_mapped: "\<not> mapped4 (mask64 w)"
proof
  assume m: "mapped4 (mask64 w)"
  have "bit (drop_bit 32 (mask64 w)) 0 \<longleftrightarrow> False"
    by (simp add: mask64_def bit_drop_bit_eq bit_and_iff bit_not_iff bit_mask_iff)
  moreover have "bit (0xFFFF :: 128 word) 0" by simp
  ultimately show False using m by (simp add: mapped4_def)
qed

lemma mask64_idem [simp]: "mask64 (mask64 w) = mask64 w"
  by (simp add: mask64_def ac_simps)

end
