(* ===== verification/Http.thy ===== *)
theory Http
  imports GoNet
begin

text \<open>
  The request and response values of Go's net/http as far as the program reads and writes them,
  and the shape of a middleware.  A handler that only decides whether a request goes on is modelled
  by its verdict: it rejects with a response, or passes a (possibly modified) request to the next
  handler.  The locale \<open>stage\<close> is what the request path relies on of the middleware that only
  decides.
\<close>

section \<open>Headers\<close>

text \<open>
  \<open>http.Header\<close> maps a canonical name to its values.  \<open>CanonicalMIMEHeaderKey\<close> upper-cases the first
  letter and every letter after a hyphen and lower-cases the others; a name with a byte that is
  not a token byte is left as it is.
\<close>

type_synonym header = "string \<rightharpoonup> string list"

definition token_byte :: "char \<Rightarrow> bool" where
  "token_byte c \<longleftrightarrow> (let n = (of_char c :: nat) in
     (48 \<le> n \<and> n \<le> 57) \<or> (65 \<le> n \<and> n \<le> 90) \<or> (97 \<le> n \<and> n \<le> 122) \<or>
     List.member ''!#$%&*+-.^_`|~'' c \<or> n = 39)"

fun canon_bytes :: "bool \<Rightarrow> string \<Rightarrow> string" where
  "canon_bytes up [] = []"
| "canon_bytes up (c # cs) =
     (let c' = (if up then upper_char c else lower_char c) in c' # canon_bytes (c = CHR ''-'') cs)"

definition canonical_key :: "string \<Rightarrow> string" where
  "canonical_key k = (if list_all token_byte k then canon_bytes True k else k)"

definition header_get :: "header \<Rightarrow> string \<Rightarrow> string" where
  "header_get h k = (case h (canonical_key k) of Some (v # _) \<Rightarrow> v | _ \<Rightarrow> '''')"

definition header_set :: "header \<Rightarrow> string \<Rightarrow> string \<Rightarrow> header" where
  "header_set h k v = h(canonical_key k \<mapsto> [v])"

definition header_del :: "header \<Rightarrow> string \<Rightarrow> header" where
  "header_del h k = h(canonical_key k := None)"

lemma header_get_set: "header_get (header_set h k v) j = (if canonical_key j = canonical_key k then v else header_get h j)"
  by (simp add: header_get_def header_set_def)

lemma header_get_del: "header_get (header_del h k) j = (if canonical_key j = canonical_key k then '''' else header_get h j)"
  by (simp add: header_get_def header_del_def)

text \<open>The canonical spellings of the names the program uses.\<close>

lemma canonical_names [simp]:
  "canonical_key ''X-Forwarded-For'' = ''X-Forwarded-For''"
  "canonical_key ''X-Forwarded-Host'' = ''X-Forwarded-Host''"
  "canonical_key ''X-Forwarded-Proto'' = ''X-Forwarded-Proto''"
  "canonical_key ''X-Real-IP'' = ''X-Real-Ip''"
  "canonical_key ''Forwarded'' = ''Forwarded''"
  "canonical_key ''CF-Connecting-IP'' = ''Cf-Connecting-Ip''"
  "canonical_key ''X-API-Key'' = ''X-Api-Key''"
  "canonical_key ''X-Request-ID'' = ''X-Request-Id''"
  "canonical_key ''Authorization'' = ''Authorization''"
  "canonical_key ''WWW-Authenticate'' = ''Www-Authenticate''"
  "canonical_key ''Retry-After'' = ''Retry-After''"
  "canonical_key ''Content-Type'' = ''Content-Type''"
  by code_simp+

section \<open>Requests and responses\<close>

text \<open>
  A request body is absent (nil), \<open>http.NoBody\<close>, or a stream: the bytes it delivers, whether the
  read after the last byte fails with an error of its own, and the cap of the \<open>MaxBytesReader\<close>
  wrapped around it, if any.
\<close>

datatype body = NilBody | NoBody | Stream string bool "int option"

record tls_state =
  peer_certs :: nat
  verified_chains :: nat

text \<open>
  \<open>r_path\<close> is \<open>URL.Path\<close>, the decoded path the program reads; \<open>r_escaped\<close> is \<open>URL.EscapedPath()\<close>, the path
  as the client wrote it, which the mux matches.
\<close>

record request =
  r_method :: string
  r_path :: string
  r_escaped :: string
  r_host :: string
  r_remote :: string
  r_header :: header
  r_body :: body
  r_length :: int
  r_tls :: "tls_state option"
  r_pattern :: string

record response =
  p_status :: int
  p_header :: header
  p_body :: string

text \<open>The status codes of net/http the program names.\<close>

abbreviation "status_ok \<equiv> (200 :: int)"
abbreviation "status_bad_request \<equiv> (400 :: int)"
abbreviation "status_unauthorized \<equiv> (401 :: int)"
abbreviation "status_forbidden \<equiv> (403 :: int)"
abbreviation "status_not_found \<equiv> (404 :: int)"
abbreviation "status_method_not_allowed \<equiv> (405 :: int)"
abbreviation "status_too_large \<equiv> (413 :: int)"
abbreviation "status_too_many \<equiv> (429 :: int)"
abbreviation "status_internal \<equiv> (500 :: int)"
abbreviation "status_bad_gateway \<equiv> (502 :: int)"
abbreviation "status_unavailable \<equiv> (503 :: int)"
abbreviation "status_gateway_timeout \<equiv> (504 :: int)"

text \<open>\<open>http.Error\<close>: plain text with the message and a newline, after the headers already set.\<close>

definition http_error :: "header \<Rightarrow> string \<Rightarrow> int \<Rightarrow> response" where
  "http_error h msg status =
     \<lparr>p_status = status,
      p_header = header_set (header_set h ''Content-Type'' ''text/plain; charset=utf-8'')
                   ''X-Content-Type-Options'' ''nosniff'',
      p_body = msg @ [CHR 0x0A]\<rparr>"

definition not_found :: response where
  "not_found = http_error Map.empty ''404 page not found'' status_not_found"

lemma status_http_error [simp]: "p_status (http_error h m s) = s"
  by (simp add: http_error_def)

lemma status_not_found_resp [simp]: "p_status not_found = 404"
  by (simp add: not_found_def)

section \<open>Middleware\<close>

datatype verdict = Reject response | Pass request

text \<open>
  A stage of the request path decides on a request in its own state (the buckets of a limiter; nothing for an access
  control).  What the path relies on is the law of the locale: a stage passes a request on as it came.  Two stages in
  turn are a stage again.
\<close>

type_synonym 's stage = "'s \<Rightarrow> request \<Rightarrow> verdict \<times> 's"

definition stateless :: "(request \<Rightarrow> verdict) \<Rightarrow> unit stage" where
  "stateless m s r = (m r, s)"

definition in_turn :: "'s stage \<Rightarrow> 't stage \<Rightarrow> ('s \<times> 't) stage" where
  "in_turn f g st r =
     (case f (fst st) r of
        (Reject p, s) \<Rightarrow> (Reject p, s, snd st)
      | (Pass r', s) \<Rightarrow> (case g (snd st) r' of (v, t) \<Rightarrow> (v, s, t)))"

locale stage =
  fixes run :: "'s stage"
  assumes pass_same: "run s r = (Pass r', s') \<Longrightarrow> r' = r"
begin

lemma passed: "fst (run s r) = Pass r' \<longleftrightarrow> r' = r \<and> fst (run s r) = Pass r"
  by (cases "run s r") (auto dest: pass_same)



end

locale two_stages = a: stage first + b: stage second
  for first :: "'s stage" and second :: "'t stage"
begin

lemma both_passed:
  "fst (in_turn first second st r) = Pass r' \<longleftrightarrow> r' = r \<and> fst (first (fst st) r) = Pass r \<and> fst (second (snd st) r) = Pass r"
proof (cases "first (fst st) r")
  case (Pair v s)
  show ?thesis
  proof (cases v)
    case (Pass r1)
    with Pair have "r1 = r" using a.pass_same by blast
    with Pair Pass show ?thesis using b.passed [of "snd st" r r'] by (auto simp: in_turn_def split: prod.splits)
  qed (use Pair in \<open>simp add: in_turn_def\<close>)
qed

end

sublocale two_stages \<subseteq> both: stage "in_turn first second"
proof
  show "r' = r" if "in_turn first second st r = (Pass r', st')" for st r r' st'
    using both_passed [of st r r'] that by simp
qed

end
