(* ===== verification/GoMux.thy ===== *)
theory GoMux
  imports GoPath Http
begin

text \<open>
  What the program uses of \<open>net/http\<close>'s \<open>ServeMux\<close>: patterns without methods, hosts or wildcards.  A
  pattern is a list of literal segments, and one that ends in a slash matches every longer path.
  Patterns and request paths are compared segment by segment after percent-decoding each segment, and
  the request path is the escaped one: an encoded slash does not separate segments.
\<close>

section \<open>Segments\<close>

fun path_unescape :: "string \<Rightarrow> string option" where
  "path_unescape [] = Some []"
| "path_unescape (c # rest) =
     (if c = CHR ''%'' then
        (case rest of
           h # l # rest' \<Rightarrow>
             (case (digit_val h, digit_val l) of
                (Some a, Some b) \<Rightarrow>
                  if a < 16 \<and> b < 16 then map_option (\<lambda>t. char_of (a * 16 + b) # t) (path_unescape rest') else None
              | _ \<Rightarrow> None)
         | _ \<Rightarrow> None)
      else map_option (\<lambda>t. c # t) (path_unescape rest))"

definition unescape_segment :: "string \<Rightarrow> string" where
  "unescape_segment s = (case path_unescape s of None \<Rightarrow> s | Some t \<Rightarrow> t)"

text \<open>The segments of a request path; a final slash is the segment \<open>"/"\<close>.\<close>

definition path_segments :: "string \<Rightarrow> string list" where
  "path_segments path =
     (if path = '''' then []
      else
        (let parts = split_on CHR ''/'' (tl path)
         in map unescape_segment (butlast parts) @
            [if last parts = '''' then ''/'' else unescape_segment (last parts)]))"

text \<open>A pattern: its literal segments, and whether it matches the paths below them.\<close>

definition pattern_of :: "string \<Rightarrow> string list \<times> bool" where
  "pattern_of pattern =
     (let parts = split_on CHR ''/'' (tl pattern) in
      if last parts = '''' then (map unescape_segment (butlast parts), True)
      else (map unescape_segment parts, False))"

section \<open>Registration\<close>

type_synonym 'e mux = "(string \<times> 'e) list"

definition mux_keys :: "'e mux \<Rightarrow> (string list \<times> bool) list" where
  "mux_keys m = map (\<lambda>(pattern, e). pattern_of pattern) m"

text \<open>\<open>mux.Handle\<close> panics on a pattern that is registered already: the pattern is the error.\<close>

definition mux_handle :: "string \<Rightarrow> 'e \<Rightarrow> 'e mux \<Rightarrow> string + 'e mux" where
  "mux_handle pattern e m = (if pattern_of pattern \<in> set (mux_keys m) then Inl pattern else Inr (m @ [(pattern, e)]))"

fun mux_handle_all :: "(string \<times> 'e) list \<Rightarrow> 'e mux \<Rightarrow> string + 'e mux" where
  "mux_handle_all [] m = Inr m"
| "mux_handle_all ((pattern, e) # rest) m =
     (case mux_handle pattern e m of Inl err \<Rightarrow> Inl err | Inr m' \<Rightarrow> mux_handle_all rest m')"

section \<open>Dispatch\<close>

definition pattern_matches :: "string list \<Rightarrow> string list \<times> bool \<Rightarrow> bool" where
  "pattern_matches segs key =
     (case key of (lits, multi) \<Rightarrow>
        if multi then length lits < length segs \<and> take (length lits) segs = lits else segs = lits)"

text \<open>The matching pattern with the most literal segments.\<close>

fun mux_match :: "'e mux \<Rightarrow> string list \<Rightarrow> (string \<times> 'e) option" where
  "mux_match [] segs = None"
| "mux_match ((pattern, e) # rest) segs =
     (case mux_match rest segs of
        None \<Rightarrow> if pattern_matches segs (pattern_of pattern) then Some (pattern, e) else None
      | Some (q, e') \<Rightarrow>
          if pattern_matches segs (pattern_of pattern) \<and> length (fst (pattern_of q)) \<le> length (fst (pattern_of pattern))
          then Some (pattern, e) else Some (q, e'))"

definition mux_clean :: "string \<Rightarrow> string" where
  "mux_clean path =
     (if path = '''' then ''/''
      else
        (let p = (if has_prefix path ''/'' then path else ''/'' @ path);
             np = path_clean p
         in if has_suffix p ''/'' \<and> np \<noteq> ''/'' then np @ ''/'' else np))"

text \<open>\<open>exactMatch\<close>: the pattern found has no part of the path left over.\<close>

definition exact_match :: "(string \<times> 'e) option \<Rightarrow> string \<Rightarrow> bool" where
  "exact_match n path =
     (case n of
        None \<Rightarrow> False
      | Some (pattern, e) \<Rightarrow>
          (case pattern_of pattern of (lits, multi) \<Rightarrow>
             \<not> multi \<or> (has_suffix path ''/'' \<and> length lits + 1 = count_list path CHR ''/'')))"

text \<open>
  What the mux does with a request: it redirects to the path with a slash when only the subtree is
  registered, or to the cleaned path, and otherwise takes the matching pattern.  A CONNECT path is not cleaned.
\<close>

definition mux_target :: "'e mux \<Rightarrow> request \<Rightarrow> string + (string \<times> 'e) option" where
  "mux_target m r =
     (let escaped = r_escaped r;
          path = (if r_method r = ''CONNECT'' then escaped else mux_clean escaped);
          n = mux_match m (path_segments path)
      in if \<not> exact_match n path \<and> \<not> has_suffix path ''/'' \<and> path \<noteq> '''' \<and>
            exact_match (mux_match m (path_segments (path @ ''/''))) (path @ ''/'')
         then Inl (mux_clean (r_path r) @ ''/'')
         else if path \<noteq> escaped then Inl path
         else Inr n)"

section \<open>Laws of segments\<close>

lemma path_unescape_plain: "CHR ''%'' \<notin> set s \<Longrightarrow> path_unescape s = Some s"
  by (induction s) auto

lemma unescape_segment_plain [simp]: "CHR ''%'' \<notin> set s \<Longrightarrow> unescape_segment s = s"
  by (simp add: unescape_segment_def path_unescape_plain)

lemma path_unescape_slash:
  "path_unescape (a @ CHR ''/'' # b) = Some x \<Longrightarrow>
   \<exists>xa xb. path_unescape a = Some xa \<and> path_unescape b = Some xb \<and> x = xa @ CHR ''/'' # xb"
proof (induction a arbitrary: x rule: path_unescape.induct)
  case (2 c rest)
  show ?case
  proof (cases "c = CHR ''%''")
    case False
    with "2.prems" obtain t where t: "path_unescape (rest @ CHR ''/'' # b) = Some t" "x = c # t" by auto
    from "2.IH"(2) [OF False t(1)] t False show ?thesis by auto
  next
    case True
    have slash: "digit_val CHR ''/'' = None" by code_simp
    show ?thesis
    proof (cases rest)
      case Nil
      with "2.prems" True slash show ?thesis by (auto split: list.splits option.splits)
    next
      case h: (Cons h rest1)
      show ?thesis
      proof (cases rest1)
        case Nil
        with "2.prems" True slash h show ?thesis by (auto split: option.splits)
      next
        case (Cons l rest2)
        with "2.prems" True h obtain u v t where u: "digit_val h = Some u" "digit_val l = Some v" "u < 16" "v < 16"
          "path_unescape (rest2 @ CHR ''/'' # b) = Some t" "x = char_of (u * 16 + v) # t"
          by (auto split: option.splits if_splits)
        from "2.IH"(1) [OF True h Cons _ u(1) u(2) _ u(5)] u True h Cons show ?thesis by auto
      qed
    qed
  qed
qed (auto split: option.splits)

lemma pattern_of_plain:
  assumes "has_prefix p ''/''" "has_prefix q ''/''" "CHR ''%'' \<notin> set p" "CHR ''%'' \<notin> set q"
  shows "pattern_of p = pattern_of q \<longleftrightarrow> p = q"
proof
  obtain s t where st: "p = CHR ''/'' # s" "q = CHR ''/'' # t" using assms(1,2) by (auto simp: has_prefix_iff)
  have plain: "map unescape_segment (split_on CHR ''/'' z) = split_on CHR ''/'' z" if "CHR ''%'' \<notin> set z" for z
    using that split_on_sub [of _ "CHR ''/''" z] by (intro map_idI unescape_segment_plain) blast
  have key: "pattern_of (CHR ''/'' # z) =
      (if last (split_on CHR ''/'' z) = '''' then (butlast (split_on CHR ''/'' z), True) else (split_on CHR ''/'' z, False))"
    if "CHR ''%'' \<notin> set z" for z
    using plain [OF that] by (simp add: pattern_of_def Let_def map_butlast)
  assume "pattern_of p = pattern_of q"
  then have "(if last (split_on CHR ''/'' s) = '''' then (butlast (split_on CHR ''/'' s), True) else (split_on CHR ''/'' s, False)) =
    (if last (split_on CHR ''/'' t) = '''' then (butlast (split_on CHR ''/'' t), True) else (split_on CHR ''/'' t, False))"
    using assms(3,4) st key by auto
  then have "split_on CHR ''/'' s = split_on CHR ''/'' t"
    by (metis append_butlast_last_id prod.inject split_on_not_Nil)
  then show "p = q" using st by (metis join_split)
qed simp

lemma pattern_of_slash: "pattern_of ''/'' = ([], True)"
  by code_simp

section \<open>Laws of the mux\<close>

lemma mux_match_Some:
  "mux_match m segs = Some (q, e) \<Longrightarrow>
   (q, e) \<in> set m \<and> pattern_matches segs (pattern_of q) \<and>
   (\<forall>(q', e') \<in> set m. pattern_matches segs (pattern_of q') \<longrightarrow> length (fst (pattern_of q')) \<le> length (fst (pattern_of q)))"
proof (induction m arbitrary: q e)
  case (Cons x m)
  obtain p0 e0 where x: "x = (p0, e0)" by fastforce
  show ?case
  proof (cases "mux_match m segs")
    case None
    moreover have "\<forall>(q', e') \<in> set m. \<not> pattern_matches segs (pattern_of q')" using None
    proof (induction m)
      case (Cons y m)
      then show ?case by (cases y) (auto split: option.splits if_splits prod.splits)
    qed simp
    ultimately show ?thesis using Cons.prems by (auto simp: x split: if_splits)
  next
    case (Some y)
    obtain q1 e1 where y: "y = (q1, e1)" by fastforce
    from Cons.IH [of q1 e1] Some Cons.prems show ?thesis by (auto simp: x y split: if_splits)
  qed
qed simp

lemma mux_match_exists: "(q, e) \<in> set m \<Longrightarrow> pattern_matches segs (pattern_of q) \<Longrightarrow> mux_match m segs \<noteq> None"
  by (induction m) (auto split: option.splits)

lemma mux_match_exact:
  assumes "distinct (mux_keys m)" "(q, e) \<in> set m" "pattern_of q = (segs, False)"
  shows "mux_match m segs = Some (q, e)"
proof -
  have here: "pattern_matches segs (pattern_of q)" by (simp add: assms(3) pattern_matches_def)
  then obtain q1 e1 where q1: "mux_match m segs = Some (q1, e1)" using mux_match_exists [OF assms(2)] by fastforce
  note spec = mux_match_Some [OF q1]
  have "length segs \<le> length (fst (pattern_of q1))" using spec here assms(2,3) by fastforce
  then have "pattern_of q1 = pattern_of q"
    using spec assms(3) by (cases "pattern_of q1") (auto simp: pattern_matches_def split: if_splits)
  moreover have inj: "inj_on (\<lambda>(pattern, e). pattern_of pattern) (set m)"
    using assms(1) by (simp add: mux_keys_def distinct_map)
  ultimately have "(q1, e1) = (q, e)" using spec assms(2) by (intro inj_onD [OF inj]) simp_all
  with q1 show ?thesis by simp
qed

lemma mux_keys_append [simp]: "mux_keys (m @ n) = mux_keys m @ mux_keys n"
  by (simp add: mux_keys_def)

lemma mux_handle_Inr: "mux_handle q e m = Inr m' \<longleftrightarrow> pattern_of q \<notin> set (mux_keys m) \<and> m' = m @ [(q, e)]"
  by (auto simp: mux_handle_def)

lemma mux_handle_all_Inr:
  "mux_handle_all ps m = Inr m' \<longleftrightarrow> distinct (mux_keys ps) \<and> set (mux_keys ps) \<inter> set (mux_keys m) = {} \<and> m' = m @ ps"
proof (induction ps arbitrary: m)
  case (Cons x ps)
  obtain q e where x: "x = (q, e)" by fastforce
  have k: "mux_keys ((q, e) # ps) = pattern_of q # mux_keys ps" for ps by (simp add: mux_keys_def)
  have nil: "mux_keys [] = []" by (simp add: mux_keys_def)
  show ?case using Cons.IH [of "m @ [(q, e)]"] unfolding x k by (auto simp: mux_handle_def k nil)
qed (auto simp: mux_keys_def)

text \<open>What the mux runs was registered and matches the path the client wrote.\<close>

lemma mux_target_Some:
  assumes "mux_target m r = Inr (Some (q, e))"
  shows "(q, e) \<in> set m \<and> pattern_matches (path_segments (r_escaped r)) (pattern_of q) \<and>
    mux_match m (path_segments (r_escaped r)) = Some (q, e)"
  using assms mux_match_Some [of m "path_segments (r_escaped r)" q e]
  by (auto simp: mux_target_def Let_def split: if_splits)

lemma mux_target_exact:
  assumes "distinct (mux_keys m)" "(q, e) \<in> set m" "pattern_of q = (path_segments (r_escaped r), False)"
    and "mux_clean (r_escaped r) = r_escaped r"
  shows "mux_target m r = Inr (Some (q, e))"
  using mux_match_exact [OF assms(1-3)] assms(3,4) unfolding mux_target_def Let_def exact_match_def by (cases "r_escaped r") simp_all

section \<open>Segments of well-formed paths\<close>

lemma no_slash_unescape: "path_unescape t = Some x \<Longrightarrow> CHR ''/'' \<notin> set x \<Longrightarrow> CHR ''/'' \<notin> set t"
  using path_unescape_slash by (metis in_set_conv_decomp)

lemma segments_single:
  assumes "path_unescape t = Some x" "x \<noteq> ''''" "CHR ''/'' \<notin> set t"
  shows "path_segments (CHR ''/'' # t) = [x]"
  using assms by (cases t) (auto simp: path_segments_def split_on_none unescape_segment_def)

lemma segments_one:
  "path_unescape (CHR ''/'' # t) = Some (CHR ''/'' # x) \<Longrightarrow> x \<noteq> '''' \<Longrightarrow> CHR ''/'' \<notin> set x \<Longrightarrow>
   path_segments (CHR ''/'' # t) = [x]"
  using segments_single no_slash_unescape by auto

text \<open>A path with two segments may also have been written with its inner slash encoded, as one segment.\<close>

lemma segments_two:
  assumes "path_unescape (CHR ''/'' # t) = Some (CHR ''/'' # x @ CHR ''/'' # y)" "y \<noteq> ''''" "CHR ''/'' \<notin> set x" "CHR ''/'' \<notin> set y"
  shows "path_segments (CHR ''/'' # t) \<in> {[x, y], [x @ CHR ''/'' # y]}"
proof (cases "CHR ''/'' \<in> set t")
  case False
  with assms(1) segments_single [of t "x @ CHR ''/'' # y"] show ?thesis by auto
next
  case True
  then obtain a b where t: "t = a @ CHR ''/'' # b" "CHR ''/'' \<notin> set a" by (metis split_list_first)
  with assms(1) obtain xa xb where dec: "path_unescape a = Some xa" "path_unescape b = Some xb"
    "x @ CHR ''/'' # y = xa @ CHR ''/'' # xb"
    using path_unescape_slash [of a b] by auto
  then have xy: "xa = x" "xb = y" using append_Cons_eq_iff [OF assms(3,4)] by auto
  have "CHR ''/'' \<notin> set b" using no_slash_unescape dec(2) xy assms(4) by simp
  moreover have "b \<noteq> ''''" using dec(2) xy assms(2) by auto
  ultimately show ?thesis using t dec xy
    by (simp add: path_segments_def split_on_append split_on_none unescape_segment_def)
qed

end
