(* ===== verification/ClientIp.thy ===== *)
theory ClientIp
  imports Http
begin

text \<open>
  Client identity: \<open>app/internal/common/ip.go\<close> (who sent a request, behind which trusted
  proxies) and \<open>app/internal/security/internal.go\<close> (the gate in front of the internal endpoints).
  Both read the socket address and the forwarding headers of a request only.
\<close>

section \<open>Trusted networks\<close>

text \<open>\<open>contains\<close> of ip.go, and \<open>within\<close> of policy.go, which has the same body.\<close>

fun contains :: "ipnet list \<Rightarrow> ipaddr \<Rightarrow> bool" where
  "contains [] ip = False"
| "contains (network # networks) ip = (if net_contains network ip then True else contains networks ip)"

lemma contains_iff: "contains networks ip \<longleftrightarrow> (\<exists>network \<in> set networks. net_contains network ip)"
  by (induction networks) auto

text \<open>\<open>ParseCIDRs\<close>: the first value that does not parse is the error.\<close>

fun ParseCIDRs :: "string list \<Rightarrow> string + ipnet list" where
  "ParseCIDRs [] = Inr []"
| "ParseCIDRs (value # vs) =
     (case parse_cidr (trim_space value) of
        None \<Rightarrow> Inl (''invalid CIDR address: '' @ trim_space value)
      | Some network \<Rightarrow>
          (case ParseCIDRs vs of Inl e \<Rightarrow> Inl e | Inr rest \<Rightarrow> Inr (network # rest)))"

lemma ParseCIDRs_Inr_iff:
  "ParseCIDRs vs = Inr ns \<longleftrightarrow> map (\<lambda>v. parse_cidr (trim_space v)) vs = map Some ns"
  by (induction vs arbitrary: ns) (force split: option.splits sum.splits)+

lemma ParseCIDRs_Inl_iff:
  "(\<exists>e. ParseCIDRs vs = Inl e) \<longleftrightarrow> (\<exists>v \<in> set vs. parse_cidr (trim_space v) = None)"
  by (induction vs) (auto split: option.splits sum.splits)

section \<open>The client address\<close>

definition forwardedFor :: "string \<Rightarrow> string list" where
  "forwardedFor value = map trim_space (filter (\<lambda>part. trim_space part \<noteq> []) (split_on CHR '','' value))"

text \<open>The host of a socket address: without the port when there is one.\<close>

definition remote_host :: "request \<Rightarrow> string" where
  "remote_host r = (case split_host_port (r_remote r) of Some (host, _) \<Rightarrow> host | None \<Rightarrow> r_remote r)"

definition IsTrustedPeer :: "request \<Rightarrow> ipnet list \<Rightarrow> bool" where
  "IsTrustedPeer r trusted =
     (case parse_ip (remote_host r) of None \<Rightarrow> False | Some ip \<Rightarrow> contains trusted ip)"

text \<open>
  The backward loop over the forwarded addresses, on the reversed list: an address that does not
  parse ends it with the socket's host, the first address outside the trusted networks is the
  client.  None is the loop running to its end.
\<close>

fun walk_back :: "ipnet list \<Rightarrow> string \<Rightarrow> string list \<Rightarrow> string option" where
  "walk_back trusted host [] = None"
| "walk_back trusted host (address # rest) =
     (case parse_ip address of
        None \<Rightarrow> Some host
      | Some candidate \<Rightarrow>
          if \<not> contains trusted candidate then Some (ip_string candidate)
          else walk_back trusted host rest)"

fun first_parsed :: "header \<Rightarrow> string list \<Rightarrow> string option" where
  "first_parsed h [] = None"
| "first_parsed h (name # names) =
     (case parse_ip (trim_space (header_get h name)) of
        Some candidate \<Rightarrow> Some (ip_string candidate)
      | None \<Rightarrow> first_parsed h names)"

definition GetClientIP :: "request \<Rightarrow> ipnet list \<Rightarrow> string" where
  "GetClientIP r trusted =
     (let host = remote_host r in
      case parse_ip host of
        None \<Rightarrow> host
      | Some remoteIP \<Rightarrow>
          if \<not> contains trusted remoteIP then host
          else
            (let addresses = forwardedFor (header_get (r_header r) ''X-Forwarded-For'') in
             case walk_back trusted host (rev addresses) of
               Some client \<Rightarrow> client
             | None \<Rightarrow>
                 if addresses = [] then
                   (case first_parsed (r_header r) [''X-Real-IP'', ''CF-Connecting-IP''] of
                      Some client \<Rightarrow> client | None \<Rightarrow> host)
                 else host))"

definition GetIpAddress :: "request \<Rightarrow> string" where
  "GetIpAddress r = GetClientIP r []"

subsection \<open>Laws\<close>

lemma forwardedFor_nonempty: "a \<in> set (forwardedFor value) \<Longrightarrow> a \<noteq> []"
  by (auto simp: forwardedFor_def)

lemma remote_host_header [simp]: "remote_host (r\<lparr>r_header := h\<rparr>) = remote_host r"
  by (simp add: remote_host_def split: option.split)

lemma IsTrustedPeer_iff:
  "IsTrustedPeer r trusted \<longleftrightarrow> (\<exists>ip. parse_ip (remote_host r) = Some ip \<and> contains trusted ip)"
  by (auto simp: IsTrustedPeer_def split: option.splits)

lemma GetClientIP_untrusted: "\<not> IsTrustedPeer r trusted \<Longrightarrow> GetClientIP r trusted = remote_host r"
  by (auto simp: GetClientIP_def IsTrustedPeer_def Let_def split: option.splits)

lemma walk_back_spec:
  assumes "\<And>a. a \<in> set proxies \<Longrightarrow> \<exists>ip. parse_ip a = Some ip \<and> contains trusted ip"
    and "parse_ip client = Some ip" "\<not> contains trusted ip"
  shows "walk_back trusted host (proxies @ client # spoofed) = Some (ip_string ip)"
  using assms by (induction proxies) (force split: option.splits)+

lemma walk_back_all_trusted:
  "(\<And>a. a \<in> set xs \<Longrightarrow> \<exists>ip. parse_ip a = Some ip \<and> contains trusted ip) \<Longrightarrow>
   walk_back trusted host xs = None"
  by (induction xs) (force split: option.splits)+

lemma walk_back_result:
  "walk_back trusted host xs = Some c \<Longrightarrow>
   c = host \<or> (\<exists>a \<in> set xs. \<exists>ip. parse_ip a = Some ip \<and> \<not> contains trusted ip \<and> c = ip_string ip)"
  by (induction xs) (auto split: option.splits if_splits)

lemma first_parsed_result:
  "first_parsed h names = Some c \<Longrightarrow> \<exists>n \<in> set names. \<exists>ip. parse_ip (trim_space (header_get h n)) = Some ip \<and> c = ip_string ip"
  by (induction names) (auto split: option.splits)

section \<open>The gate of the internal endpoints\<close>

definition forwardingHeaders :: "string list" where
  "forwardingHeaders =
     [''X-Forwarded-For'', ''X-Forwarded-Host'', ''X-Real-IP'', ''Forwarded'', ''CF-Connecting-IP'']"

definition internalRequest :: "request \<Rightarrow> ipnet list \<Rightarrow> bool" where
  "internalRequest r cidrs =
     (if list_ex (\<lambda>name. header_get (r_header r) name \<noteq> []) forwardingHeaders then False
      else case parse_ip (remote_host r) of
          None \<Rightarrow> False
        | Some ip \<Rightarrow> if is_loopback ip then True else contains cidrs ip)"

definition InternalOnly :: "ipnet list \<Rightarrow> request \<Rightarrow> verdict" where
  "InternalOnly cidrs r = (if \<not> internalRequest r cidrs then Reject not_found else Pass r)"

lemma internalRequest_iff:
  "internalRequest r cidrs \<longleftrightarrow>
     (\<forall>name \<in> set forwardingHeaders. header_get (r_header r) name = []) \<and>
     (\<exists>ip. parse_ip (remote_host r) = Some ip \<and> (is_loopback ip \<or> contains cidrs ip))"
  by (auto simp: internalRequest_def list_ex_iff split: option.splits)

lemma InternalOnly_Pass_iff: "InternalOnly cidrs r = Pass r' \<longleftrightarrow> internalRequest r cidrs \<and> r' = r"
  by (auto simp: InternalOnly_def)

interpretation internal: stage "stateless (InternalOnly cidrs)" for cidrs
  by unfold_locales (auto simp: stateless_def InternalOnly_Pass_iff)

section \<open>Properties\<close>

text \<open>Forwarding headers of a peer outside the trusted networks are ignored: whatever they say, the
  client is the socket address.\<close>

theorem untrusted_headers_ignored:
  assumes "\<not> IsTrustedPeer r trusted"
  shows "GetClientIP (r\<lparr>r_header := h\<rparr>) trusted = remote_host r"
proof -
  have "\<not> IsTrustedPeer (r\<lparr>r_header := h\<rparr>) trusted" using assms by (simp add: IsTrustedPeer_def)
  then show ?thesis using GetClientIP_untrusted by simp
qed

definition plain_request :: "string \<Rightarrow> header \<Rightarrow> request" where
  "plain_request remote h =
     \<lparr>r_method = ''GET'', r_path = ''/'', r_escaped = ''/'', r_host = ''example.org'', r_remote = remote, r_header = h, r_body = NoBody,
      r_length = 0, r_tls = None, r_pattern = ''/''\<rparr>"

lemma untrusted_headers_ignored_witness:
  "GetClientIP (plain_request ''203.0.113.9:4000'' (header_set Map.empty ''X-Forwarded-For'' ''10.0.0.1'')) [Net4 0x0A000000 8] = ''203.0.113.9''"
proof -
  let ?r = "plain_request ''203.0.113.9:4000'' Map.empty"
  have "\<not> IsTrustedPeer ?r [Net4 0x0A000000 8]" "remote_host ?r = ''203.0.113.9''" by code_simp+
  with untrusted_headers_ignored [of ?r "[Net4 0x0A000000 8]" "header_set Map.empty ''X-Forwarded-For'' ''10.0.0.1''"]
  show ?thesis by (simp add: plain_request_def)
qed

text \<open>C10: Behind trusted proxies the client is the last address of X-Forwarded-For that is not a trusted
  proxy; entries a client puts in front of it cannot change the result.\<close>

theorem client_behind_proxies:
  assumes "IsTrustedPeer r trusted"
    and "forwardedFor (header_get (r_header r) ''X-Forwarded-For'') = spoofed @ client # proxies"
    and "parse_ip client = Some ip" "\<not> contains trusted ip"
    and "\<And>a. a \<in> set proxies \<Longrightarrow> \<exists>q. parse_ip a = Some q \<and> contains trusted q"
  shows "GetClientIP r trusted = ip_string ip"
proof -
  have "walk_back trusted (remote_host r) (rev proxies @ client # rev spoofed) = Some (ip_string ip)"
    using assms(3-5) by (intro walk_back_spec) auto
  with assms(1,2) show ?thesis by (auto simp: GetClientIP_def Let_def IsTrustedPeer_iff)
qed

lemma client_behind_proxies_witness:
  "GetClientIP (plain_request ''10.0.0.1:1'' (header_set Map.empty ''X-Forwarded-For'' ''192.0.2.1, 198.51.100.7 , 10.9.9.9''))
     [Net4 0x0A000000 8] = ''198.51.100.7''"
proof -
  let ?r = "plain_request ''10.0.0.1:1'' (header_set Map.empty ''X-Forwarded-For'' ''192.0.2.1, 198.51.100.7 , 10.9.9.9'')"
    and ?t = "[Net4 0x0A000000 8]"
  have "IsTrustedPeer ?r ?t"
    "forwardedFor (header_get (r_header ?r) ''X-Forwarded-For'') = [''192.0.2.1''] @ ''198.51.100.7'' # [''10.9.9.9'']"
    "parse_ip ''198.51.100.7'' = Some (IPv4 0xC6336407)" "\<not> contains ?t (IPv4 0xC6336407)"
    "parse_ip ''10.9.9.9'' = Some (IPv4 0x0A090909)" "contains ?t (IPv4 0x0A090909)"
    "ip_string (IPv4 0xC6336407) = ''198.51.100.7''"
    by code_simp+
  then show ?thesis by (subst client_behind_proxies [of _ _ "[''192.0.2.1'']" "''198.51.100.7''" "[''10.9.9.9'']"]) auto
qed

text \<open>The internal endpoints answer only a request that carries no forwarding header and whose socket
  address is loopback or in an allowed network; every other request gets a 404, and headers can only close the gate.\<close>

theorem internal_gate:
  "InternalOnly cidrs r =
     (if list_all (\<lambda>name. header_get (r_header r) name = '''') forwardingHeaders \<and>
         (case parse_ip (remote_host r) of
            None \<Rightarrow> False
          | Some ip \<Rightarrow> is_loopback ip \<or> list_ex (\<lambda>n. net_contains n ip) cidrs)
      then Pass r else Reject not_found)"
proof -
  have c: "contains ns ip \<longleftrightarrow> list_ex (\<lambda>n. net_contains n ip) ns" for ns ip by (induction ns) auto
  have "list_ex (\<lambda>name. header_get (r_header r) name \<noteq> []) forwardingHeaders \<longleftrightarrow>
      \<not> list_all (\<lambda>name. header_get (r_header r) name = '''') forwardingHeaders"
    by (simp add: list_ex_iff list_all_iff)
  then show ?thesis
    by (cases "parse_ip (remote_host r)") (simp_all add: InternalOnly_def internalRequest_def c)
qed

end
