(* ===== verification/Config.thy ===== *)
theory Config
  imports ClientIp
begin

text \<open>
  \<open>app/internal/file/config.go\<close> and \<open>file.go\<close>: the configuration record, the defaults and
  environment overrides of \<open>Load\<close>, path normalisation, validation, and the creation of the default
  configuration file.

  Parameters: what viper read from the YAML file (an error text or the unmarshalled record), the
  environment (a variable that is not set reads as the empty string, as \<open>os.Getenv\<close> does), and the
  answers of the file system.  The texts of error messages are the constructors of \<open>config_error\<close>;
  the loops of \<open>validateSecurity\<close> over two Go maps visit their entries in the order they are written
  (the code's order is unspecified, and no property depends on it).
\<close>

section \<open>The configuration record\<close>

record Security =
  sec_RateLimit :: int
  sec_RateLimitBurst :: int
  sec_GlobalRateLimit :: int
  sec_GlobalRateBurst :: int
  sec_RouteRateLimit :: int
  sec_RouteRateBurst :: int
  sec_APIKeys :: "string list"
  sec_JWTSecret :: string
  sec_JWTIssuer :: string
  sec_JWTAudience :: string
  sec_RequireMTLS :: bool
  sec_AllowCIDRs :: "string list"
  sec_DenyCIDRs :: "string list"
  sec_AllowedMethods :: "string list"
  sec_AllowedPaths :: "string list"
  sec_MaxBody :: int
  sec_MaxConnsPerIP :: int
  sec_RedisConnect :: nat
  sec_RedisAddr :: string
  sec_RedisPassword :: string
  sec_RedisDB :: int
  sec_RedisFailOpen :: bool
  sec_TrustedProxyCIDRs :: "string list"
  sec_InternalCIDRs :: "string list"
  sec_TLSCert :: string
  sec_TLSKey :: string
  sec_ClientCA :: string

record Upstream =
  up_Name :: string
  up_Protocol :: string
  up_Listen :: string
  up_Path :: string
  up_IP :: bool
  up_ServerURL :: string
  up_Servers :: "string list"
  up_Limit_request :: int
  up_Body :: int
  up_Security :: Security

record Timeout =
  to_Connect :: nat
  to_Read :: nat
  to_Write :: nat
  to_Idle :: nat
  to_Request :: nat

record WatcherConf =
  wc_Status :: string
  wc_ProjectName :: string
  wc_MemoryLimitMB :: int
  wc_IntervalSeconds :: int
  wc_CooldownSeconds :: int
  wc_HeapProfile :: bool
  wc_WebhookURL :: string

record ServerConfig =
  cfg_Host :: string
  cfg_Port :: string
  cfg_Security :: Security
  cfg_Timeout :: Timeout
  cfg_SkipPaths :: "string list"
  cfg_Upstream :: "Upstream list"
  cfg_Watcher :: WatcherConf

text \<open>The zero values of Go.\<close>

definition zero_security :: Security where
  "zero_security =
     \<lparr>sec_RateLimit = 0, sec_RateLimitBurst = 0, sec_GlobalRateLimit = 0, sec_GlobalRateBurst = 0,
      sec_RouteRateLimit = 0, sec_RouteRateBurst = 0, sec_APIKeys = [], sec_JWTSecret = '''',
      sec_JWTIssuer = '''', sec_JWTAudience = '''', sec_RequireMTLS = False, sec_AllowCIDRs = [],
      sec_DenyCIDRs = [], sec_AllowedMethods = [], sec_AllowedPaths = [], sec_MaxBody = 0,
      sec_MaxConnsPerIP = 0, sec_RedisConnect = 0, sec_RedisAddr = '''', sec_RedisPassword = '''',
      sec_RedisDB = 0, sec_RedisFailOpen = False, sec_TrustedProxyCIDRs = [], sec_InternalCIDRs = [],
      sec_TLSCert = '''', sec_TLSKey = '''', sec_ClientCA = ''''\<rparr>"

definition zero_upstream :: Upstream where
  "zero_upstream =
     \<lparr>up_Name = '''', up_Protocol = '''', up_Listen = '''', up_Path = '''', up_IP = False, up_ServerURL = '''',
      up_Servers = [], up_Limit_request = 0, up_Body = 0, up_Security = zero_security\<rparr>"

definition zero_config :: ServerConfig where
  "zero_config =
     \<lparr>cfg_Host = '''', cfg_Port = '''', cfg_Security = zero_security,
      cfg_Timeout = \<lparr>to_Connect = 0, to_Read = 0, to_Write = 0, to_Idle = 0, to_Request = 0\<rparr>,
      cfg_SkipPaths = [], cfg_Upstream = [],
      cfg_Watcher = \<lparr>wc_Status = '''', wc_ProjectName = '''', wc_MemoryLimitMB = 0, wc_IntervalSeconds = 0,
        wc_CooldownSeconds = 0, wc_HeapProfile = False, wc_WebhookURL = ''''\<rparr>\<rparr>"

section \<open>Loading\<close>

datatype load_error = ReadFailed string | BadRateLimit string

definition splitSecrets :: "string \<Rightarrow> string list" where
  "splitSecrets value = filter (\<lambda>part. part \<noteq> []) (map trim_space (split_on CHR '','' value))"

definition default_nat :: "nat \<Rightarrow> nat \<Rightarrow> nat" where
  "default_nat d n = (if n = 0 then d else n)"

definition load_defaults :: "ServerConfig \<Rightarrow> ServerConfig" where
  "load_defaults cfg =
     cfg\<lparr>cfg_Timeout :=
           \<lparr>to_Connect = default_nat 5 (to_Connect (cfg_Timeout cfg)),
            to_Read = default_nat 30 (to_Read (cfg_Timeout cfg)),
            to_Write = default_nat 30 (to_Write (cfg_Timeout cfg)),
            to_Idle = default_nat 60 (to_Idle (cfg_Timeout cfg)),
            to_Request = default_nat 60 (to_Request (cfg_Timeout cfg))\<rparr>,
         cfg_Security := (cfg_Security cfg)\<lparr>sec_RedisConnect := default_nat 16 (sec_RedisConnect (cfg_Security cfg))\<rparr>\<rparr>"

text \<open>One override: the environment's value when it is not empty, the field's own otherwise.\<close>

definition env_or :: "(string \<Rightarrow> string) \<Rightarrow> string \<Rightarrow> string \<Rightarrow> string" where
  "env_or env name old = (if env name \<noteq> [] then env name else old)"

definition env_server :: "(string \<Rightarrow> string) \<Rightarrow> ServerConfig \<Rightarrow> ServerConfig" where
  "env_server env cfg =
     cfg\<lparr>cfg_Port := env_or env ''PORT'' (cfg_Port cfg), cfg_Host := env_or env ''LEOXY_HOST'' (cfg_Host cfg)\<rparr>"

definition env_rate :: "(string \<Rightarrow> string) \<Rightarrow> ServerConfig \<Rightarrow> load_error + ServerConfig" where
  "env_rate env cfg =
     (if env ''RATE_LIMIT'' = [] then Inr cfg
      else case parse_int (trim_space (env ''RATE_LIMIT'')) of
          None \<Rightarrow> Inl (BadRateLimit (env ''RATE_LIMIT''))
        | Some limit \<Rightarrow> Inr (cfg\<lparr>cfg_Security := (cfg_Security cfg)\<lparr>sec_RateLimit := limit\<rparr>\<rparr>))"

definition env_security :: "(string \<Rightarrow> string) \<Rightarrow> Security \<Rightarrow> Security" where
  "env_security env sec =
     sec\<lparr>sec_JWTSecret := env_or env ''JWT_SECRET'' (sec_JWTSecret sec),
         sec_JWTIssuer := env_or env ''JWT_ISSUER'' (sec_JWTIssuer sec),
         sec_JWTAudience := env_or env ''JWT_AUDIENCE'' (sec_JWTAudience sec),
         sec_APIKeys := (if env ''API_KEYS'' \<noteq> [] then splitSecrets (env ''API_KEYS'') else sec_APIKeys sec),
         sec_RedisPassword := env_or env ''REDIS_PASSWORD'' (sec_RedisPassword sec)\<rparr>"

definition env_watcher :: "(string \<Rightarrow> string) \<Rightarrow> WatcherConf \<Rightarrow> WatcherConf" where
  "env_watcher env w =
     w\<lparr>wc_MemoryLimitMB :=
         (if env ''MEMORY_LIMIT_MB'' \<noteq> []
          then (case parse_int (env ''MEMORY_LIMIT_MB'') of Some limit \<Rightarrow> limit | None \<Rightarrow> wc_MemoryLimitMB w)
          else wc_MemoryLimitMB w),
       wc_ProjectName := env_or env ''PROJECT_NAME'' (wc_ProjectName w),
       wc_WebhookURL := env_or env ''Watcher_WEBHOOK_URL'' (wc_WebhookURL w)\<rparr>"

definition Load :: "string + ServerConfig \<Rightarrow> (string \<Rightarrow> string) \<Rightarrow> load_error + ServerConfig" where
  "Load viper env =
     (case viper of
        Inl e \<Rightarrow> Inl (ReadFailed e)
      | Inr cfg \<Rightarrow>
          (case env_rate env (env_server env (load_defaults cfg)) of
             Inl e \<Rightarrow> Inl e
           | Inr c \<Rightarrow>
               Inr (c\<lparr>cfg_Security := env_security env (cfg_Security c),
                      cfg_Watcher := env_watcher env (cfg_Watcher c)\<rparr>)))"

section \<open>Paths\<close>

definition reservedPaths :: "string list" where
  "reservedPaths = [''/ping'', ''/health'', ''/metrics'', ''/leoxy'']"

definition NormalizePath :: "string \<Rightarrow> string" where
  "NormalizePath value =
     (let prefix = trim_space value in
      if prefix = [] then ''/''
      else
        (let prefix = (if \<not> has_prefix prefix ''/'' then ''/'' @ prefix else prefix) in
         if prefix \<noteq> ''/'' then
           (let prefix = trim_right_with (\<lambda>c. c = CHR ''/'') prefix in
            if prefix = [] then ''/'' else prefix)
         else prefix))"

definition isReserved :: "string \<Rightarrow> bool" where
  "isReserved path = list_ex (\<lambda>reserved. path = reserved \<or> has_prefix path (reserved @ ''/'')) reservedPaths"

section \<open>Validation\<close>

datatype config_error =
    NegativeNumber string string
  | BadCidr string string string
  | ShortSecret string
  | RootSkipPath string
  | StreamIncomplete string string
  | ListenerUsed string string string string
  | BadPathChars string string
  | ReservedPath string string
  | PathUsed string string string
  | BadProtocol string string
  | HalfTls
  | MtlsNeedsTls

definition security_numbers :: "Security \<Rightarrow> (string \<times> int) list" where
  "security_numbers s =
     [(''rate_limit'', sec_RateLimit s), (''rate_limit_burst'', sec_RateLimitBurst s),
      (''global_rate_limit'', sec_GlobalRateLimit s), (''global_rate_burst'', sec_GlobalRateBurst s),
      (''route_rate_limit'', sec_RouteRateLimit s), (''route_rate_burst'', sec_RouteRateBurst s),
      (''max_body'', sec_MaxBody s), (''max_conns_per_ip'', sec_MaxConnsPerIP s)]"

definition security_lists :: "Security \<Rightarrow> (string \<times> string list) list" where
  "security_lists s =
     [(''allow_cidrs'', sec_AllowCIDRs s), (''deny_cidrs'', sec_DenyCIDRs s),
      (''trusted_proxy_cidrs'', sec_TrustedProxyCIDRs s), (''internal_cidrs'', sec_InternalCIDRs s)]"

definition validateSecurity :: "string \<Rightarrow> Security \<Rightarrow> config_error list" where
  "validateSecurity scope s =
     [NegativeNumber scope name. (name, value) \<leftarrow> security_numbers s, value < 0] @
     [BadCidr scope name value. (name, vs) \<leftarrow> security_lists s, value \<leftarrow> vs, parse_cidr (trim_space value) = None] @
     (if sec_JWTSecret s \<noteq> [] \<and> length (sec_JWTSecret s) < 32 then [ShortSecret scope] else [])"

text \<open>What the loop over the upstreams carries: the errors, the paths and listeners seen, and needTLS.\<close>

record validation =
  v_errs :: "config_error list"
  v_paths :: "string \<rightharpoonup> string"
  v_listeners :: "string \<rightharpoonup> string"
  v_needTLS :: bool

definition add_errs :: "config_error list \<Rightarrow> validation \<Rightarrow> validation" where
  "add_errs es v = v\<lparr>v_errs := v_errs v @ es\<rparr>"

definition upstream_name :: "nat \<Rightarrow> Upstream \<Rightarrow> string" where
  "upstream_name i u = (if up_Name u = [] then ''#'' @ itoa (int i) else up_Name u)"

definition protocol_of :: "Upstream \<Rightarrow> string" where
  "protocol_of u = to_lower (trim_space (up_Protocol u))"

definition is_stream :: "Upstream \<Rightarrow> bool" where
  "is_stream u \<longleftrightarrow> protocol_of u = ''tcp'' \<or> protocol_of u = ''udp''"

definition is_http :: "Upstream \<Rightarrow> bool" where
  "is_http u \<longleftrightarrow> List.member ['''', ''http'', ''https'', ''http2'', ''graphql'', ''websocket''] (protocol_of u)"

definition listener_key :: "Upstream \<Rightarrow> string" where
  "listener_key u = protocol_of u @ ''|'' @ trim_space (up_Listen u)"

definition validate_stream :: "string \<Rightarrow> Upstream \<Rightarrow> validation \<Rightarrow> validation" where
  "validate_stream name u v =
     (if trim_space (up_Listen u) = [] \<or> trim_space (up_ServerURL u) = []
      then add_errs [StreamIncomplete name (protocol_of u)] v
      else
        (let v = (case v_listeners v (listener_key u) of
                    Some previous \<Rightarrow> add_errs [ListenerUsed name (protocol_of u) (trim_space (up_Listen u)) previous] v
                  | None \<Rightarrow> v);
             v = v\<lparr>v_listeners := (v_listeners v)(listener_key u \<mapsto> name)\<rparr>
         in add_errs (validateSecurity (''upstream '' @ name) (up_Security u)) v))"

definition bad_path_chars :: string where
  "bad_path_chars = [CHR '' '', CHR 0x09, CHR 0x0D, CHR 0x0A, CHR ''{'', CHR ''}'']"

definition validate_http :: "string \<Rightarrow> Upstream \<Rightarrow> validation \<Rightarrow> validation" where
  "validate_http name u v =
     (let path = NormalizePath (up_Path u);
          v = (if contains_any path bad_path_chars then add_errs [BadPathChars name path] v else v);
          v = (if isReserved path then add_errs [ReservedPath name path] v else v);
          v = (case v_paths v path of Some previous \<Rightarrow> add_errs [PathUsed name path previous] v | None \<Rightarrow> v);
          v = v\<lparr>v_paths := (v_paths v)(path \<mapsto> name)\<rparr>;
          v = (if sec_RequireMTLS (up_Security u) then v\<lparr>v_needTLS := True\<rparr> else v)
      in add_errs (validateSecurity (''upstream '' @ name) (up_Security u)) v)"

definition validate_upstream :: "nat \<Rightarrow> Upstream \<Rightarrow> validation \<Rightarrow> validation" where
  "validate_upstream i u v =
     (let name = upstream_name i u in
      if is_stream u then validate_stream name u v
      else if is_http u then validate_http name u v
      else add_errs [BadProtocol name (up_Protocol u)] v)"

fun validate_upstreams :: "nat \<Rightarrow> Upstream list \<Rightarrow> validation \<Rightarrow> validation" where
  "validate_upstreams i [] v = v"
| "validate_upstreams i (u # us) v = validate_upstreams (Suc i) us (validate_upstream i u v)"

definition Validate :: "ServerConfig \<Rightarrow> config_error list" where
  "Validate cfg =
     (let server = cfg_Security cfg;
          v0 = \<lparr>v_errs = validateSecurity ''server.security'' server @
                  [RootSkipPath value. value \<leftarrow> cfg_SkipPaths cfg, NormalizePath value = ''/''],
                v_paths = Map.empty, v_listeners = Map.empty, v_needTLS = sec_RequireMTLS server\<rparr>;
          v = validate_upstreams 0 (cfg_Upstream cfg) v0
      in v_errs v @
         (if (sec_TLSCert server = []) \<noteq> (sec_TLSKey server = []) then [HalfTls] else []) @
         (if v_needTLS v \<and> (sec_TLSCert server = [] \<or> sec_TLSKey server = [] \<or> sec_ClientCA server = [])
          then [MtlsNeedsTls] else []))"

section \<open>The default configuration file\<close>

text \<open>\<open>CreateConfig\<close> on a small file system: the directory's mode and the file's text and mode.  The
  answers of the calls are given: whether MkdirAll succeeds, what Stat says, whether the exclusive
  creation succeeds, after how many bytes the write fails if it does, and whether the close succeeds.\<close>

record conf_fs =
  cf_dir :: "nat option"
  cf_file :: "(string \<times> nat) option"

datatype stat_answer = Exists | NotExist | StatError

record fs_answers =
  fa_mkdir :: bool
  fa_stat :: stat_answer
  fa_open :: bool
  fa_write :: "nat option"
  fa_close :: bool

datatype fs_error = MkdirFailed | StatFailed | OpenFailed | WriteFailed | CloseFailed

text \<open>The text of a configuration that is created.\<close>

definition defaultConfig :: string where
  "defaultConfig =
     concat (map (\<lambda>l. l @ [CHR 0x0A])
       [''server:'',
        ''  host: \"127.0.0.1\"'',
        ''  port: \"4444\"'',
        '''',
        ''  timeout:'',
        ''    connect: 5'',
        ''    read: 30'',
        ''    write: 30'',
        ''    idle: 60'',
        ''    request: 60'',
        '''',
        ''  security:'',
        ''    global_rate_limit: 600'',
        ''    global_rate_burst: 500'',
        ''    max_body: 10'',
        ''    allowed_methods: [GET, POST, PUT, PATCH, DELETE, OPTIONS]'',
        ''    trusted_proxy_cidrs: []'',
        ''    internal_cidrs: []'',
        '''',
        ''upstream:'',
        ''  - name: \"server_runner\"'',
        ''    path: /'',
        ''    server_url: \"http://localhost:3000\"''])"

definition create_file :: "string \<Rightarrow> fs_answers \<Rightarrow> conf_fs \<Rightarrow> fs_error option \<times> conf_fs" where
  "create_file text a fs =
     (if \<not> fa_open a \<or> cf_file fs \<noteq> None then (Some OpenFailed, fs)
      else
        (let fs = fs\<lparr>cf_file := Some (case fa_write a of None \<Rightarrow> text | Some n \<Rightarrow> take n text, 0x180)\<rparr>;
             err = (if fa_write a = None then None else Some WriteFailed)
         in (case err of None \<Rightarrow> if fa_close a then None else Some CloseFailed | Some e \<Rightarrow> Some e, fs)))"

definition CreateConfig :: "fs_answers \<Rightarrow> conf_fs \<Rightarrow> fs_error option \<times> conf_fs" where
  "CreateConfig a fs =
     (if \<not> fa_mkdir a then (Some MkdirFailed, fs)
      else
        (let fs = fs\<lparr>cf_dir := Some 0x1C0\<rparr> in
         (case fa_stat a of
            Exists \<Rightarrow> (None, fs\<lparr>cf_file := map_option (\<lambda>(text, _). (text, 0x180)) (cf_file fs)\<rparr>)
          | StatError \<Rightarrow> (Some StatFailed, fs)
          | NotExist \<Rightarrow> create_file defaultConfig a fs)))"

text \<open>What Stat says agrees with the file system it looks at.\<close>

definition stat_true :: "fs_answers \<Rightarrow> conf_fs \<Rightarrow> bool" where
  "stat_true a fs \<longleftrightarrow> (fa_stat a = Exists \<longrightarrow> cf_file fs \<noteq> None) \<and> (fa_stat a = NotExist \<longrightarrow> cf_file fs = None)"

section \<open>What validation means\<close>

definition security_ok :: "Security \<Rightarrow> bool" where
  "security_ok s \<longleftrightarrow>
     (\<forall>(name, value) \<in> set (security_numbers s). 0 \<le> value) \<and>
     (\<forall>(name, vs) \<in> set (security_lists s). \<exists>ns. ParseCIDRs vs = Inr ns) \<and>
     (sec_JWTSecret s = [] \<or> 32 \<le> length (sec_JWTSecret s))"

definition upstream_ok :: "Upstream \<Rightarrow> bool" where
  "upstream_ok u \<longleftrightarrow>
     (is_stream u \<and> trim_space (up_Listen u) \<noteq> [] \<and> trim_space (up_ServerURL u) \<noteq> []
      \<or> is_http u \<and> \<not> contains_any (NormalizePath (up_Path u)) bad_path_chars \<and> \<not> isReserved (NormalizePath (up_Path u)))
     \<and> security_ok (up_Security u)"

definition needs_tls :: "ServerConfig \<Rightarrow> bool" where
  "needs_tls cfg \<longleftrightarrow> sec_RequireMTLS (cfg_Security cfg) \<or>
     (\<exists>u \<in> set (cfg_Upstream cfg). is_http u \<and> sec_RequireMTLS (up_Security u))"

definition config_ok :: "ServerConfig \<Rightarrow> bool" where
  "config_ok cfg \<longleftrightarrow>
     security_ok (cfg_Security cfg) \<and>
     (\<forall>value \<in> set (cfg_SkipPaths cfg). NormalizePath value \<noteq> ''/'') \<and>
     (\<forall>u \<in> set (cfg_Upstream cfg). upstream_ok u) \<and>
     distinct (map listener_key (filter is_stream (cfg_Upstream cfg))) \<and>
     distinct (map (\<lambda>u. NormalizePath (up_Path u)) (filter is_http (cfg_Upstream cfg))) \<and>
     (sec_TLSCert (cfg_Security cfg) = [] \<longleftrightarrow> sec_TLSKey (cfg_Security cfg) = []) \<and>
     (needs_tls cfg \<longrightarrow> sec_TLSCert (cfg_Security cfg) \<noteq> [] \<and> sec_TLSKey (cfg_Security cfg) \<noteq> [] \<and> sec_ClientCA (cfg_Security cfg) \<noteq> [])"

lemma stream_not_http: "is_stream u \<Longrightarrow> \<not> is_http u"
  by (auto simp: is_stream_def is_http_def)

lemma concat_filter_Nil: "concat (map (\<lambda>x. if P x then [f x] else []) xs) = [] \<longleftrightarrow> (\<forall>x \<in> set xs. \<not> P x)"
  by (induction xs) auto

lemma ParseCIDRs_ok: "(\<exists>ns. ParseCIDRs vs = Inr ns) \<longleftrightarrow> (\<forall>v \<in> set vs. parse_cidr (trim_space v) \<noteq> None)"
  using ParseCIDRs_Inl_iff [of vs] by (cases "ParseCIDRs vs") auto

lemma concat_filter2_Nil:
  "concat (map (\<lambda>(n, x). if P x then [f n x] else []) xs) = [] \<longleftrightarrow> (\<forall>(n, x) \<in> set xs. \<not> P x)"
  by (induction xs) auto

lemma concat_concat_Nil:
  "concat (map (\<lambda>(n, vs). concat (map (\<lambda>v. if P v then [f n v] else []) vs)) xs) = [] \<longleftrightarrow>
   (\<forall>(n, vs) \<in> set xs. \<forall>v \<in> set vs. \<not> P v)"
  by (induction xs) (auto simp: concat_filter_Nil simp del: concat_eq_Nil_conv)

lemma validateSecurity_Nil: "validateSecurity scope s = [] \<longleftrightarrow> security_ok s"
  unfolding validateSecurity_def append_is_Nil_conv concat_filter2_Nil concat_concat_Nil security_ok_def ParseCIDRs_ok not_less
  by auto

lemma add_errs_sel [simp]:
  "v_errs (add_errs es v) = v_errs v @ es" "v_paths (add_errs es v) = v_paths v"
  "v_listeners (add_errs es v) = v_listeners v" "v_needTLS (add_errs es v) = v_needTLS v"
  by (simp_all add: add_errs_def)

lemma validate_stream_errs:
  "v_errs (validate_stream name u v) = [] \<longleftrightarrow>
     v_errs v = [] \<and> trim_space (up_Listen u) \<noteq> [] \<and> trim_space (up_ServerURL u) \<noteq> [] \<and>
     v_listeners v (listener_key u) = None \<and> security_ok (up_Security u)"
  by (cases "v_listeners v (listener_key u)") (auto simp: validate_stream_def Let_def validateSecurity_Nil)

lemma validate_http_errs:
  "v_errs (validate_http name u v) = [] \<longleftrightarrow>
     v_errs v = [] \<and> \<not> contains_any (NormalizePath (up_Path u)) bad_path_chars \<and> \<not> isReserved (NormalizePath (up_Path u)) \<and>
     v_paths v (NormalizePath (up_Path u)) = None \<and> security_ok (up_Security u)"
  by (cases "v_paths v (NormalizePath (up_Path u))"; cases "contains_any (NormalizePath (up_Path u)) bad_path_chars";
      cases "isReserved (NormalizePath (up_Path u))")
    (simp_all add: validate_http_def Let_def validateSecurity_Nil)

lemma validate_upstream_errs:
  "v_errs (validate_upstream i u v) = [] \<longleftrightarrow>
     v_errs v = [] \<and> upstream_ok u \<and>
     (is_stream u \<longrightarrow> v_listeners v (listener_key u) = None) \<and>
     (is_http u \<longrightarrow> v_paths v (NormalizePath (up_Path u)) = None)"
  using stream_not_http [of u]
  by (auto simp: validate_upstream_def Let_def validate_stream_errs validate_http_errs upstream_ok_def)

lemma validate_stream_state:
  "v_needTLS (validate_stream name u v) = v_needTLS v" "v_paths (validate_stream name u v) = v_paths v"
  "trim_space (up_Listen u) \<noteq> [] \<Longrightarrow> trim_space (up_ServerURL u) \<noteq> [] \<Longrightarrow>
   v_listeners (validate_stream name u v) = (v_listeners v)(listener_key u \<mapsto> name)"
  by (cases "v_listeners v (listener_key u)"; simp add: validate_stream_def Let_def)+

lemma validate_http_state:
  "v_needTLS (validate_http name u v) \<longleftrightarrow> v_needTLS v \<or> sec_RequireMTLS (up_Security u)"
  "v_paths (validate_http name u v) = (v_paths v)(NormalizePath (up_Path u) \<mapsto> name)"
  "v_listeners (validate_http name u v) = v_listeners v"
  by (cases "v_paths v (NormalizePath (up_Path u))"; simp add: validate_http_def Let_def)+

lemma validate_upstream_state:
  assumes "upstream_ok u"
  shows "dom (v_listeners (validate_upstream i u v)) = (if is_stream u then insert (listener_key u) else id) (dom (v_listeners v))"
    "dom (v_paths (validate_upstream i u v)) = (if is_http u then insert (NormalizePath (up_Path u)) else id) (dom (v_paths v))"
  using assms stream_not_http [of u]
  by (auto simp: validate_upstream_def Let_def validate_stream_state validate_http_state upstream_ok_def)

lemma validate_upstream_tls:
  "v_needTLS (validate_upstream i u v) \<longleftrightarrow> v_needTLS v \<or> (is_http u \<and> sec_RequireMTLS (up_Security u))"
  using stream_not_http [of u]
  by (auto simp: validate_upstream_def Let_def validate_stream_state validate_http_state)

lemma validate_upstreams_errs_mono: "v_errs (validate_upstreams i us v) = [] \<Longrightarrow> v_errs v = []"
proof (induction us arbitrary: i v)
  case (Cons u us)
  have "v_errs (validate_upstream i u v) = []"
    by (rule Cons.IH) (use Cons.prems in \<open>simp only: validate_upstreams.simps\<close>)
  then show ?case by (simp only: validate_upstream_errs)
qed simp

lemma fresh_insert:
  "(\<forall>w \<in> set us. P w \<longrightarrow> f w \<notin> insert x A) \<longleftrightarrow> x \<notin> set (map f (filter P us)) \<and> (\<forall>w \<in> set us. P w \<longrightarrow> f w \<notin> A)"
  by auto

lemma validate_upstreams_errs:
  "v_errs (validate_upstreams i us v) = [] \<longleftrightarrow>
     v_errs v = [] \<and> (\<forall>u \<in> set us. upstream_ok u) \<and>
     distinct (map listener_key (filter is_stream us)) \<and>
     distinct (map (\<lambda>u. NormalizePath (up_Path u)) (filter is_http us)) \<and>
     (\<forall>u \<in> set us. is_stream u \<longrightarrow> listener_key u \<notin> dom (v_listeners v)) \<and>
     (\<forall>u \<in> set us. is_http u \<longrightarrow> NormalizePath (up_Path u) \<notin> dom (v_paths v))"
proof (induction us arbitrary: i v)
  case (Cons u us)
  show ?case (is "?L \<longleftrightarrow> ?R")
  proof (cases "v_errs (validate_upstream i u v) = []")
    case True
    note u = True [unfolded validate_upstream_errs]
    then have ok: "upstream_ok u" by blast
    note step = validate_upstreams.simps Cons.IH validate_upstream_state [OF ok] True filter.simps if_True if_False id_apply
      fresh_insert list.map distinct.simps list.set ball_simps
    show ?thesis
    proof (cases "is_stream u")
      case str: True
      with stream_not_http have not: "\<not> is_http u" by blast
      have "is_http u = False" "is_stream u = True" using str not by simp_all
      with u show ?thesis by (simp only: step domIff not_not simp_thms) (rule iffI; elim conjE; intro conjI; assumption)
    next
      case str: False
      with ok have "is_http u = True" "is_stream u = False" by (simp_all add: upstream_ok_def)
      with u show ?thesis by (simp only: step domIff not_not simp_thms) (rule iffI; elim conjE; intro conjI; assumption)
    qed
  next
    case False
    then have "\<not> ?L" using validate_upstreams_errs_mono unfolding validate_upstreams.simps by blast
    moreover have "\<not> ?R"
    proof
      assume "?R"
      then have "v_errs (validate_upstream i u v) = []" unfolding validate_upstream_errs domIff by (elim conjE) simp
      with False show False by simp
    qed
    ultimately show ?thesis by (simp only:)
  qed
qed simp

lemma validate_upstreams_tls:
  "v_needTLS (validate_upstreams i us v) \<longleftrightarrow> v_needTLS v \<or> (\<exists>u \<in> set us. is_http u \<and> sec_RequireMTLS (up_Security u))"
  by (induction us arbitrary: i v) (auto simp: validate_upstream_tls)

lemma Validate_ok_iff: "Validate cfg = [] \<longleftrightarrow> config_ok cfg"
proof -
  have "[RootSkipPath value. value \<leftarrow> cfg_SkipPaths cfg, NormalizePath value = ''/''] = [] \<longleftrightarrow>
      (\<forall>value \<in> set (cfg_SkipPaths cfg). NormalizePath value \<noteq> ''/'')"
    by (rule concat_filter_Nil)
  then show ?thesis
    by (auto simp: Validate_def Let_def validate_upstreams_errs validate_upstreams_tls validateSecurity_Nil config_ok_def needs_tls_def)
qed

subsection \<open>Normalised paths\<close>

lemma NormalizePath_hd: "\<exists>rest. NormalizePath value = CHR ''/'' # rest"
proof -
  let ?p = "trim_space value"
  let ?q = "if \<not> has_prefix ?p ''/'' then ''/'' @ ?p else ?p"
  have q: "hd ?q = CHR ''/''" "?q \<noteq> []" by (auto simp: has_prefix_iff)
  have "NormalizePath value = ''/'' \<or> (NormalizePath value = trim_right_with (\<lambda>c. c = CHR ''/'') ?q \<and> NormalizePath value \<noteq> [])"
    by (auto simp: NormalizePath_def Let_def)
  then show ?thesis
  proof
    assume n: "NormalizePath value = trim_right_with (\<lambda>c. c = CHR ''/'') ?q \<and> NormalizePath value \<noteq> []"
    then have "hd (NormalizePath value) = CHR ''/''" using q trim_right_hd by metis
    with n show ?thesis by (metis list.exhaust_sel)
  qed simp
qed

lemma NormalizePath_last: "NormalizePath value = ''/'' \<or> last (NormalizePath value) \<noteq> CHR ''/''"
  by (auto simp: NormalizePath_def Let_def dest: trim_right_last)

lemma NormalizePath_fix:
  assumes "hd p = CHR ''/''" "p \<noteq> []" "p = ''/'' \<or> last p \<noteq> CHR ''/''" "\<not> is_space (last p)"
  shows "NormalizePath p = p"
proof -
  have "trim_space p = p" by (rule trim_space_fix) (use assms in \<open>auto simp: is_space_def\<close>)
  moreover have "has_prefix p ''/''" using assms(1,2) by (cases p) (auto simp: has_prefix_def)
  moreover have "trim_right_with (\<lambda>c. c = CHR ''/'') p = p" if "p \<noteq> ''/''"
    using assms that by (intro trim_right_fix) auto
  ultimately show ?thesis using assms(2) by (auto simp: NormalizePath_def Let_def)
qed

section \<open>Properties\<close>

text \<open>C12: \<open>Validate\<close> reports no error exactly for the configurations meant by \<open>config_ok\<close>: non-negative
  numbers, CIDR lists that parse, JWT secrets that are empty or long enough, no root skip path, complete
  upstreams with a known protocol, distinct stream listeners, distinct unreserved HTTP paths, and
  certificates wherever mTLS is required.\<close>

theorem validate_exact: "Validate cfg = [] \<longleftrightarrow> config_ok cfg"
  by (rule Validate_ok_iff)

text \<open>A normalised path starts with a slash, ends with none unless it is the root, and normalising it
  again changes nothing (provided it does not end in white space, which validation refuses).\<close>

theorem normalize_path:
  "take 1 (NormalizePath v) = ''/'' \<and>
   (NormalizePath v = ''/'' \<or> last (NormalizePath v) \<noteq> CHR ''/'') \<and>
   (\<not> is_space (last (NormalizePath v)) \<longrightarrow> NormalizePath (NormalizePath v) = NormalizePath v)"
proof -
  obtain rest where r: "NormalizePath v = CHR ''/'' # rest" using NormalizePath_hd by blast
  have "NormalizePath (NormalizePath v) = NormalizePath v" if "\<not> is_space (last (NormalizePath v))"
    using that NormalizePath_last [of v] by (intro NormalizePath_fix) (simp_all add: r)
  then show ?thesis using r NormalizePath_last [of v] by simp
qed

lemma normalize_path_witness:
  "NormalizePath '' api// '' = ''/api'' \<and> NormalizePath (NormalizePath '' api// '') = NormalizePath '' api// ''"
proof -
  have n: "NormalizePath '' api// '' = ''/api''" "\<not> is_space (last ''/api'')" by code_simp+
  with normalize_path [of "'' api// ''"] show ?thesis by simp
qed

text \<open>\<open>Load\<close> fails exactly when the file cannot be read or RATE_LIMIT is set to something that is not an
  integer; a loaded configuration has every timeout and the Redis pool size positive, keeps the file's
  upstreams, and takes every overridable value from the environment when it is set there.\<close>

theorem load_result:
  "(case Load viper env of
      Inl e \<Rightarrow>
        (case viper of Inl t \<Rightarrow> e = ReadFailed t
         | Inr cfg \<Rightarrow> e = BadRateLimit (env ''RATE_LIMIT'') \<and> env ''RATE_LIMIT'' \<noteq> [] \<and> parse_int (trim_space (env ''RATE_LIMIT'')) = None)
    | Inr c \<Rightarrow>
        (case viper of Inl t \<Rightarrow> False
         | Inr cfg \<Rightarrow>
             0 < to_Connect (cfg_Timeout c) \<and> 0 < to_Read (cfg_Timeout c) \<and> 0 < to_Write (cfg_Timeout c) \<and>
             0 < to_Idle (cfg_Timeout c) \<and> 0 < to_Request (cfg_Timeout c) \<and> 0 < sec_RedisConnect (cfg_Security c) \<and>
             cfg_Upstream c = cfg_Upstream cfg \<and>
             cfg_Port c = (if env ''PORT'' = [] then cfg_Port cfg else env ''PORT'') \<and>
             sec_JWTSecret (cfg_Security c) = (if env ''JWT_SECRET'' = [] then sec_JWTSecret (cfg_Security cfg) else env ''JWT_SECRET'') \<and>
             sec_APIKeys (cfg_Security c) = (if env ''API_KEYS'' = [] then sec_APIKeys (cfg_Security cfg) else splitSecrets (env ''API_KEYS'')) \<and>
             Some (sec_RateLimit (cfg_Security c)) =
               (if env ''RATE_LIMIT'' = [] then Some (sec_RateLimit (cfg_Security cfg)) else parse_int (trim_space (env ''RATE_LIMIT'')))))"
proof (cases viper)
  case (Inr cfg)
  let ?rate = "env_rate env (env_server env (load_defaults cfg))"
  show ?thesis
  proof (cases ?rate)
    case (Inl e)
    with Inr show ?thesis by (auto simp: Load_def env_rate_def split: if_splits option.splits)
  next
    case c: (Inr c)
    have L: "Load viper env = Inr (c\<lparr>cfg_Security := env_security env (cfg_Security c), cfg_Watcher := env_watcher env (cfg_Watcher c)\<rparr>)"
      by (simp add: Load_def Inr c)
    have base: "\<exists>limit. c = (env_server env (load_defaults cfg))\<lparr>cfg_Security := (cfg_Security (env_server env (load_defaults cfg)))\<lparr>sec_RateLimit := limit\<rparr>\<rparr> \<and>
        Some limit = (if env ''RATE_LIMIT'' = [] then Some (sec_RateLimit (cfg_Security cfg)) else parse_int (trim_space (env ''RATE_LIMIT'')))"
      using c by (auto simp: env_rate_def env_server_def load_defaults_def split: if_splits option.splits)
    then show ?thesis unfolding L
      by (auto simp: Inr env_server_def load_defaults_def env_security_def env_or_def default_nat_def)
  qed
qed (simp add: Load_def)

text \<open>\<open>CreateConfig\<close> never touches the text of a configuration that exists, and when it reports success
  there is a configuration file readable by its owner only, the default one if there was none.\<close>

theorem create_config_safe:
  assumes "CreateConfig a fs = (err, fs')" "stat_true a fs"
  shows "(case cf_file fs of Some (old, m) \<Rightarrow> \<exists>m'. cf_file fs' = Some (old, m') | None \<Rightarrow> True) \<and>
    (err = None \<longrightarrow> cf_dir fs' = Some 0x1C0 \<and>
       cf_file fs' = Some (case cf_file fs of Some (old, m) \<Rightarrow> old | None \<Rightarrow> defaultConfig, 0x180))"
  using assms
  by (cases "fa_stat a"; cases "cf_file fs"; cases "fa_write a")
    (auto simp: CreateConfig_def create_file_def stat_true_def Let_def split: if_splits)

lemma create_config_safe_witness:
  "cf_file (snd (CreateConfig \<lparr>fa_mkdir = True, fa_stat = NotExist, fa_open = True, fa_write = None, fa_close = True\<rparr>
     \<lparr>cf_dir = None, cf_file = None\<rparr>)) = Some (defaultConfig, 0x180)"
proof -
  let ?a = "\<lparr>fa_mkdir = True, fa_stat = NotExist, fa_open = True, fa_write = None, fa_close = True\<rparr>" and ?fs = "\<lparr>cf_dir = None, cf_file = None\<rparr>"
  have "fst (CreateConfig ?a ?fs) = None" by (simp add: CreateConfig_def create_file_def)
  then have "CreateConfig ?a ?fs = (None, snd (CreateConfig ?a ?fs))" by (metis prod.collapse)
  from create_config_safe [OF this] show ?thesis by (simp add: stat_true_def)
qed

end
