(* ===== verification/AccessControl.thy ===== *)
theory AccessControl
  imports ClientIp GoPath
begin

text \<open>
  \<open>app/internal/security/security.go\<close>: the access control in front of the routes.  It is built once
  from configuration values, which it checks, and then decides each request: deny list, allow list,
  method, path, credentials, client certificate, in this order.

  Parameters: \<open>sha256\<close>, the digest of crypto/sha256, and \<open>jwt_parse\<close>, the verification of the
  third-party package golang-jwt (True when it returns a valid token and no error), which sees the
  parser options, the key function and the token text.
\<close>

section \<open>Credentials\<close>

definition minJWTSecretLength :: nat where "minJWTSecretLength = 32"

definition bearer_value :: "string \<Rightarrow> string" where
  "bearer_value v = trim_space (trim_prefix v ''Bearer '')"

text \<open>\<open>subtle.ConstantTimeCompare\<close> of two digests is 1 when they are equal; the loop ors the answers.\<close>

definition constant_time_compare :: "'d \<Rightarrow> 'd \<Rightarrow> nat" where
  "constant_time_compare x y = (if x = y then 1 else 0)"

definition validAPIKey :: "(string \<Rightarrow> 'd) \<Rightarrow> string \<Rightarrow> string list \<Rightarrow> bool" where
  "validAPIKey sha256 v keys =
     (let v = bearer_value v in
      if v = '''' then False
      else fold (\<lambda>key matched. or matched (constant_time_compare (sha256 v) (sha256 key))) keys 0 = 1)"

record jwt_options =
  jo_methods :: "string list"
  jo_expiration_required :: bool
  jo_leeway :: duration
  jo_issuer :: "string option"
  jo_audience :: "string option"

definition jwt_parser :: "string \<Rightarrow> string \<Rightarrow> jwt_options" where
  "jwt_parser issuer audience =
     \<lparr>jo_methods = [''HS256''], jo_expiration_required = True, jo_leeway = 30 * second,
      jo_issuer = (if issuer \<noteq> '''' then Some issuer else None),
      jo_audience = (if audience \<noteq> '''' then Some audience else None)\<rparr>"

text \<open>The key function: the secret for HS256, an error for every other method.\<close>

definition jwt_key :: "string \<Rightarrow> string \<Rightarrow> string option" where
  "jwt_key secret meth = (if meth \<noteq> ''HS256'' then None else Some secret)"

type_synonym jwt_verifier = "jwt_options \<Rightarrow> (string \<Rightarrow> string option) \<Rightarrow> string \<Rightarrow> bool"

definition validJWT :: "jwt_verifier \<Rightarrow> string \<Rightarrow> string \<Rightarrow> string \<Rightarrow> string \<Rightarrow> bool" where
  "validJWT jwt_parse v secret issuer audience =
     jwt_parse (jwt_parser issuer audience) (jwt_key secret) (bearer_value v)"

section \<open>The policy\<close>

record access_policy =
  ap_allowed :: "ipnet list"
  ap_denied :: "ipnet list"
  ap_methods :: "string set"
  ap_paths :: "string list"
  ap_apiKeys :: "string list"
  ap_jwtSecret :: string
  ap_jwtIssuer :: string
  ap_jwtAudience :: string
  ap_requireMTLS :: bool
  ap_trusted :: "ipnet list"

definition set_of_methods :: "string list \<Rightarrow> string set" where
  "set_of_methods vs = set (map (\<lambda>v. to_upper (trim_space v)) vs)"

datatype access_error = ShortJwtSecret | EmptyApiKey | InvalidCidr string

text \<open>\<open>accessControl\<close> up to the handler; \<open>networks\<close> has the body of \<open>ParseCIDRs\<close>.\<close>

definition networks :: "string list \<Rightarrow> access_error + ipnet list" where
  "networks vs = (case ParseCIDRs vs of Inl e \<Rightarrow> Inl (InvalidCidr e) | Inr ns \<Rightarrow> Inr ns)"

definition accessControl ::
  "string list \<Rightarrow> string list \<Rightarrow> string list \<Rightarrow> string list \<Rightarrow> string list \<Rightarrow> string \<Rightarrow> string \<Rightarrow> string \<Rightarrow> bool \<Rightarrow>
   string list \<Rightarrow> access_error + access_policy" where
  "accessControl allow deny methods paths apiKeys jwtSecret jwtIssuer jwtAudience requireMTLS trustedProxyCIDRs =
     (if jwtSecret \<noteq> '''' \<and> length jwtSecret < minJWTSecretLength then Inl ShortJwtSecret
      else if list_ex (\<lambda>key. trim_space key = '''') apiKeys then Inl EmptyApiKey
      else
        (case networks allow of Inl e \<Rightarrow> Inl e | Inr allowed \<Rightarrow>
        (case networks deny of Inl e \<Rightarrow> Inl e | Inr denied \<Rightarrow>
        (case networks trustedProxyCIDRs of Inl e \<Rightarrow> Inl e | Inr trusted \<Rightarrow>
           Inr \<lparr>ap_allowed = allowed, ap_denied = denied, ap_methods = set_of_methods methods, ap_paths = paths,
             ap_apiKeys = apiKeys, ap_jwtSecret = jwtSecret, ap_jwtIssuer = jwtIssuer, ap_jwtAudience = jwtAudience,
             ap_requireMTLS = requireMTLS, ap_trusted = trusted\<rparr>))))"

definition ip_in :: "ipnet list \<Rightarrow> ipaddr option \<Rightarrow> bool" where
  "ip_in nets ip = list_ex (\<lambda>network. case ip of None \<Rightarrow> False | Some a \<Rightarrow> net_contains network a) nets"

definition matchesPath :: "string \<Rightarrow> string list \<Rightarrow> bool" where
  "matchesPath v patterns = list_ex (\<lambda>pattern. path_match pattern v) patterns"

definition forbidden :: response where
  "forbidden = http_error Map.empty ''access denied'' status_forbidden"

definition bad_method :: response where
  "bad_method = http_error Map.empty ''method not allowed'' status_method_not_allowed"

definition unauthenticated :: response where
  "unauthenticated = http_error (header_set Map.empty ''WWW-Authenticate'' ''Bearer'') ''authentication required'' status_unauthorized"

definition no_certificate :: response where
  "no_certificate = http_error Map.empty ''client certificate required'' status_unauthorized"

definition tls_verified :: "request \<Rightarrow> bool" where
  "tls_verified r =
     (case r_tls r of None \<Rightarrow> False | Some t \<Rightarrow> \<not> (peer_certs t = 0 \<or> verified_chains t = 0))"

definition credentials_ok :: "(string \<Rightarrow> 'd) \<Rightarrow> jwt_verifier \<Rightarrow> access_policy \<Rightarrow> request \<Rightarrow> bool" where
  "credentials_ok sha256 jwt_parse p r =
     (let apiKeyValid = validAPIKey sha256 (header_get (r_header r) ''Authorization'') (ap_apiKeys p) \<or>
                        validAPIKey sha256 (header_get (r_header r) ''X-API-Key'') (ap_apiKeys p);
          jwtValid = (ap_jwtSecret p \<noteq> '''' \<and>
                      validJWT jwt_parse (header_get (r_header r) ''Authorization'') (ap_jwtSecret p) (ap_jwtIssuer p) (ap_jwtAudience p))
      in \<not> ((ap_apiKeys p \<noteq> [] \<or> ap_jwtSecret p \<noteq> '''') \<and> \<not> apiKeyValid \<and> \<not> jwtValid))"

definition access :: "(string \<Rightarrow> 'd) \<Rightarrow> jwt_verifier \<Rightarrow> access_policy \<Rightarrow> request \<Rightarrow> verdict" where
  "access sha256 jwt_parse p r =
     (let ip = parse_ip (GetClientIP r (ap_trusted p)) in
      if ip_in (ap_denied p) ip then Reject forbidden
      else if ap_allowed p \<noteq> [] \<and> \<not> ip_in (ap_allowed p) ip then Reject forbidden
      else if r_method r = ''TRACE'' \<or> (ap_methods p \<noteq> {} \<and> r_method r \<notin> ap_methods p) then Reject bad_method
      else if ap_paths p \<noteq> [] \<and> \<not> matchesPath (path_clean (r_path r)) (ap_paths p) then Reject not_found
      else if \<not> credentials_ok sha256 jwt_parse p r then Reject unauthenticated
      else if ap_requireMTLS p \<and> \<not> tls_verified r then Reject no_certificate
      else Pass r)"

section \<open>Laws\<close>

lemma or_compare: "fold (\<lambda>key matched. or matched (constant_time_compare d (f key))) keys m = 1 \<longleftrightarrow> m = 1 \<or> (m = 0 \<and> d \<in> f ` set keys)"
  if "m = 0 \<or> m = (1 :: nat)"
  using that
proof (induction keys arbitrary: m)
  case (Cons key keys)
  have "or m (constant_time_compare d (f key)) = (if m = 1 \<or> d = f key then 1 else 0)"
    using Cons.prems by (auto simp: constant_time_compare_def)
  with Cons.IH [of "or m (constant_time_compare d (f key))"] Cons.prems show ?case by auto
qed simp

lemma validAPIKey_iff:
  "validAPIKey sha256 v keys \<longleftrightarrow> bearer_value v \<noteq> '''' \<and> sha256 (bearer_value v) \<in> sha256 ` set keys"
  using or_compare [of 0 "sha256 (bearer_value v)" sha256 keys] by (simp add: validAPIKey_def Let_def)

lemma ip_in_iff: "ip_in nets ip \<longleftrightarrow> (\<exists>a. ip = Some a \<and> contains nets a)"
  by (cases ip) (auto simp: ip_in_def list_ex_iff contains_iff)

lemma accessControl_Inr:
  "accessControl allow deny methods paths apiKeys jwtSecret jwtIssuer jwtAudience requireMTLS trustedCIDRs = Inr p \<longleftrightarrow>
     (jwtSecret = '''' \<or> minJWTSecretLength \<le> length jwtSecret) \<and> (\<forall>key \<in> set apiKeys. trim_space key \<noteq> '''') \<and>
     (\<exists>a d t. ParseCIDRs allow = Inr a \<and> ParseCIDRs deny = Inr d \<and> ParseCIDRs trustedCIDRs = Inr t \<and>
        p = \<lparr>ap_allowed = a, ap_denied = d, ap_methods = set_of_methods methods, ap_paths = paths,
             ap_apiKeys = apiKeys, ap_jwtSecret = jwtSecret, ap_jwtIssuer = jwtIssuer, ap_jwtAudience = jwtAudience,
             ap_requireMTLS = requireMTLS, ap_trusted = t\<rparr>)"
  by (auto simp: accessControl_def networks_def list_ex_iff not_less split: sum.splits)

lemma access_Pass_iff:
  "access sha256 jwt_parse p r = Pass r' \<longleftrightarrow>
     r' = r \<and>
     \<not> ip_in (ap_denied p) (parse_ip (GetClientIP r (ap_trusted p))) \<and>
     (ap_allowed p = [] \<or> ip_in (ap_allowed p) (parse_ip (GetClientIP r (ap_trusted p)))) \<and>
     r_method r \<noteq> ''TRACE'' \<and> (ap_methods p = {} \<or> r_method r \<in> ap_methods p) \<and>
     (ap_paths p = [] \<or> matchesPath (path_clean (r_path r)) (ap_paths p)) \<and>
     credentials_ok sha256 jwt_parse p r \<and>
     (ap_requireMTLS p \<longrightarrow> tls_verified r)"
  by (auto simp: access_def Let_def)

interpretation acl: stage "stateless (access sha256 jwt_parse p)" for sha256 jwt_parse p
  by unfold_locales (auto simp: stateless_def access_Pass_iff)

section \<open>Properties\<close>

text \<open>C5: The access control built from a configuration lets a request through exactly when the client is in
  no denied network, in an allowed one if there are any, the method is not TRACE and is listed if there is a
  list, the cleaned path matches a pattern if there are any, a presented credential has the digest of a
  configured key or is a valid token when credentials are configured, and a verified client certificate is there when mTLS is required.\<close>

theorem access_exact:
  assumes "accessControl allow deny methods paths apiKeys jwtSecret jwtIssuer jwtAudience requireMTLS trustedCIDRs = Inr p"
    and "ParseCIDRs allow = Inr a" "ParseCIDRs deny = Inr d" "ParseCIDRs trustedCIDRs = Inr t"
    and "client = parse_ip (GetClientIP r t)"
    and "presented = {bearer_value (header_get (r_header r) h) | h. h \<in> {''Authorization'', ''X-API-Key''}} - {''''}"
  shows "access sha256 jwt_parse p r = Pass r' \<longleftrightarrow>
    r' = r \<and>
    \<not> (\<exists>ip. client = Some ip \<and> contains d ip) \<and>
    (allow = [] \<or> (\<exists>ip. client = Some ip \<and> contains a ip)) \<and>
    r_method r \<noteq> ''TRACE'' \<and> (methods = [] \<or> r_method r \<in> set_of_methods methods) \<and>
    (paths = [] \<or> matchesPath (path_clean (r_path r)) paths) \<and>
    (apiKeys = [] \<and> jwtSecret = '''' \<or> sha256 ` presented \<inter> sha256 ` set apiKeys \<noteq> {} \<or>
     jwtSecret \<noteq> '''' \<and> validJWT jwt_parse (header_get (r_header r) ''Authorization'') jwtSecret jwtIssuer jwtAudience) \<and>
    (requireMTLS \<longrightarrow> tls_verified r)"
proof -
  have p: "p = \<lparr>ap_allowed = a, ap_denied = d, ap_methods = set_of_methods methods, ap_paths = paths,
      ap_apiKeys = apiKeys, ap_jwtSecret = jwtSecret, ap_jwtIssuer = jwtIssuer, ap_jwtAudience = jwtAudience,
      ap_requireMTLS = requireMTLS, ap_trusted = t\<rparr>"
    using assms(1-4) by (auto simp: accessControl_Inr)
  have "allow = [] \<longleftrightarrow> a = []" using assms(2) by (auto simp: ParseCIDRs_Inr_iff)
  moreover have "methods = [] \<longleftrightarrow> set_of_methods methods = {}" by (simp add: set_of_methods_def)
  moreover have "credentials_ok sha256 jwt_parse p r \<longleftrightarrow>
    (apiKeys = [] \<and> jwtSecret = '''' \<or> sha256 ` presented \<inter> sha256 ` set apiKeys \<noteq> {} \<or>
     jwtSecret \<noteq> '''' \<and> validJWT jwt_parse (header_get (r_header r) ''Authorization'') jwtSecret jwtIssuer jwtAudience)"
    unfolding credentials_ok_def p assms(6) validAPIKey_iff Let_def by auto
  ultimately show ?thesis unfolding access_Pass_iff ip_in_iff assms(5) by (simp add: p)
qed

lemma access_exact_witness:
  "access id (\<lambda>_ _ _. False)
     \<lparr>ap_allowed = [], ap_denied = [Net4 0x0A000000 8], ap_methods = {''GET''}, ap_paths = [''/api/*''], ap_apiKeys = [''k1''],
      ap_jwtSecret = '''', ap_jwtIssuer = '''', ap_jwtAudience = '''', ap_requireMTLS = False, ap_trusted = []\<rparr>
     (plain_request ''192.0.2.1:5'' (header_set Map.empty ''X-API-Key'' ''k1'')\<lparr>r_path := ''/api/x''\<rparr>)
   = Pass (plain_request ''192.0.2.1:5'' (header_set Map.empty ''X-API-Key'' ''k1'')\<lparr>r_path := ''/api/x''\<rparr>)"
proof -
  let ?r = "plain_request ''192.0.2.1:5'' (header_set Map.empty ''X-API-Key'' ''k1'')\<lparr>r_path := ''/api/x''\<rparr>"
  let ?p = "\<lparr>ap_allowed = [], ap_denied = [Net4 0x0A000000 8], ap_methods = {''GET''}, ap_paths = [''/api/*''], ap_apiKeys = [''k1''],
      ap_jwtSecret = '''', ap_jwtIssuer = '''', ap_jwtAudience = '''', ap_requireMTLS = False, ap_trusted = []\<rparr>"
  have cidr: "parse_cidr (trim_space ''10.0.0.0/8'') = Some (Net4 0x0A000000 8)" by code_simp
  have get: "set_of_methods [''get''] = {''GET''}" "trim_space ''k1'' = ''k1''" by code_simp+
  have built: "accessControl [] [''10.0.0.0/8''] [''get''] [''/api/*''] [''k1''] '''' '''' '''' False [] = Inr ?p"
    by (simp add: accessControl_def networks_def cidr get)
  have client: "parse_ip (GetClientIP ?r []) = Some (IPv4 0xC0000201)" "\<not> contains [Net4 0x0A000000 8] (IPv4 0xC0000201)"
    "matchesPath (path_clean (r_path ?r)) [''/api/*'']" "r_method ?r = ''GET''"
    "bearer_value (header_get (r_header ?r) ''X-API-Key'') = ''k1''" "bearer_value (header_get (r_header ?r) ''Authorization'') = ''''"
    by code_simp+
  have api: "matchesPath (path_clean ''/api/x'') [''/api/*'']"
    "(167772160 :: 32 word) AND cidr_mask 8 \<noteq> 3221225985 AND cidr_mask 8" by code_simp+
  have presented: "{bearer_value (header_get (r_header ?r) h) | h. h \<in> {''Authorization'', ''X-API-Key''}} - {''''} = {''k1''}"
    using client(5,6) by (auto simp: Collect_disj_eq) (metis)
  show ?thesis
    by (subst access_exact [OF built _ _ _ refl refl, of "[]" "[Net4 0x0A000000 8]" "[]"])
      (unfold presented client get, simp_all add: cidr api)
qed

text \<open>A pattern of the form prefix/* in allowed_paths cannot be escaped with dot-dot or doubled slashes:
  what passes has, after cleaning, exactly one more element under the prefix, and no element of it is dot-dot.\<close>

theorem allowed_path_no_traversal:
  assumes "access sha256 jwt_parse p r = Pass r'" "ap_paths p = [pre @ ''/*'']" "literal pre" "has_prefix (r_path r) ''/''"
  shows "(\<exists>name. path_clean (r_path r) = pre @ ''/'' @ name \<and> CHR ''/'' \<notin> set name) \<and>
    (\<exists>parts. path_clean (r_path r) = ''/'' @ join_with ''/'' parts \<and> ''..'' \<notin> set parts \<and> ''.'' \<notin> set parts)"
proof -
  have "path_match ((pre @ ''/'') @ ''*'') (path_clean (r_path r))"
    using assms(1,2) by (simp add: access_Pass_iff matchesPath_def)
  moreover have "literal (pre @ ''/'')" using assms(3) by (simp add: literal_def)
  ultimately show ?thesis using path_match_star [of "pre @ ''/''"] path_clean_rooted [OF assms(4)] by fastforce
qed

lemma allowed_path_no_traversal_witness:
  "\<exists>r'. access id (\<lambda>_ _ _. False)
     \<lparr>ap_allowed = [], ap_denied = [], ap_methods = {}, ap_paths = [''/pub/*''], ap_apiKeys = [],
      ap_jwtSecret = '''', ap_jwtIssuer = '''', ap_jwtAudience = '''', ap_requireMTLS = False, ap_trusted = []\<rparr>
     (plain_request ''192.0.2.1:5'' Map.empty\<lparr>r_path := ''/x/../pub//a''\<rparr>) = Pass r'
   \<and> path_clean ''/x/../pub//a'' = ''/pub/a''
   \<and> (\<exists>name. path_clean ''/x/../pub//a'' = ''/pub'' @ ''/'' @ name \<and> CHR ''/'' \<notin> set name)"
proof -
  let ?r = "plain_request ''192.0.2.1:5'' Map.empty\<lparr>r_path := ''/x/../pub//a''\<rparr>"
  let ?p = "\<lparr>ap_allowed = [], ap_denied = [], ap_methods = {}, ap_paths = [''/pub/*''], ap_apiKeys = [],
      ap_jwtSecret = '''', ap_jwtIssuer = '''', ap_jwtAudience = '''', ap_requireMTLS = False, ap_trusted = []\<rparr>"
  have m: "matchesPath (path_clean (r_path ?r)) [''/pub/*'']" "path_clean ''/x/../pub//a'' = ''/pub/a''" "r_method ?r = ''GET''"
    "has_prefix (r_path ?r) ''/''" by code_simp+
  have a: "access id (\<lambda>_ _ _. False) ?p ?r = Pass ?r"
    using m by (simp add: access_Pass_iff ip_in_def credentials_ok_def)
  have "ap_paths ?p = [''/pub'' @ ''/*'']" "literal ''/pub''" by simp_all
  from allowed_path_no_traversal [OF a this m(4)] a m(2) show ?thesis by simp
qed

text \<open>Building the access control fails exactly for a JWT secret shorter than 32 bytes, a blank API key or a
  network that does not parse; nothing is decided per request that could have been refused at start.\<close>

theorem access_control_construction:
  "(\<exists>p. accessControl allow deny methods paths apiKeys jwtSecret jwtIssuer jwtAudience requireMTLS trustedCIDRs = Inr p) \<longleftrightarrow>
     (jwtSecret = '''' \<or> 32 \<le> length jwtSecret) \<and> list_all (\<lambda>key. trim_space key \<noteq> '''') apiKeys \<and>
     list_all (\<lambda>v. parse_cidr (trim_space v) \<noteq> None) (allow @ deny @ trustedCIDRs)"
proof -
  have c: "(\<exists>ns. ParseCIDRs vs = Inr ns) \<longleftrightarrow> list_all (\<lambda>v. parse_cidr (trim_space v) \<noteq> None) vs" for vs
    using ParseCIDRs_Inl_iff [of vs] by (cases "ParseCIDRs vs") (auto simp: list_all_iff)
  have "list_all (\<lambda>v. parse_cidr (trim_space v) \<noteq> None) (allow @ deny @ trustedCIDRs) \<longleftrightarrow>
      (\<exists>a. ParseCIDRs allow = Inr a) \<and> (\<exists>d. ParseCIDRs deny = Inr d) \<and> (\<exists>t. ParseCIDRs trustedCIDRs = Inr t)"
    by (simp only: list_all_append c)
  then show ?thesis unfolding accessControl_Inr by (auto simp: list_all_iff minJWTSecretLength_def)
qed

subsection \<open>Two divergences\<close>

text \<open>A client address with an IPv6 zone does not parse, so no deny network ever holds it.\<close>

lemma zoned_client_escapes_deny:
  "access id (\<lambda>_ _ _. False)
     \<lparr>ap_allowed = [], ap_denied = [Net6 0xFE800000000000000000000000000000 10], ap_methods = {}, ap_paths = [], ap_apiKeys = [],
      ap_jwtSecret = '''', ap_jwtIssuer = '''', ap_jwtAudience = '''', ap_requireMTLS = False, ap_trusted = []\<rparr>
     (plain_request ''[fe80::1%eth0]:5'' Map.empty) = Pass (plain_request ''[fe80::1%eth0]:5'' Map.empty)"
proof -
  have "parse_ip (GetClientIP (plain_request ''[fe80::1%eth0]:5'' Map.empty) []) = None"
    "r_method (plain_request ''[fe80::1%eth0]:5'' Map.empty) = ''GET''" by code_simp+
  then show ?thesis by (simp add: access_Pass_iff ip_in_def credentials_ok_def)
qed

text \<open>A presented key is trimmed, a configured key is not: one configured with outer white space is never accepted.\<close>

lemma untrimmed_key_useless: "inj sha256 \<Longrightarrow> trim_space key \<noteq> key \<Longrightarrow> \<not> validAPIKey sha256 v [key]"
  by (auto simp: validAPIKey_iff bearer_value_def dest: injD)

end
