(* ===== verification/BodyLimit.thy ===== *)
theory BodyLimit
  imports Http
begin

text \<open>
  \<open>app/internal/security/Body.go\<close>: the limit on request bodies.  A declared length above the limit is
  refused at once, a body with a declared length is wrapped in a \<open>MaxBytesReader\<close>, and a body of
  unknown length (length \<open>-1\<close>) is read in full before the next handler sees the request.
\<close>

text \<open>\<open>int64(limitMB) * 1024 * 1024\<close>, which wraps.\<close>

definition body_limit :: "int \<Rightarrow> int" where
  "body_limit limitMB = i64 (i64 (limitMB * 1024) * 1024)"

text \<open>\<open>http.MaxBytesReader\<close> reads a negative limit as 0 and fails on the first byte beyond the limit;
  the inner cap, if the body already carries one, applies as well.\<close>

datatype read_error = MaxBytes | ReadFailed

definition max_bytes_limit :: "int \<Rightarrow> nat" where
  "max_bytes_limit limit = nat limit"

fun capped :: "body \<Rightarrow> int \<Rightarrow> body" where
  "capped (Stream bytes fails cap) limit =
     Stream bytes fails (Some (case cap of None \<Rightarrow> int (max_bytes_limit limit) | Some c \<Rightarrow> min c (int (max_bytes_limit limit))))"
| "capped b limit = b"

text \<open>\<open>io.ReadAll\<close> of a body.\<close>

fun read_all :: "body \<Rightarrow> read_error + string" where
  "read_all (Stream bytes fails cap) =
     (if (case cap of None \<Rightarrow> False | Some c \<Rightarrow> c < int (length bytes)) then Inl MaxBytes
      else if fails then Inl ReadFailed else Inr bytes)"
| "read_all b = Inr []"

definition body_present :: "body \<Rightarrow> bool" where
  "body_present b \<longleftrightarrow> (case b of Stream _ _ _ \<Rightarrow> True | _ \<Rightarrow> False)"

definition too_large :: response where
  "too_large = http_error Map.empty ''request body too large'' status_too_large"

definition invalid_body :: response where
  "invalid_body = http_error Map.empty ''invalid request body'' status_bad_request"

definition Body :: "int \<Rightarrow> request \<Rightarrow> verdict" where
  "Body limitMB r =
     (if limitMB \<le> 0 then Pass r
      else
        (let limit = body_limit limitMB in
         if limit < r_length r then Reject too_large
         else if \<not> body_present (r_body r) \<or> 0 \<le> r_length r then
           Pass (if body_present (r_body r) then r\<lparr>r_body := capped (r_body r) limit\<rparr> else r)
         else
           (case read_all (capped (r_body r) limit) of
              Inl MaxBytes \<Rightarrow> Reject too_large
            | Inl ReadFailed \<Rightarrow> Reject invalid_body
            | Inr bytes \<Rightarrow> Pass (r\<lparr>r_body := Stream bytes False None\<rparr>))))"

lemma body_limit_exact: "0 < limitMB \<Longrightarrow> limitMB < 2 ^ 43 \<Longrightarrow> body_limit limitMB = limitMB * 1048576"
  by (simp add: body_limit_def i64_id)

text \<open>The bytes the next handler can get out of a body.\<close>

definition readable :: "body \<Rightarrow> string" where
  "readable b = (case b of Stream bytes _ cap \<Rightarrow> (case cap of None \<Rightarrow> bytes | Some c \<Rightarrow> take (nat c) bytes) | _ \<Rightarrow> [])"

section \<open>Properties\<close>

text \<open>C25: With a limit of \<open>limitMB\<close> MiB (below \<open>2 ^ 43\<close>) the next handler never gets more than that many bytes out of a
  body, and never sees a larger declared length.\<close>

theorem body_never_exceeds:
  assumes "0 < limitMB" "limitMB < 2 ^ 43" "Body limitMB r = Pass r'"
  shows "int (length (readable (r_body r'))) \<le> limitMB * 1048576 \<and> r_length r' \<le> limitMB * 1048576"
proof -
  let ?l = "limitMB * 1048576"
  note lim = body_limit_exact [OF assms(1,2)]
  have cap: "int (length (readable (capped b ?l))) \<le> ?l" for b
    using assms(1) by (cases b) (auto simp: readable_def max_bytes_limit_def split: option.splits)
  have len: "r_length r \<le> ?l" using assms lim by (auto simp: Body_def Let_def split: if_splits)
  show ?thesis
  proof (cases "body_present (r_body r)")
    case False
    then have "r' = r" using assms by (auto simp: Body_def Let_def split: if_splits)
    with False len assms(1) show ?thesis by (auto simp: readable_def body_present_def split: body.splits)
  next
    case True
    then obtain bytes fails c where b: "r_body r = Stream bytes fails c" by (auto simp: body_present_def split: body.splits)
    show ?thesis
    proof (cases "0 \<le> r_length r")
      case True
      then have "r' = r\<lparr>r_body := capped (r_body r) ?l\<rparr>"
        using assms lim \<open>body_present (r_body r)\<close> by (auto simp: Body_def Let_def split: if_splits)
      with cap len show ?thesis by simp
    next
      case False
      then obtain bs where all: "read_all (capped (r_body r) ?l) = Inr bs" "r' = r\<lparr>r_body := Stream bs False None\<rparr>"
        using assms lim \<open>body_present (r_body r)\<close> by (auto simp: Body_def Let_def split: if_splits sum.splits read_error.splits)
      then have "int (length bs) \<le> ?l"
        using assms(1) by (auto simp: b max_bytes_limit_def split: if_splits option.splits)
      with all len show ?thesis by (simp add: readable_def)
    qed
  qed
qed

definition upload :: "int \<Rightarrow> body \<Rightarrow> request" where
  "upload len b =
     \<lparr>r_method = ''POST'', r_path = ''/'', r_escaped = ''/'', r_host = ''example.org'', r_remote = ''192.0.2.1:9'', r_header = Map.empty, r_body = b,
      r_length = len, r_tls = None, r_pattern = ''/''\<rparr>"

lemma body_never_exceeds_witness:
  "\<exists>r'. Body 1 (upload (- 1) (Stream ''hello'' False None)) = Pass r' \<and> int (length (readable (r_body r'))) \<le> 1048576"
proof -
  let ?r = "upload (- 1) (Stream ''hello'' False None)"
  have "Body 1 ?r = Pass (?r\<lparr>r_body := Stream ''hello'' False None\<rparr>)"
    by (simp add: Body_def body_limit_def i64_def upload_def body_present_def max_bytes_limit_def)
  with body_never_exceeds [OF _ _ this] show ?thesis by auto
qed

text \<open>A body of unknown length is judged on its real size before the next handler runs: it is passed on
  unchanged when it fits, answered 413 when it does not, and 400 when it fits but cannot be read.\<close>

theorem chunked_body_exact:
  assumes "0 < limitMB" "limitMB < 2 ^ 43" "r_body r = Stream bytes fails None" "r_length r < 0"
  shows "Body limitMB r =
    (if limitMB * 1048576 < int (length bytes) then Reject too_large
     else if fails then Reject invalid_body
     else Pass (r\<lparr>r_body := Stream bytes False None\<rparr>))"
proof -
  have n: "\<not> limitMB * 1048576 < r_length r" using assms(1,4) by linarith
  show ?thesis
    using assms n by (simp add: Body_def body_limit_exact body_present_def max_bytes_limit_def)
qed

lemma chunked_body_exact_witness:
  "Body 1 (upload (- 1) (Stream ''hello'' True None)) = Reject invalid_body"
  using chunked_body_exact [of 1 "upload (- 1) (Stream ''hello'' True None)" "''hello''" True] by (simp add: upload_def)

text \<open>From \<open>2 ^ 43\<close> MiB on the product wraps: with \<open>limitMB = 2 ^ 43\<close> the limit is the smallest int64 and
  every request is refused.\<close>

lemma body_limit_wraps: "body_limit (2 ^ 43) = - (2 ^ 63)"
  by (simp add: body_limit_def i64_def)

lemma huge_limit_refuses: "- (2 ^ 63) < r_length r \<Longrightarrow> Body (2 ^ 43) r = Reject too_large"
  using body_limit_wraps by (simp add: Body_def Let_def)

end
