(* ===== verification/GoFloat.thy ===== *)
theory GoFloat
  imports Prelude
begin

text \<open>
  Go's float64 arithmetic.  Every operation is the exact real operation followed by a rounding to
  53 significant bits, ties to even; the exponent is unbounded, since the program's values (token
  counts, rates, seconds) stay far from overflow and underflow, and no fused multiply-add is used
  (Go fuses on some platforms, not on amd64).  What a client of the arithmetic relies on is the
  locale \<open>float_arith\<close>: the rounding is monotone, keeps integers up to \<open>2 ^ 53\<close>, and has a bounded
  relative error.  It is interpreted on the rounding of float64 and on exact arithmetic.
\<close>

section \<open>Rounding to nearest, ties to even\<close>

definition round_even :: "real \<Rightarrow> int" where
  "round_even x =
     (let n = \<lfloor>x\<rfloor>; d = x - of_int n in
      if d < 1 / 2 then n else if 1 / 2 < d then n + 1 else if even n then n else n + 1)"

definition fl_exp :: "real \<Rightarrow> int" where
  "fl_exp x = \<lfloor>log 2 \<bar>x\<bar>\<rfloor> - 52"

definition fl64 :: "real \<Rightarrow> real" where
  "fl64 x = (if x = 0 then 0 else of_int (round_even (x / 2 powi fl_exp x)) * 2 powi fl_exp x)"

lemma round_even_of_int [simp]: "round_even (of_int n) = n"
  by (simp add: round_even_def)

lemma round_even_near: "\<bar>of_int (round_even x) - x\<bar> \<le> 1 / 2"
proof -
  have "of_int \<lfloor>x\<rfloor> \<le> x" "x < of_int \<lfloor>x\<rfloor> + 1" by linarith+
  then show ?thesis unfolding round_even_def Let_def by (simp split: if_split)
qed

lemma round_even_mono: "x \<le> y \<Longrightarrow> round_even x \<le> round_even y"
proof -
  assume xy: "x \<le> y"
  then have fl: "\<lfloor>x\<rfloor> \<le> \<lfloor>y\<rfloor>" by (rule floor_mono)
  show ?thesis
  proof (cases "\<lfloor>x\<rfloor> = \<lfloor>y\<rfloor>")
    case True
    with xy show ?thesis by (auto simp: round_even_def Let_def)
  next
    case False
    with fl have "\<lfloor>x\<rfloor> + 1 \<le> \<lfloor>y\<rfloor>" by simp
    moreover have "round_even x \<le> \<lfloor>x\<rfloor> + 1" "\<lfloor>y\<rfloor> \<le> round_even y"
      by (auto simp: round_even_def Let_def)
    ultimately show ?thesis by linarith
  qed
qed

lemma round_even_minus: "round_even (- x) = - round_even x"
proof (cases "x = of_int \<lfloor>x\<rfloor>")
  case True
  then have "- x = of_int (- \<lfloor>x\<rfloor>)" by simp
  with True show ?thesis by (metis round_even_of_int)
next
  case False
  then have "of_int \<lfloor>x\<rfloor> < x" "x < of_int \<lfloor>x\<rfloor> + 1" by linarith+
  then have "\<lfloor>- x\<rfloor> = - \<lfloor>x\<rfloor> - 1" unfolding floor_eq_iff of_int_diff of_int_minus of_int_1 by linarith
  then show ?thesis by (auto simp: round_even_def Let_def)
qed

section \<open>The binade of a number\<close>

lemma fl_exp_bounds:
  assumes "x \<noteq> 0"
  shows "2 powi (fl_exp x + 52) \<le> \<bar>x\<bar>" "\<bar>x\<bar> < 2 powi (fl_exp x + 53)"
proof -
  let ?k = "\<lfloor>log 2 \<bar>x\<bar>\<rfloor>"
  have x: "\<bar>x\<bar> = 2 powr log 2 \<bar>x\<bar>" using assms by simp
  have "2 powr of_int ?k \<le> 2 powr log 2 \<bar>x\<bar>" by (simp add: of_int_floor_le)
  then show "2 powi (fl_exp x + 52) \<le> \<bar>x\<bar>"
    using x by (simp add: fl_exp_def flip: powr_real_of_int')
  have "log 2 \<bar>x\<bar> < of_int (?k + 1)" by linarith
  then have "2 powr log 2 \<bar>x\<bar> < 2 powr of_int (?k + 1)" by simp
  then have "\<bar>x\<bar> < 2 powi (?k + 1)"
    using x powr_real_of_int' [of 2 "?k + 1"] by simp
  then show "\<bar>x\<bar> < 2 powi (fl_exp x + 53)" by (simp add: fl_exp_def add.commute)
qed

lemma powi_split: "(2 :: real) powi (e + int n) = 2 ^ n * 2 powi e"
  by (simp add: power_int_add)

lemma scaled_bounds:
  assumes "x \<noteq> 0"
  shows "2 ^ 52 \<le> \<bar>x / 2 powi fl_exp x\<bar>" "\<bar>x / 2 powi fl_exp x\<bar> < 2 ^ 53"
  using fl_exp_bounds [OF assms] powi_split [of "fl_exp x" 52] powi_split [of "fl_exp x" 53]
  by (simp_all add: abs_divide field_simps)

lemma fl_exp_mono: "x \<noteq> 0 \<Longrightarrow> \<bar>x\<bar> \<le> \<bar>y\<bar> \<Longrightarrow> fl_exp x \<le> fl_exp y"
  by (auto simp: fl_exp_def intro!: floor_mono)

lemma fl64_0 [simp]: "fl64 0 = 0"
  by (simp add: fl64_def)

lemma fl64_minus: "fl64 (- x) = - fl64 x"
  by (simp add: fl64_def fl_exp_def round_even_minus)

lemma fl64_err: "\<bar>fl64 x - x\<bar> \<le> \<bar>x\<bar> / 2 ^ 53"
proof (cases "x = 0")
  case False
  let ?p = "2 powi fl_exp x :: real"
  have p: "0 < ?p" by simp
  have "fl64 x - x = (of_int (round_even (x / ?p)) - x / ?p) * ?p"
    using False p by (simp add: fl64_def left_diff_distrib)
  then have "\<bar>fl64 x - x\<bar> = \<bar>of_int (round_even (x / ?p)) - x / ?p\<bar> * ?p"
    using p by (simp add: abs_mult)
  also have "\<dots> \<le> 1 / 2 * ?p" using round_even_near p by (intro mult_right_mono) auto
  also have "\<dots> \<le> \<bar>x\<bar> / 2 ^ 53"
    using fl_exp_bounds(1) [OF False] powi_split [of "fl_exp x" 52] by simp
  finally show ?thesis .
qed simp

lemma fl64_pos_bounds:
  assumes "0 < x"
  shows "2 powi (fl_exp x + 52) \<le> fl64 x" "fl64 x \<le> 2 powi (fl_exp x + 53)"
proof -
  let ?p = "2 powi fl_exp x :: real"
  have p: "0 < ?p" by simp
  have "of_int (2 ^ 52) \<le> x / ?p" "x / ?p \<le> of_int (2 ^ 53)"
    using scaled_bounds [of x] assms by auto
  then have "2 ^ 52 \<le> round_even (x / ?p)" "round_even (x / ?p) \<le> 2 ^ 53"
    using round_even_mono round_even_of_int by metis+
  then have "(of_int (2 ^ 52) :: real) \<le> of_int (round_even (x / ?p))"
    "of_int (round_even (x / ?p)) \<le> (of_int (2 ^ 53) :: real)"
    by (simp_all only: of_int_le_iff)
  then have "(2 ^ 52 :: real) \<le> of_int (round_even (x / ?p))" "of_int (round_even (x / ?p)) \<le> (2 ^ 53 :: real)"
    by simp_all
  with p have "2 ^ 52 * ?p \<le> of_int (round_even (x / ?p)) * ?p" "of_int (round_even (x / ?p)) * ?p \<le> 2 ^ 53 * ?p"
    by (auto intro!: mult_right_mono)
  then show "2 powi (fl_exp x + 52) \<le> fl64 x" "fl64 x \<le> 2 powi (fl_exp x + 53)"
    using assms powi_split [of "fl_exp x" 52] powi_split [of "fl_exp x" 53] by (simp_all add: fl64_def)
qed

lemma fl64_mono_pos:
  assumes "0 < x" "x \<le> y"
  shows "fl64 x \<le> fl64 y"
proof (cases "fl_exp x = fl_exp y")
  case True
  have "round_even (x / 2 powi fl_exp x) \<le> round_even (y / 2 powi fl_exp x)"
    using assms by (intro round_even_mono divide_right_mono) auto
  then show ?thesis using assms True by (simp add: fl64_def)
next
  case False
  with fl_exp_mono [of x y] assms have "fl_exp x + 53 \<le> fl_exp y + 52" by auto
  then have "(2 :: real) powi (fl_exp x + 53) \<le> 2 powi (fl_exp y + 52)"
    by (intro power_int_increasing) auto
  with fl64_pos_bounds(2) [of x] fl64_pos_bounds(1) [of y] assms show ?thesis by linarith
qed

lemma fl64_nonneg: "0 \<le> x \<Longrightarrow> 0 \<le> fl64 x"
proof (cases "x = 0")
  case False
  assume "0 \<le> x"
  with False have "2 powi (fl_exp x + 52) \<le> fl64 x" by (intro fl64_pos_bounds) auto
  moreover have "(0 :: real) < 2 powi (fl_exp x + 52)" by simp
  ultimately show ?thesis by linarith
qed simp

lemma fl64_mono: "x \<le> y \<Longrightarrow> fl64 x \<le> fl64 y"
proof -
  assume xy: "x \<le> y"
  consider "0 < x" | "y < 0" | "x \<le> 0" "0 \<le> y" by linarith
  then show ?thesis
  proof cases
    case 2
    then have "fl64 (- y) \<le> fl64 (- x)" using xy by (intro fl64_mono_pos) auto
    then show ?thesis by (simp add: fl64_minus)
  next
    case 3
    then have "0 \<le> fl64 (- x)" "0 \<le> fl64 y" by (auto intro: fl64_nonneg)
    then show ?thesis by (simp add: fl64_minus)
  qed (use xy fl64_mono_pos in blast)
qed

lemma fl64_exact:
  assumes "x = of_int m * 2 powi k" "\<bar>m\<bar> \<le> 2 ^ 53"
  shows "fl64 x = x"
proof (cases "x = 0")
  case False
  let ?e = "fl_exp x"
  have "\<exists>n. x / 2 powi ?e = of_int n"
  proof (cases "?e \<le> k")
    case True
    then have "(2 :: real) powi k / 2 powi ?e = 2 ^ nat (k - ?e)"
      by (metis power_int_def diff_ge_0_iff_ge power_int_diff zero_neq_numeral)
    then have "x / 2 powi ?e = of_int m * 2 ^ nat (k - ?e)"
      by (subst assms(1)) (simp only: times_divide_eq_right [symmetric])
    then have "x / 2 powi ?e = of_int (m * 2 ^ nat (k - ?e))" by simp
    then show ?thesis by blast
  next
    case less: False
    have "\<bar>x\<bar> \<le> 2 ^ 53 * 2 powi k"
    proof -
      have "(of_int \<bar>m\<bar> :: real) \<le> of_int (2 ^ 53)" using assms(2) by (simp only: of_int_le_iff)
      then have "\<bar>of_int m :: real\<bar> \<le> 2 ^ 53" by simp
      then show ?thesis by (simp add: assms(1) abs_mult)
    qed
    also have "\<dots> = 2 powi (k + 53)" using powi_split [of k 53] by simp
    also have "\<dots> \<le> 2 powi (?e + 52)" using less by (intro power_int_increasing) auto
    finally have "\<bar>x\<bar> = 2 powi (?e + 52)" using fl_exp_bounds(1) [OF False] by simp
    then have "\<bar>x\<bar> = 2 ^ 52 * 2 powi ?e" using powi_split [of ?e 52] by simp
    then have "\<bar>x\<bar> / 2 powi ?e = of_int (2 ^ 52)" by simp
    then have "x / 2 powi ?e = of_int (2 ^ 52) \<or> x / 2 powi ?e = of_int (- (2 ^ 52))"
      by (cases "0 \<le> x") (auto simp: minus_equation_iff)
    then show ?thesis by blast
  qed
  then obtain n where n: "x / 2 powi ?e = of_int n" ..
  then have "x = of_int n * 2 powi ?e" by (simp add: field_simps)
  with n False show ?thesis by (simp add: fl64_def)
qed simp

lemma fl64_of_int: "\<bar>n\<bar> \<le> 2 ^ 53 \<Longrightarrow> fl64 (of_int n) = of_int n"
  using fl64_exact [of "of_int n" n 0] by simp

lemma fl64_idem: "fl64 (fl64 x) = fl64 x"
proof (cases "x = 0")
  case False
  define z where "z = x / 2 powi fl_exp x"
  have "\<bar>z\<bar> < 2 ^ 53" using scaled_bounds(2) [OF False] by (simp only: z_def)
  then have "z \<le> of_int (2 ^ 53)" "of_int (- (2 ^ 53)) \<le> z" by (simp_all add: abs_less_iff)
  then have "round_even z \<le> 2 ^ 53" "- (2 ^ 53) \<le> round_even z"
    using round_even_mono round_even_of_int by metis+
  then have "\<bar>round_even (x / 2 powi fl_exp x)\<bar> \<le> 2 ^ 53" by (simp add: z_def)
  then show ?thesis using False by (intro fl64_exact [of _ "round_even (x / 2 powi fl_exp x)" "fl_exp x"]) (simp_all add: fl64_def)
qed simp

section \<open>The interface\<close>

locale float_arith =
  fixes rnd :: "real \<Rightarrow> real" and ulp :: real
  assumes rnd_mono: "x \<le> y \<Longrightarrow> rnd x \<le> rnd y"
    and rnd_of_int: "\<bar>n\<bar> \<le> 2 ^ 53 \<Longrightarrow> rnd (of_int n) = of_int n"
    and rnd_idem [simp]: "rnd (rnd x) = rnd x"
    and rnd_err: "\<bar>rnd x - x\<bar> \<le> \<bar>x\<bar> * ulp"
    and ulp_nonneg: "0 \<le> ulp"
    and ulp_small: "ulp \<le> 1 / 2 ^ 53"
begin

lemma rnd_0 [simp]: "rnd 0 = 0"
  using rnd_of_int [of 0] by simp

lemma rnd_1 [simp]: "rnd 1 = 1"
  using rnd_of_int [of 1] by simp

lemma rnd_nonneg: "0 \<le> x \<Longrightarrow> 0 \<le> rnd x"
  using rnd_mono [of 0 x] by simp

lemma rnd_ge_1: "1 \<le> x \<Longrightarrow> 1 \<le> rnd x"
  using rnd_mono [of 1 x] by simp

lemma rnd_upper: "0 \<le> x \<Longrightarrow> rnd x \<le> x * (1 + ulp)"
  using rnd_err [of x] by (simp add: algebra_simps abs_le_iff)

lemma rnd_lower: "0 \<le> x \<Longrightarrow> x * (1 - ulp) \<le> rnd x"
  using rnd_err [of x] by (simp add: algebra_simps abs_le_iff)

lemma ulp_lt_1: "ulp < 1"
  using ulp_small by simp

lemma rnd_pos: "0 < x \<Longrightarrow> 0 < rnd x"
  using rnd_lower [of x] ulp_lt_1 by (smt (verit) mult_pos_pos)

end

definition exact :: "real \<Rightarrow> real" where "exact x = x"

interpretation f64: float_arith fl64 "1 / 2 ^ 53"
  by unfold_locales (use fl64_mono fl64_of_int fl64_err fl64_idem in auto)

interpretation ideal: float_arith exact 0
  by unfold_locales (auto simp: exact_def)

section \<open>Conversions\<close>

text \<open>
  \<open>time.Duration(f)\<close> truncates towards zero; a value outside int64 is implementation-defined in
  Go, and the amd64 instruction yields the least int64.
\<close>

definition trunc_real :: "real \<Rightarrow> int" where
  "trunc_real x = (if 0 \<le> x then \<lfloor>x\<rfloor> else \<lceil>x\<rceil>)"

definition float_to_i64 :: "real \<Rightarrow> int" where
  "float_to_i64 x = (let n = trunc_real x in if - (2 ^ 63) \<le> n \<and> n < 2 ^ 63 then n else - (2 ^ 63))"

text \<open>\<open>Duration.Seconds\<close>: whole seconds plus the rest, each converted to float64.\<close>

definition dur_seconds :: "(real \<Rightarrow> real) \<Rightarrow> duration \<Rightarrow> real" where
  "dur_seconds rnd d =
     rnd (rnd (of_int (go_div d second)) + rnd (rnd (of_int (go_rem d second)) / 1000000000))"

lemma dur_seconds_exact: "dur_seconds exact d = of_int d / 1000000000"
proof -
  have "of_int d = (of_int (second * go_div d second + go_rem d second) :: real)"
    by (simp add: go_div_rem second_def)
  then show ?thesis by (simp add: dur_seconds_def exact_def second_def)
qed

end
