(* ===== verification/RateLimit.thy ===== *)
theory RateLimit
  imports ClientIp GoFloat
begin

text \<open>
  \<open>app/internal/security/rate.limit.go\<close>: the in-process token buckets.  A limiter has up to three
  rules (per client, per route, global); a request is admitted when every rule's bucket holds a
  token, and then pays all of them at once.  Buckets live in one map that is swept of full entries
  and capped by evicting an arbitrary entry.  The whole of \<open>allow\<close> after the clock is read runs
  under the mutex, so it is one function on the limiter's state; the clock is read before the lock,
  so successive calls may see times out of order.

  Parameters: \<open>rnd\<close> is the rounding of float64 arithmetic (\<open>fl64\<close>, or \<open>exact\<close> for the
  idealised arithmetic), \<open>pick\<close> the key a range over the map yields first.
\<close>

section \<open>Rules and buckets\<close>

definition maxBuckets :: nat where "maxBuckets = 100000"

record bucket =
  b_tokens :: real
  b_updated :: time
  b_fullAt :: time

record ILimit =
  l_rate :: int
  l_burst :: int
  l_key :: "request \<Rightarrow> string"

definition limiterIP :: "string \<Rightarrow> string" where
  "limiterIP value =
     (case parse_ip value of
        None \<Rightarrow> value
      | Some (IPv4 w) \<Rightarrow> ip_string (IPv4 w)
      | Some (IPv6 w) \<Rightarrow> ip_string (IPv6 (mask64 w)))"

definition rate_candidates ::
  "int \<Rightarrow> int \<Rightarrow> int \<Rightarrow> int \<Rightarrow> int \<Rightarrow> int \<Rightarrow> string \<Rightarrow> ipnet list \<Rightarrow> ILimit list" where
  "rate_candidates perIP ipBurst perRoute routeBurst global globalBurst route trusted =
     [\<lparr>l_rate = perIP, l_burst = ipBurst, l_key = (\<lambda>r. ''ip:'' @ limiterIP (GetClientIP r trusted))\<rparr>,
      \<lparr>l_rate = perRoute, l_burst = routeBurst, l_key = (\<lambda>r. ''route:'' @ route)\<rparr>,
      \<lparr>l_rate = global, l_burst = globalBurst, l_key = (\<lambda>r. ''global'')\<rparr>]"

fun active_limits :: "ILimit list \<Rightarrow> ILimit list" where
  "active_limits [] = []"
| "active_limits (c # cs) =
     (if l_rate c \<le> 0 then active_limits cs
      else (if l_burst c \<le> 0 then c\<lparr>l_burst := l_rate c\<rparr> else c) # active_limits cs)"

record limiter =
  lm_state :: "string \<rightharpoonup> bucket"
  lm_lastSweep :: time

definition new_limiter :: "time \<Rightarrow> limiter" where
  "new_limiter now = \<lparr>lm_state = Map.empty, lm_lastSweep = now\<rparr>"

section \<open>One request\<close>

definition sweep_state :: "time \<Rightarrow> (string \<rightharpoonup> bucket) \<Rightarrow> (string \<rightharpoonup> bucket)" where
  "sweep_state now state =
     (\<lambda>k. case state k of None \<Rightarrow> None | Some b \<Rightarrow> if time_after now (b_fullAt b) then None else Some b)"

definition sweep_due :: "time \<Rightarrow> limiter \<Rightarrow> bool" where
  "sweep_due now lm \<longleftrightarrow>
     second \<le> time_sub now (lm_lastSweep lm) \<and>
     (minute \<le> time_sub now (lm_lastSweep lm) \<or> maxBuckets \<le> map_len (lm_state lm))"

definition sweep_limiter :: "time \<Rightarrow> limiter \<Rightarrow> limiter" where
  "sweep_limiter now lm =
     (if sweep_due now lm then \<lparr>lm_state = sweep_state now (lm_state lm), lm_lastSweep = now\<rparr> else lm)"

definition per_second :: "(real \<Rightarrow> real) \<Rightarrow> ILimit \<Rightarrow> real" where
  "per_second rnd l = rnd (rnd (of_int (l_rate l)) / 60)"

definition capacity :: "(real \<Rightarrow> real) \<Rightarrow> ILimit \<Rightarrow> real" where
  "capacity rnd l = rnd (of_int (l_burst l))"

definition refill :: "(real \<Rightarrow> real) \<Rightarrow> time \<Rightarrow> ILimit \<Rightarrow> bucket \<Rightarrow> real" where
  "refill rnd now l b =
     min (capacity rnd l)
         (rnd (b_tokens b + rnd (dur_seconds rnd (time_sub now (b_updated b)) * per_second rnd l)))"

definition fill_time :: "(real \<Rightarrow> real) \<Rightarrow> ILimit \<Rightarrow> real \<Rightarrow> duration" where
  "fill_time rnd l tokens =
     float_to_i64 (rnd (rnd (rnd (capacity rnd l - tokens) / per_second rnd l) * 1000000000))"

text \<open>Charging one bucket: None when it holds less than a token.\<close>

definition pay :: "(real \<Rightarrow> real) \<Rightarrow> time \<Rightarrow> ILimit \<Rightarrow> bucket \<Rightarrow> bucket option" where
  "pay rnd now l b =
     (let tokens = refill rnd now l b in
      if tokens < 1 then None
      else let left = rnd (tokens - 1) in
        Some \<lparr>b_tokens = left, b_updated = now, b_fullAt = now + fill_time rnd l left\<rparr>)"

text \<open>The bucket of a key, a fresh full one when it is missing; then the map may lose an entry.\<close>

definition evict :: "((string \<rightharpoonup> bucket) \<Rightarrow> string) \<Rightarrow> (string \<rightharpoonup> bucket) \<Rightarrow> (string \<rightharpoonup> bucket)" where
  "evict pick state = (if maxBuckets \<le> map_len state then state(pick state := None) else state)"

definition fetch ::
  "(real \<Rightarrow> real) \<Rightarrow> ((string \<rightharpoonup> bucket) \<Rightarrow> string) \<Rightarrow> time \<Rightarrow> ILimit \<Rightarrow> string \<Rightarrow> (string \<rightharpoonup> bucket) \<Rightarrow>
   (string \<rightharpoonup> bucket) \<times> bucket" where
  "fetch rnd pick now l k state =
     (case state k of
        Some b \<Rightarrow> (state, b)
      | None \<Rightarrow> (evict pick state, \<lparr>b_tokens = capacity rnd l, b_updated = now, b_fullAt = 0\<rparr>))"

text \<open>The loop over the rules: the updated buckets, or None at the first empty one.\<close>

fun charge ::
  "(real \<Rightarrow> real) \<Rightarrow> ((string \<rightharpoonup> bucket) \<Rightarrow> string) \<Rightarrow> time \<Rightarrow> (ILimit \<times> string) list \<Rightarrow> (string \<rightharpoonup> bucket) \<Rightarrow>
   (string \<rightharpoonup> bucket) \<times> bucket list option" where
  "charge rnd pick now [] state = (state, Some [])"
| "charge rnd pick now ((l, k) # rest) state =
     (case fetch rnd pick now l k state of
        (state', b) \<Rightarrow>
          (case pay rnd now l b of
             None \<Rightarrow> (state', None)
           | Some b' \<Rightarrow>
               (case charge rnd pick now rest state' of
                  (state'', r) \<Rightarrow> (state'', map_option (\<lambda>bs. b' # bs) r))))"

text \<open>
  The commit writes back the arrays \<open>keys\<close> and \<open>updated\<close>, both of length 3: a limiter with fewer
  rules also writes the zero bucket under the empty key.
\<close>

definition zero_bucket :: bucket where
  "zero_bucket = \<lparr>b_tokens = 0, b_updated = 0, b_fullAt = 0\<rparr>"

definition pad3 :: "'a \<Rightarrow> 'a list \<Rightarrow> 'a list" where
  "pad3 x xs = xs @ replicate (3 - length xs) x"

fun write_back :: "(string \<times> bucket) list \<Rightarrow> (string \<rightharpoonup> bucket) \<Rightarrow> (string \<rightharpoonup> bucket)" where
  "write_back [] state = state"
| "write_back ((k, b) # rest) state = write_back rest (state(k \<mapsto> b))"

definition allow ::
  "(real \<Rightarrow> real) \<Rightarrow> ((string \<rightharpoonup> bucket) \<Rightarrow> string) \<Rightarrow> ILimit list \<Rightarrow> limiter \<Rightarrow> time \<Rightarrow> request \<Rightarrow> bool \<times> limiter" where
  "allow rnd pick limits lm now r =
     (let keys = map (\<lambda>l. l_key l r) limits;
          lm' = sweep_limiter now lm
      in case charge rnd pick now (zip limits keys) (lm_state lm') of
           (state, None) \<Rightarrow> (False, lm'\<lparr>lm_state := state\<rparr>)
         | (state, Some updated) \<Rightarrow>
             (True, lm'\<lparr>lm_state := write_back (zip (pad3 [] keys) (pad3 zero_bucket updated)) state\<rparr>))"

definition rate_limited :: response where
  "rate_limited = http_error (header_set Map.empty ''Retry-After'' ''60'') ''rate limit exceeded'' status_too_many"

definition RateLimit ::
  "(real \<Rightarrow> real) \<Rightarrow> ((string \<rightharpoonup> bucket) \<Rightarrow> string) \<Rightarrow> ILimit list \<Rightarrow> limiter \<Rightarrow> time \<Rightarrow> request \<Rightarrow> verdict \<times> limiter" where
  "RateLimit rnd pick limits lm now r =
     (if limits = [] then (Pass r, lm)
      else case allow rnd pick limits lm now r of
          (ok, lm') \<Rightarrow> (if \<not> ok then Reject rate_limited else Pass r, lm'))"

text \<open>A run over a sequence of requests, each with the time its handler read.\<close>

fun allow_run ::
  "(real \<Rightarrow> real) \<Rightarrow> ((string \<rightharpoonup> bucket) \<Rightarrow> string) \<Rightarrow> ILimit list \<Rightarrow> limiter \<Rightarrow> (time \<times> request) list \<Rightarrow> bool list \<times> limiter" where
  "allow_run rnd pick limits lm [] = ([], lm)"
| "allow_run rnd pick limits lm ((now, r) # rest) =
     (case allow rnd pick limits lm now r of
        (ok, lm') \<Rightarrow> (case allow_run rnd pick limits lm' rest of (oks, lm'') \<Rightarrow> (ok # oks, lm'')))"

section \<open>Elementary facts\<close>

lemma active_limits_pos: "l \<in> set (active_limits cs) \<Longrightarrow> 0 < l_rate l \<and> 0 < l_burst l"
  by (induction cs) (auto split: if_splits)

lemma active_limits_len: "length (active_limits cs) \<le> length cs"
  by (induction cs) auto

lemma sweep_state_sub: "sweep_state now state k = Some b \<Longrightarrow> state k = Some b"
  by (auto simp: sweep_state_def split: option.splits if_splits)

lemma evict_sub: "evict pick state k = Some b \<Longrightarrow> state k = Some b"
  by (auto simp: evict_def split: if_splits)

lemma fetch_sub: "fetch rnd pick now l k state = (state', b) \<Longrightarrow> state' j = Some c \<Longrightarrow> state j = Some c"
  by (auto simp: fetch_def split: option.splits dest: evict_sub)

lemma charge_sub:
  "charge rnd pick now lks state = (state', r) \<Longrightarrow> state' j = Some c \<Longrightarrow> state j = Some c"
proof (induction lks arbitrary: state state' r)
  case (Cons lk lks)
  obtain l k where lk: "lk = (l, k)" by fastforce
  obtain s1 b where f: "fetch rnd pick now l k state = (s1, b)" by fastforce
  obtain s2 r2 where c: "charge rnd pick now lks s1 = (s2, r2)" by fastforce
  from Cons.prems lk f c have "state' = s1 \<or> state' = s2" by (auto split: option.splits)
  with Cons.prems(2) Cons.IH [OF c] fetch_sub [OF f] show ?case by blast
qed simp

lemma charge_len: "charge rnd pick now lks state = (state', Some bs) \<Longrightarrow> length bs = length lks"
  by (induction lks arbitrary: state bs) (auto split: prod.splits option.splits)

lemma sweep_limiter_sub: "lm_state (sweep_limiter now lm) k = Some b \<Longrightarrow> lm_state lm k = Some b"
  by (auto simp: sweep_limiter_def split: if_splits dest: sweep_state_sub)

lemma write_back_other: "k \<notin> fst ` set kbs \<Longrightarrow> write_back kbs state k = state k"
  by (induction kbs arbitrary: state) auto

lemma write_back_result:
  "write_back kbs state k = Some b \<Longrightarrow> (k, b) \<in> set kbs \<or> (k \<notin> fst ` set kbs \<and> state k = Some b)"
  by (induction kbs arbitrary: state) (fastforce split: if_splits)+


text \<open>A limiter is a stage of the request path.\<close>

definition limit_stage :: "(real \<Rightarrow> real) \<Rightarrow> ((string \<rightharpoonup> bucket) \<Rightarrow> string) \<Rightarrow> ILimit list \<Rightarrow> time \<Rightarrow> limiter stage" where
  "limit_stage rnd pick limits now lm r = RateLimit rnd pick limits lm now r"

interpretation limit: stage "limit_stage rnd pick limits now" for rnd pick limits now
  by unfold_locales (auto simp: limit_stage_def RateLimit_def split: prod.splits if_splits)

text \<open>At its cap the map forgets a bucket for every new key, and the next request of the forgotten key finds a full one.\<close>

lemma evicted_starts_full:
  assumes "state k = None" "maxBuckets \<le> map_len state" "fetch rnd pick now l k state = (state', b)"
  shows "b_tokens (snd (fetch rnd pick' later l' (pick state) state')) = capacity rnd l'"
  using assms by (auto simp: fetch_def evict_def)

end
