(* ===== verification/RedisLimit.thy ===== *)
theory RedisLimit
  imports RateLimit
begin

text \<open>
  \<open>app/internal/security/redis.rate.limit.go\<close>: the rate limiter shared through Redis.  Modelled are
  the wire format of commands and replies, the connection pool, the token-bucket script that Redis
  runs, the fixed-window counter, and the two handlers with their fail-open and fail-closed behaviour.

  Parameters: what the network and Redis answer (dialling, deadlines, writes, reply lines).
\<close>

section \<open>The wire format\<close>

definition crlf :: string where "crlf = [CHR 0x0D, CHR 0x0A]"

definition resp_bulk :: "string \<Rightarrow> string" where
  "resp_bulk part = ''$'' @ itoa (int (length part)) @ crlf @ part @ crlf"

definition resp_command :: "string list \<Rightarrow> string" where
  "resp_command parts = ''*'' @ itoa (int (length parts)) @ crlf @ concat (map resp_bulk parts)"

definition send :: "string list list \<Rightarrow> string" where
  "send commands = concat (map resp_command commands)"

text \<open>\<open>reply\<close> on one line as read up to the newline; None is a read error.\<close>

datatype redis_error = ReadError | EmptyReply | RedisError string | BadInteger string | Unexpected string

definition reply :: "string option \<Rightarrow> redis_error + int" where
  "reply raw =
     (case raw of
        None \<Rightarrow> Inl ReadError
      | Some raw \<Rightarrow>
          (case trim_right_with (\<lambda>c. c = CHR 0x0D \<or> c = CHR 0x0A) raw of
             [] \<Rightarrow> Inl EmptyReply
           | c # rest \<Rightarrow>
               if c = CHR ''-'' then Inl (RedisError rest)
               else if c = CHR '':'' then
                 (case parse_int rest of None \<Rightarrow> Inl (BadInteger rest) | Some n \<Rightarrow> Inr n)
               else if c = CHR ''+'' then Inr 0
               else Inl (Unexpected (c # rest))))"

section \<open>The connection pool\<close>

text \<open>
  Connections are numbered as they are dialled; \<open>rp_open\<close> are the sockets that have been dialled and not closed, \<open>rp_pool\<close> the
  channel of idle ones.  A request takes one connection, talks, and then either puts it back (when its exchange went well
  and the channel has room) or closes it.  Which connection a request holds is no field of the limiter: it is a local
  variable of the request.
\<close>

record redis_pool =
  rp_cap :: nat
  rp_pool :: "nat list"
  rp_open :: "nat set"
  rp_next :: nat

definition NewRedisLimiter :: "nat \<Rightarrow> redis_pool" where
  "NewRedisLimiter connect = \<lparr>rp_cap = connect, rp_pool = [], rp_open = {}, rp_next = 0\<rparr>"

text \<open>One command with its reply line; the deadline and the write may fail first.\<close>

record exchange =
  ex_deadline :: bool
  ex_write :: bool
  ex_lines :: "string option list"

text \<open>The \<open>i\<close>-th line of the conversation; there is none when the peer has closed it.\<close>

definition line_at :: "nat \<Rightarrow> exchange \<Rightarrow> string option" where
  "line_at i x = (if i < length (ex_lines x) then ex_lines x ! i else None)"

definition do_command :: "exchange \<Rightarrow> redis_error + int" where
  "do_command x =
     (if \<not> ex_deadline x then Inl ReadError
      else if \<not> ex_write x then Inl ReadError
      else reply (line_at 0 x))"

definition conn_setup :: "string \<Rightarrow> int \<Rightarrow> exchange \<Rightarrow> exchange \<Rightarrow> redis_error + unit" where
  "conn_setup password database auth select =
     (case (if password \<noteq> '''' then do_command auth else Inr 0) of
        Inl e \<Rightarrow> Inl e
      | Inr _ \<Rightarrow>
          (case (if 0 < database then do_command select else Inr 0) of
             Inl e \<Rightarrow> Inl e
           | Inr _ \<Rightarrow> Inr ()))"

definition pool_close :: "nat \<Rightarrow> redis_pool \<Rightarrow> redis_pool" where
  "pool_close c p = p\<lparr>rp_open := rp_open p - {c}\<rparr>"

definition pool_acquire :: "bool \<Rightarrow> redis_error + unit \<Rightarrow> redis_pool \<Rightarrow> (redis_error + nat) \<times> redis_pool" where
  "pool_acquire dialed set_up p =
     (case rp_pool p of
        c # cs \<Rightarrow> (Inr c, p\<lparr>rp_pool := cs\<rparr>)
      | [] \<Rightarrow>
          if \<not> dialed then (Inl ReadError, p)
          else
            (let c = rp_next p; p = p\<lparr>rp_next := Suc c, rp_open := insert c (rp_open p)\<rparr> in
             (case set_up of
                Inl e \<Rightarrow> (Inl e, pool_close c p)
              | Inr _ \<Rightarrow> (Inr c, p))))"

definition pool_put :: "nat \<Rightarrow> redis_pool \<Rightarrow> redis_pool" where
  "pool_put c p = (if length (rp_pool p) < rp_cap p then p\<lparr>rp_pool := rp_pool p @ [c]\<rparr> else pool_close c p)"

text \<open>\<open>AllowTokenBucket\<close> and \<open>Allow\<close> after a connection was acquired.\<close>

definition finish_bucket :: "exchange \<Rightarrow> nat \<Rightarrow> redis_pool \<Rightarrow> (redis_error + bool) \<times> redis_pool" where
  "finish_bucket x c p =
     (case do_command x of
        Inl e \<Rightarrow> (Inl e, pool_close c p)
      | Inr result \<Rightarrow> (Inr (result = 1), pool_put c p))"

definition increment :: "exchange \<Rightarrow> redis_error + int" where
  "increment x =
     (if \<not> ex_deadline x \<or> \<not> ex_write x then Inl ReadError
      else
        (case reply (line_at 0 x) of
           Inl e \<Rightarrow> Inl e
         | Inr count \<Rightarrow> (case reply (line_at 1 x) of Inl e \<Rightarrow> Inl e | Inr _ \<Rightarrow> Inr count)))"

definition finish_window :: "int \<Rightarrow> exchange \<Rightarrow> nat \<Rightarrow> redis_pool \<Rightarrow> (redis_error + bool) \<times> redis_pool" where
  "finish_window limit x c p =
     (case increment x of
        Inl e \<Rightarrow> (Inl e, pool_close c p)
      | Inr count \<Rightarrow> (Inr (count \<le> limit), pool_put c p))"

text \<open>The two calls as a whole, for a request that meets no other between its two pool operations.\<close>

definition AllowTokenBucket ::
  "bool \<Rightarrow> redis_error + unit \<Rightarrow> exchange \<Rightarrow> redis_pool \<Rightarrow> (redis_error + bool) \<times> redis_pool" where
  "AllowTokenBucket dialed set_up x p =
     (case pool_acquire dialed set_up p of
        (Inl e, p') \<Rightarrow> (Inl e, p')
      | (Inr c, p') \<Rightarrow> finish_bucket x c p')"

definition Allow ::
  "int \<Rightarrow> bool \<Rightarrow> redis_error + unit \<Rightarrow> exchange \<Rightarrow> redis_pool \<Rightarrow> (redis_error + bool) \<times> redis_pool" where
  "Allow limit dialed set_up x p =
     (case pool_acquire dialed set_up p of
        (Inl e, p') \<Rightarrow> (Inl e, p')
      | (Inr c, p') \<Rightarrow> finish_window limit x c p')"

text \<open>
  The pool under any interleaving of requests: besides the pool, the connections the requests under way were given.  A
  request enters that list when \<open>acquire\<close> gives it a connection and leaves it when its call returns, whatever the call has
  done with the connection; the pool never looks at it.
\<close>

inductive pool_step :: "redis_pool \<times> nat list \<Rightarrow> redis_pool \<times> nat list \<Rightarrow> bool" where
  Refused: "pool_acquire dialed set_up p = (Inl e, p') \<Longrightarrow> pool_step (p, busy) (p', busy)"
| Acquired: "pool_acquire dialed set_up p = (Inr c, p') \<Longrightarrow> pool_step (p, busy) (p', c # busy)"
| Bucket: "c \<in> set busy \<Longrightarrow> finish_bucket x c p = (res, p') \<Longrightarrow> pool_step (p, busy) (p', remove1 c busy)"
| Window: "c \<in> set busy \<Longrightarrow> finish_window limit x c p = (res, p') \<Longrightarrow> pool_step (p, busy) (p', remove1 c busy)"

inductive pool_reachable :: "nat \<Rightarrow> redis_pool \<Rightarrow> nat list \<Rightarrow> bool" for connect where
  New: "pool_reachable connect (NewRedisLimiter connect) []"
| More: "pool_reachable connect p busy \<Longrightarrow> pool_step (p, busy) (p', busy') \<Longrightarrow> pool_reachable connect p' busy'"

inductive_cases pool_stepE: "pool_step (p, busy) (p', busy')"

section \<open>The script\<close>

text \<open>
  \<open>redisTokenBucketScript\<close>: the bucket of a key as the hash Redis keeps (tokens, time of the last call
  and the instant at which it expires), \<open>now\<close> from the TIME command in microseconds.  Lua numbers are
  float64, so the arithmetic is rounded by \<open>rnd\<close>; a key whose instant has come reads as missing.
\<close>

record script_bucket =
  sb_tokens :: real
  sb_updated :: real
  sb_expires :: real

definition script_live :: "real \<Rightarrow> script_bucket option \<Rightarrow> script_bucket option" where
  "script_live now ob = (case ob of None \<Rightarrow> None | Some b \<Rightarrow> if sb_expires b \<le> now then None else Some b)"

definition script_now :: "(real \<Rightarrow> real) \<Rightarrow> int \<Rightarrow> real" where
  "script_now rnd micros = rnd (of_int (micros div 1000000) + rnd (of_int (micros mod 1000000) / 1000000))"

definition script_expiry :: "(real \<Rightarrow> real) \<Rightarrow> int \<Rightarrow> int \<Rightarrow> real" where
  "script_expiry rnd rate burst = max 1 (of_int \<lceil>rnd (rnd (of_int burst * 120) / of_int rate)\<rceil>)"

definition bucket_script :: "(real \<Rightarrow> real) \<Rightarrow> int \<Rightarrow> int \<Rightarrow> int \<Rightarrow> script_bucket option \<Rightarrow> bool \<times> script_bucket option" where
  "bucket_script rnd rate burst micros ob =
     (let now = script_now rnd micros;
          per = rnd (of_int rate / 60);
          live = script_live now ob;
          tokens = (case live of Some b \<Rightarrow> sb_tokens b | None \<Rightarrow> of_int burst);
          updated = (case live of Some b \<Rightarrow> sb_updated b | None \<Rightarrow> now);
          tokens = min (of_int burst) (rnd (tokens + rnd (max 0 (rnd (now - updated)) * per)));
          allowed = (1 \<le> tokens);
          tokens = (if allowed then rnd (tokens - 1) else tokens)
      in (allowed, Some \<lparr>sb_tokens = tokens, sb_updated = now, sb_expires = now + script_expiry rnd rate burst\<rparr>))"

section \<open>The handlers\<close>

definition store_unavailable :: response where
  "store_unavailable = http_error Map.empty ''rate limit store unavailable'' status_unavailable"

text \<open>
  \<open>RedisTokenBucketRateLimit\<close>: \<open>outcome\<close> is what \<open>AllowTokenBucket\<close> returned for this request, and
  \<open>lm\<close> the state of the local limiter that stands in for Redis.
\<close>

definition local_limits :: "int \<Rightarrow> int \<Rightarrow> string \<Rightarrow> ILimit list" where
  "local_limits limit burst key = active_limits (rate_candidates 0 0 0 0 limit burst key [])"

definition RedisTokenBucketRateLimit ::
  "(real \<Rightarrow> real) \<Rightarrow> ((string \<rightharpoonup> bucket) \<Rightarrow> string) \<Rightarrow> string \<Rightarrow> int \<Rightarrow> int \<Rightarrow> string \<Rightarrow> bool \<Rightarrow> (redis_error + bool) \<Rightarrow>
   limiter \<Rightarrow> time \<Rightarrow> request \<Rightarrow> verdict \<times> limiter" where
  "RedisTokenBucketRateLimit rnd pick addr limit burst key failOpen outcome lm now r =
     (let localFallback = RateLimit rnd pick (local_limits limit burst key) lm now r in
      if trim_space addr = '''' \<or> limit \<le> 0 then localFallback
      else
        (case outcome of
           Inl e \<Rightarrow> if failOpen then localFallback else (Reject store_unavailable, lm)
         | Inr allowed \<Rightarrow> if \<not> allowed then (Reject rate_limited, lm) else (Pass r, lm)))"

text \<open>The arguments of the EVAL command; a missing burst is the rate.\<close>

definition bucket_command :: "string \<Rightarrow> string \<Rightarrow> int \<Rightarrow> int \<Rightarrow> string list" where
  "bucket_command script key limit burst =
     [''EVAL'', script, ''1'', key @ '':token-bucket'', itoa limit, itoa (if burst \<le> 0 then limit else burst)]"

definition RedisRateLimitWithFailOpen :: "string \<Rightarrow> int \<Rightarrow> bool \<Rightarrow> (redis_error + bool) \<Rightarrow> request \<Rightarrow> verdict" where
  "RedisRateLimitWithFailOpen addr limit failOpen outcome r =
     (if trim_space addr = '''' \<or> limit \<le> 0 then Pass r
      else
        (case outcome of
           Inl e \<Rightarrow> if failOpen then Pass r else Reject store_unavailable
         | Inr allowed \<Rightarrow> if \<not> allowed then Reject rate_limited else Pass r))"

definition window_commands :: "string \<Rightarrow> string list list" where
  "window_commands key = [[''INCR'', key], [''EXPIRE'', key, ''120'']]"

section \<open>Reading commands back\<close>

text \<open>How a Redis server reads one command: an array of bulk strings, each with its length.\<close>

definition read_number :: "char \<Rightarrow> string \<Rightarrow> (nat \<times> string) option" where
  "read_number c s =
     (case s of
        [] \<Rightarrow> None
      | d # ds \<Rightarrow>
          if d \<noteq> c then None
          else
            (case parse_digits 10 0 (takeWhile (\<lambda>x. x \<noteq> CHR 0x0D) ds) of
               None \<Rightarrow> None
             | Some n \<Rightarrow>
                 (let rest = dropWhile (\<lambda>x. x \<noteq> CHR 0x0D) ds in
                  if take 2 rest = crlf then Some (n, drop 2 rest) else None)))"

definition read_bulk :: "string \<Rightarrow> (string \<times> string) option" where
  "read_bulk s =
     (case read_number CHR ''$'' s of
        None \<Rightarrow> None
      | Some (n, rest) \<Rightarrow> if take 2 (drop n rest) = crlf then Some (take n rest, drop (n + 2) rest) else None)"

fun read_bulks :: "nat \<Rightarrow> string \<Rightarrow> (string list \<times> string) option" where
  "read_bulks 0 s = Some ([], s)"
| "read_bulks (Suc n) s =
     (case read_bulk s of
        None \<Rightarrow> None
      | Some (part, rest) \<Rightarrow> map_option (\<lambda>(parts, rest). (part # parts, rest)) (read_bulks n rest))"

definition read_command :: "string \<Rightarrow> (string list \<times> string) option" where
  "read_command s = (case read_number CHR ''*'' s of None \<Rightarrow> None | Some (n, rest) \<Rightarrow> read_bulks n rest)"

fun read_commands :: "nat \<Rightarrow> string \<Rightarrow> string list list option" where
  "read_commands 0 s = (if s = [] then Some [] else None)"
| "read_commands (Suc n) s =
     (case read_command s of None \<Rightarrow> None | Some (parts, rest) \<Rightarrow> map_option (\<lambda>cs. parts # cs) (read_commands n rest))"

lemma digit_char_not_cr: "d < 10 \<Longrightarrow> digit_char d \<noteq> CHR 0x0D"
proof
  assume "d < 10" "digit_char d = CHR 0x0D"
  then have "digit_val (CHR 0x0D) = Some d" using digit_val_char [of d] by simp
  then show False by (simp add: digit_val_def)
qed

lemma read_number_itoa: "read_number c (c # itoa (int n) @ crlf @ rest) = Some (n, rest)"
proof -
  have no_cr: "\<forall>x \<in> set (format_nat 10 n). x \<noteq> CHR 0x0D"
  proof
    fix x assume "x \<in> set (format_nat 10 n)"
    then obtain d where "d < 10" "x = digit_char d" using format_nat_chars [of 10 x n] by auto
    then show "x \<noteq> CHR 0x0D" using digit_char_not_cr by simp
  qed
  have "takeWhile (\<lambda>x. x \<noteq> CHR 0x0D) (format_nat 10 n @ crlf @ rest) = format_nat 10 n"
    "dropWhile (\<lambda>x. x \<noteq> CHR 0x0D) (format_nat 10 n @ crlf @ rest) = crlf @ rest"
    using no_cr by (simp_all add: takeWhile_append2 dropWhile_append2 crlf_def)
  then show ?thesis by (simp add: read_number_def itoa_def parse_format_nat crlf_def)
qed

lemma read_bulk_resp: "read_bulk (resp_bulk part @ rest) = Some (part, rest)"
  using read_number_itoa [of "CHR ''$''" "length part" "part @ crlf @ rest"]
  by (simp add: read_bulk_def resp_bulk_def crlf_def)

lemma read_bulks_resp: "read_bulks (length parts) (concat (map resp_bulk parts) @ rest) = Some (parts, rest)"
  by (induction parts) (simp_all add: read_bulk_resp)

lemma read_command_resp: "read_command (resp_command parts @ rest) = Some (parts, rest)"
  using read_number_itoa [of "CHR ''*''" "length parts" "concat (map resp_bulk parts) @ rest"]
  by (simp add: read_command_def resp_command_def read_bulks_resp)

text \<open>C37: Whatever bytes the keys and arguments hold, line breaks included, the server reads back exactly the
  commands that were sent: nothing can be injected into the stream.\<close>

theorem send_roundtrip: "read_commands (length commands) (send commands) = Some commands"
  by (induction commands) (simp_all add: send_def read_command_resp)

section \<open>The pool\<close>

definition pool_inv :: "nat \<Rightarrow> redis_pool \<Rightarrow> nat list \<Rightarrow> bool" where
  "pool_inv connect p busy \<longleftrightarrow>
     rp_cap p = connect \<and> length (rp_pool p) \<le> connect \<and> distinct (rp_pool p @ busy) \<and>
     rp_open p = set (rp_pool p @ busy) \<and> rp_open p \<subseteq> {..<rp_next p}"

lemma pool_acquire_inv:
  assumes "pool_inv connect p busy" "pool_acquire d u p = (res, p')"
  shows "pool_inv connect p' (case res of Inl e \<Rightarrow> busy | Inr c \<Rightarrow> c # busy)"
proof -
  have "rp_next p \<notin> rp_open p" using assms(1) by (auto simp: pool_inv_def)
  then show ?thesis
    using assms by (auto simp: pool_acquire_def pool_inv_def pool_close_def Let_def split: list.splits sum.splits if_splits)
qed

lemma pool_close_inv [step_inv]: "pool_inv connect p busy \<Longrightarrow> c \<in> set busy \<Longrightarrow> pool_inv connect (pool_close c p) (remove1 c busy)"
  by (auto simp: pool_inv_def pool_close_def)

lemma pool_put_inv [step_inv]: "pool_inv connect p busy \<Longrightarrow> c \<in> set busy \<Longrightarrow> pool_inv connect (pool_put c p) (remove1 c busy)"
  by (cases "length (rp_pool p) < rp_cap p") (simp add: pool_put_def pool_inv_def, auto simp: pool_put_def pool_close_inv)

lemma pool_step_inv: "pool_step (p, busy) (p', busy') \<Longrightarrow> pool_inv connect p busy \<Longrightarrow> pool_inv connect p' busy'"
  by (erule pool_stepE)
    (auto simp: step_inv finish_bucket_def finish_window_def split: sum.splits dest: pool_acquire_inv)

lemma pool_reachable_inv: "pool_reachable connect p busy \<Longrightarrow> pool_inv connect p busy"
proof (induction rule: pool_reachable.induct)
  case New
  then show ?case by (simp add: pool_inv_def NewRedisLimiter_def)
qed (rule pool_step_inv)

text \<open>C16: However requests interleave and whatever fails, the pool keeps at most \<open>connect\<close> idle connections, no connection
  serves two requests at once or is idle and in use, and the open sockets are exactly the idle ones and those of the
  requests under way: a request that returns leaves no socket behind, so without requests at most \<open>connect\<close> are open.\<close>

theorem redis_pool_no_leak:
  assumes "pool_reachable connect p busy"
  shows "length (rp_pool p) \<le> connect \<and> distinct (rp_pool p @ busy) \<and> rp_open p = set (rp_pool p) \<union> set busy \<and>
    card (rp_open p) \<le> connect + length busy"
proof -
  have inv: "pool_inv connect p busy" by (rule pool_reachable_inv [OF assms])
  then have "card (rp_open p) = length (rp_pool p @ busy)" unfolding pool_inv_def by (metis distinct_card)
  with inv show ?thesis by (simp add: pool_inv_def)
qed

lemma redis_pool_no_leak_witness:
  "\<exists>p. pool_reachable 1 p [1] \<and> rp_pool p = [] \<and> rp_next p = 2 \<and> rp_open p = {1} \<and> card (rp_open p) \<le> 1 + length [1::nat]"
proof -
  let ?failed = "\<lparr>ex_deadline = True, ex_write = False, ex_lines = []\<rparr>"
  let ?p1 = "\<lparr>rp_cap = 1, rp_pool = [], rp_open = {0}, rp_next = 1\<rparr>" and ?p2 = "\<lparr>rp_cap = 1, rp_pool = [], rp_open = {0, 1}, rp_next = 2\<rparr>"
  let ?p3 = "\<lparr>rp_cap = 1, rp_pool = [], rp_open = {1}, rp_next = 2\<rparr>"
  have acquired: "pool_acquire True (Inr ()) (NewRedisLimiter 1) = (Inr 0, ?p1)" "pool_acquire True (Inr ()) ?p1 = (Inr 1, ?p2)"
    by (simp_all add: pool_acquire_def NewRedisLimiter_def insert_commute)
  have "{0, Suc 0} - {0} = {Suc 0}" by auto
  then have failed: "finish_bucket ?failed 0 ?p2 = (Inl ReadError, ?p3)"
    by (simp add: finish_bucket_def do_command_def pool_close_def)
  have "pool_reachable 1 ?p2 [1, 0]"
    using pool_reachable.More [OF pool_reachable.More [OF pool_reachable.New pool_step.Acquired] pool_step.Acquired, OF acquired] .
  from pool_reachable.More [OF this pool_step.Bucket, OF _ failed] have r: "pool_reachable 1 ?p3 [1]" by simp
  then show ?thesis using redis_pool_no_leak [OF r] by (intro exI [of _ ?p3]) simp
qed

text \<open>When Redis cannot answer, a limiter that must fail closed refuses every request with 503 and touches
  nothing, and one that may fail open behaves as the local limiter of the same rate and burst.\<close>

theorem redis_failure:
  assumes "trim_space addr \<noteq> ''''" "0 < limit"
  shows "RedisTokenBucketRateLimit rnd pick addr limit burst key failOpen (Inl e) lm now r =
    (if failOpen then RateLimit rnd pick (local_limits limit burst key) lm now r
     else (Reject (http_error Map.empty ''rate limit store unavailable'' 503), lm))"
  using assms by (simp add: RedisTokenBucketRateLimit_def store_unavailable_def Let_def)

lemma redis_failure_witness:
  "RedisTokenBucketRateLimit fl64 (\<lambda>_. []) ''localhost:6379'' 600 500 ''leoxy:global'' False (Inl ReadError) (new_limiter 0) 0 (plain_request ''192.0.2.1:1'' Map.empty)
   = (Reject (http_error Map.empty ''rate limit store unavailable'' 503), new_limiter 0)"
proof -
  have "trim_space ''localhost:6379'' \<noteq> ''''" by code_simp
  from redis_failure [OF this, of 600 fl64 "\<lambda>_. []" 500 "''leoxy:global''" False ReadError "new_limiter 0" 0 "plain_request ''192.0.2.1:1'' Map.empty"]
  show ?thesis by simp
qed

section \<open>What the script guarantees\<close>

text \<open>A run of the script on one key, with the times Redis reads; the first argument rounds (\<open>exact\<close> does not, and ScriptBound has float64).\<close>

fun script_run :: "(real \<Rightarrow> real) \<Rightarrow> int \<Rightarrow> int \<Rightarrow> script_bucket option \<Rightarrow> int list \<Rightarrow> bool list \<times> script_bucket option" where
  "script_run rnd rate burst ob [] = ([], ob)"
| "script_run rnd rate burst ob (m # ms) =
     (case bucket_script rnd rate burst m ob of
        (ok, ob') \<Rightarrow> (case script_run rnd rate burst ob' ms of (oks, ob'') \<Rightarrow> (ok # oks, ob'')))"

lemma script_run_append:
  "script_run rnd rate burst ob (xs @ ys) =
     (case script_run rnd rate burst ob xs of (a, ob1) \<Rightarrow> case script_run rnd rate burst ob1 ys of (b, ob2) \<Rightarrow> (a @ b, ob2))"
  by (induction xs arbitrary: ob) (auto split: prod.splits)

lemma script_run_length: "length (fst (script_run rnd rate burst ob xs)) = length xs"
  by (induction xs arbitrary: ob) (auto split: prod.splits, metis fst_conv)

definition micros_time :: "int \<Rightarrow> real" where "micros_time m = of_int m / 1000000"

lemma script_now_exact: "script_now exact m = micros_time m"
proof -
  have "of_int m = (of_int (1000000 * (m div 1000000) + m mod 1000000) :: real)" by simp
  then have "(of_int m :: real) = 1000000 * of_int (m div 1000000) + of_int (m mod 1000000)" by (metis of_int_add of_int_mult of_int_numeral)
  then show ?thesis by (simp add: script_now_def exact_def micros_time_def field_simps)
qed

definition script_ok :: "int \<Rightarrow> int \<Rightarrow> real \<Rightarrow> script_bucket option \<Rightarrow> bool" where
  "script_ok rate burst now ob \<longleftrightarrow>
     (case ob of
        None \<Rightarrow> True
      | Some b \<Rightarrow> 0 \<le> sb_tokens b \<and> sb_tokens b \<le> of_int burst \<and> sb_updated b \<le> now \<and>
          sb_updated b + of_int burst * 60 / of_int rate \<le> sb_expires b)"

definition script_level :: "int \<Rightarrow> int \<Rightarrow> real \<Rightarrow> script_bucket option \<Rightarrow> real" where
  "script_level rate burst now ob =
     (case ob of None \<Rightarrow> of_int burst
      | Some b \<Rightarrow> min (of_int burst) (sb_tokens b + (now - sb_updated b) * (of_int rate / 60)))"

lemma script_level_live:
  assumes "0 < rate" "script_ok rate burst now ob"
  shows "script_level rate burst now (script_live now ob) = script_level rate burst now ob"
proof (cases ob)
  case (Some b)
  show ?thesis
  proof (cases "sb_expires b \<le> now")
    case True
    have "of_int burst * 60 / of_int rate \<le> now - sb_updated b"
      using assms(2) True by (simp add: Some script_ok_def)
    then have "of_int burst * 60 / of_int rate * (of_int rate / 60) \<le> (now - sb_updated b) * (of_int rate / 60)"
      using assms(1) by (intro mult_right_mono) simp_all
    then have "of_int burst \<le> (now - sb_updated b) * (of_int rate / 60)" using assms(1) by simp
    then show ?thesis using assms(2) True by (simp add: Some script_live_def script_level_def script_ok_def)
  qed (simp add: Some script_live_def)
qed (simp add: script_live_def)

text \<open>The script computes the level and takes a token from it when there is one.\<close>

lemma bucket_script_exact:
  assumes "0 < rate" "0 < burst" "script_ok rate burst (micros_time m) ob" "bucket_script exact rate burst m ob = (ok, ob')"
    and "x = script_level rate burst (micros_time m) ob"
  shows "0 \<le> x \<and> x \<le> of_int burst \<and> ok = (1 \<le> x) \<and> ob' = Some \<lparr>sb_tokens = (if 1 \<le> x then x - 1 else x), sb_updated = micros_time m,
    sb_expires = micros_time m + script_expiry exact rate burst\<rparr>"
proof -
  let ?now = "micros_time m"
  have live: "script_level rate burst ?now (script_live ?now ob) = x"
    using script_level_live [OF assms(1,3)] by (simp add: assms(5))
  have tokens: "min (of_int burst) ((case script_live ?now ob of Some b \<Rightarrow> sb_tokens b | None \<Rightarrow> of_int burst)
      + max 0 (?now - (case script_live ?now ob of Some b \<Rightarrow> sb_updated b | None \<Rightarrow> ?now)) * (of_int rate / 60)) = x"
    using live assms(3) by (auto simp: script_level_def script_live_def script_ok_def max_def split: option.splits if_splits)
  have x: "0 \<le> x" "x \<le> of_int burst"
    using assms(1-3) by (auto simp: assms(5) script_level_def script_ok_def split: option.splits intro!: add_nonneg_nonneg mult_nonneg_nonneg)
  then show ?thesis
    using assms(4) unfolding bucket_script_def Let_def script_now_exact exact_def [of "_ + _"] exact_def [of "_ * _"]
      exact_def [of "_ - _"] exact_def [of "_ / _"] tokens by auto
qed

lemma bucket_script_decides:
  "0 < rate \<Longrightarrow> 0 < burst \<Longrightarrow> script_ok rate burst (micros_time m) ob \<Longrightarrow> bucket_script exact rate burst m ob = (ok, ob') \<Longrightarrow>
   ok \<longleftrightarrow> 1 \<le> script_level rate burst (micros_time m) ob"
  using bucket_script_exact [OF _ _ _ _ refl] by blast

lemma bucket_script_step:
  assumes "0 < rate" "0 < burst" "script_ok rate burst (micros_time m) ob" "bucket_script exact rate burst m ob = (ok, ob')"
  shows "script_ok rate burst (micros_time m) ob' \<and>
    script_level rate burst (micros_time m) ob' + (if ok then 1 else 0) = script_level rate burst (micros_time m) ob"
proof -
  let ?now = "micros_time m"
  define x where "x = script_level rate burst ?now ob"
  have x: "0 \<le> x" "x \<le> of_int burst" and res: "ok = (1 \<le> x)"
    "ob' = Some \<lparr>sb_tokens = (if 1 \<le> x then x - 1 else x), sb_updated = ?now, sb_expires = ?now + script_expiry exact rate burst\<rparr>"
    using bucket_script_exact [OF assms x_def] by auto
  have "of_int burst * 60 / of_int rate \<le> real_of_int burst * 120 / of_int rate"
    using assms(1,2) by (intro divide_right_mono) simp_all
  also have "\<dots> \<le> script_expiry exact rate burst" by (simp add: script_expiry_def exact_def) linarith
  finally have "of_int burst * 60 / of_int rate \<le> script_expiry exact rate burst" .
  moreover have "script_level rate burst ?now ob' = (if 1 \<le> x then x - 1 else x)"
    using x by (simp add: res script_level_def)
  ultimately show ?thesis using x unfolding x_def [symmetric] by (auto simp: script_ok_def res)
qed

lemma split_interval: "(a - b) * p + (b - c) * p = (a - c) * (p :: real)"
  by (simp add: algebra_simps)

section \<open>From the script to the client\<close>

text \<open>The line Redis sends for an integer a script returns.\<close>

definition integer_reply :: "int \<Rightarrow> string" where
  "integer_reply n = '':'' @ itoa n @ crlf"

lemma reply_integer: "- (2 ^ 63) \<le> n \<Longrightarrow> n < 2 ^ 63 \<Longrightarrow> reply (Some (integer_reply n)) = Inr n"
proof -
  assume n: "- (2 ^ 63) \<le> n" "n < 2 ^ 63"
  have cr: "c \<noteq> CHR 0x0D \<and> c \<noteq> CHR 0x0A" if "c \<in> set (itoa n)" for c
  proof -
    from that consider "c = CHR ''-''" | k where "c \<in> set (format_nat 10 k)" by (auto simp: itoa_def split: if_splits)
    then show ?thesis
    proof cases
      case 2
      then obtain d where d: "d < 10" "c = digit_char d" using format_nat_chars [of 10 c k] by auto
      have "digit_val c = Some d" using digit_val_char [of d] d by simp
      then show ?thesis by (auto simp: digit_val_def)
    qed simp
  qed
  have "itoa n \<noteq> []" by (simp add: itoa_def)
  then have last: "last ('':'' @ itoa n) \<in> set (itoa n)" by simp
  have "trim_right_with (\<lambda>c. c = CHR 0x0D \<or> c = CHR 0x0A) (integer_reply n) =
      trim_right_with (\<lambda>c. c = CHR 0x0D \<or> c = CHR 0x0A) ('':'' @ itoa n)"
    by (simp add: integer_reply_def crlf_def trim_right_with_def)
  also have "\<dots> = '':'' @ itoa n" by (rule trim_right_fix) (use cr [OF last] in simp)
  finally show ?thesis using n by (simp add: reply_def parse_int_itoa)
qed

text \<open>When the exchange with Redis goes well, the client is admitted exactly when the script took a token for it, and the
  connection it used went back to the pool, or was closed when there was no room.\<close>

theorem redis_decides:
  assumes "trim_space addr \<noteq> []" "0 < limit" "bucket_script rnd limit burst micros ob = (ok, ob')"
    and "ex_lines x = [Some (integer_reply (if ok then 1 else 0))]" "ex_deadline x" "ex_write x" "fst (pool_acquire dialed set_up p) = Inr c"
  shows "fst (RedisTokenBucketRateLimit rnd' pick addr limit burst key failOpen (fst (AllowTokenBucket dialed set_up x p)) lm now r) =
      (if ok then Pass r else Reject rate_limited) \<and>
    (c \<in> set (rp_pool (snd (AllowTokenBucket dialed set_up x p))) \<or> c \<notin> rp_open (snd (AllowTokenBucket dialed set_up x p)))"
proof -
  obtain p' where acq: "pool_acquire dialed set_up p = (Inr c, p')" using assms(7) by (metis prod.collapse)
  have "do_command x = Inr (if ok then 1 else 0)"
    using assms(4-6) reply_integer [of "if ok then 1 else 0"] by (simp add: do_command_def line_at_def)
  then have "AllowTokenBucket dialed set_up x p = (Inr ok, pool_put c p')"
    by (simp add: AllowTokenBucket_def acq finish_bucket_def)
  with assms(1,2) show ?thesis
    by (auto simp: RedisTokenBucketRateLimit_def Let_def pool_put_def pool_close_def)
qed

lemma redis_decides_witness:
  "fst (RedisTokenBucketRateLimit exact (\<lambda>_. []) ''localhost:6379'' 60 1 ''leoxy:global'' False
     (fst (AllowTokenBucket True (Inr ()) \<lparr>ex_deadline = True, ex_write = True, ex_lines = [Some (integer_reply 1)]\<rparr> (NewRedisLimiter 4)))
     (new_limiter 0) 0 (plain_request ''192.0.2.1:1'' Map.empty)) = Pass (plain_request ''192.0.2.1:1'' Map.empty)"
proof -
  let ?x = "\<lparr>ex_deadline = True, ex_write = True, ex_lines = [Some (integer_reply 1)]\<rparr>"
  have addr: "trim_space ''localhost:6379'' \<noteq> []" by code_simp
  have script: "bucket_script exact 60 1 0 None = (True, Some \<lparr>sb_tokens = 0, sb_updated = 0, sb_expires = 2\<rparr>)"
    by (simp add: bucket_script_def script_live_def script_now_def script_expiry_def exact_def)
  show ?thesis
    using redis_decides [OF addr _ script, of ?x True "Inr ()" "NewRedisLimiter 4" 0]
    by (simp add: pool_acquire_def NewRedisLimiter_def)
qed

end
