(* ===== verification/LoadBalancer.thy ===== *)
theory LoadBalancer
  imports ClientIp "HOL-Library.Sublist"
begin

text \<open>
  \<open>app/internal/http_server/proxy/load_balancer.go\<close>, \<open>proxyHandler.go\<close> and \<open>shared/index.go\<close>: the HTTP
  reverse proxy of a route.  Targets are picked round robin with a 64-bit counter, skipping those
  marked down; an idempotent request that fails is tried on the other targets; the outgoing headers
  are rewritten; transport errors become gateway responses.

  Parameters: the clock (one reading per step), what each attempt of the base transport returns, whether
  the request's context has ended after an attempt, whether \<open>GetBody\<close> succeeds, the parser of package
  net/url, and the header that \<open>httputil.ReverseProxy\<close> hands to \<open>Rewrite\<close>.  \<open>None\<close> as the result of a
  pick is a panic (index out of range).
\<close>

section \<open>Targets and their health\<close>

record url =
  ur_scheme :: string
  ur_host :: string
  ur_path :: string

definition targetCooldown :: duration where "targetCooldown = 10 * second"

type_synonym target_health = "string \<rightharpoonup> time"

definition newTargetHealth :: target_health where "newTargetHealth = Map.empty"

definition targetKey :: "url \<Rightarrow> string" where
  "targetKey t = ur_scheme t @ ''://'' @ ur_host t"

definition isDown :: "time \<Rightarrow> string \<Rightarrow> target_health \<Rightarrow> bool \<times> target_health" where
  "isDown now key h =
     (case h key of
        None \<Rightarrow> (False, h)
      | Some until \<Rightarrow> if time_after now until then (False, h(key := None)) else (True, h))"

definition markDown :: "time \<Rightarrow> string \<Rightarrow> target_health \<Rightarrow> target_health" where
  "markDown now key h = h(key \<mapsto> now + targetCooldown)"

section \<open>Picking a target\<close>

text \<open>\<open>targets[int(AddUint64(counter, 1)-1)%len(targets)]\<close> for the counter before the addition.\<close>

definition target_at :: "url list \<Rightarrow> 64 word \<Rightarrow> url option" where
  "target_at targets c =
     (let i = go_rem (sint c) (int (length targets)) in
      if targets = [] \<or> i < 0 then None else Some (targets ! nat i))"

fun pick_loop :: "(nat \<Rightarrow> time) \<Rightarrow> url list \<Rightarrow> nat \<Rightarrow> nat \<Rightarrow> 64 word \<Rightarrow> target_health \<Rightarrow> (url \<times> 64 word \<times> target_health) option" where
  "pick_loop clock targets i 0 c h = map_option (\<lambda>t. (t, c + 1, h)) (target_at targets c)"
| "pick_loop clock targets i (Suc n) c h =
     (case target_at targets c of
        None \<Rightarrow> None
      | Some target \<Rightarrow>
          (case isDown (clock i) (targetKey target) h of
             (down, h') \<Rightarrow>
               if \<not> down then Some (target, c + 1, h')
               else pick_loop clock targets (Suc i) n (c + 1) h'))"

definition pickTarget :: "(nat \<Rightarrow> time) \<Rightarrow> url list \<Rightarrow> 64 word \<Rightarrow> target_health \<Rightarrow> (url \<times> 64 word \<times> target_health) option" where
  "pickTarget clock targets c h = pick_loop clock targets 0 (length targets) c h"

section \<open>Rewriting the request\<close>

definition RequestScheme :: "request \<Rightarrow> string" where
  "RequestScheme r = (if r_tls r \<noteq> None then ''https'' else ''http'')"

record outgoing =
  out_url :: url
  out_host :: string
  out_header :: header

text \<open>\<open>SetURL\<close>: the target's scheme and host, the paths joined with one slash, no Host of its own.\<close>

definition single_joining_slash :: "string \<Rightarrow> string \<Rightarrow> string" where
  "single_joining_slash a b =
     (if has_suffix a ''/'' \<and> has_prefix b ''/'' then a @ drop 1 b
      else if \<not> has_suffix a ''/'' \<and> \<not> has_prefix b ''/'' then a @ ''/'' @ b
      else a @ b)"

definition SetURL :: "url \<Rightarrow> request \<Rightarrow> header \<Rightarrow> outgoing" where
  "SetURL target r h =
     \<lparr>out_url = target\<lparr>ur_path := single_joining_slash (ur_path target) (r_path r)\<rparr>, out_host = '''', out_header = h\<rparr>"

definition proxy_client_ip :: "ipnet list \<Rightarrow> request \<Rightarrow> string" where
  "proxy_client_ip trusted r =
     (let clientIP = (if trusted \<noteq> [] then GetClientIP r trusted else r_remote r) in
      case split_host_port clientIP of Some (host, _) \<Rightarrow> host | None \<Rightarrow> clientIP)"

definition proxy_proto :: "ipnet list \<Rightarrow> request \<Rightarrow> string" where
  "proxy_proto trusted r =
     (let forwarded = header_get (r_header r) ''X-Forwarded-Proto'' in
      if trusted \<noteq> [] \<and> IsTrustedPeer r trusted \<and> (forwarded = ''http'' \<or> forwarded = ''https'') then forwarded
      else RequestScheme r)"

definition rewrite_header :: "ipnet list \<Rightarrow> bool \<Rightarrow> request \<Rightarrow> header \<Rightarrow> header" where
  "rewrite_header trusted forwardIP r h =
     (let h = header_del (header_del (header_del h ''CF-Connecting-IP'') ''X-Real-IP'') ''X-API-Key'';
          h = header_set h ''X-Forwarded-For'' (proxy_client_ip trusted r);
          h = header_set h ''X-Forwarded-Proto'' (proxy_proto trusted r);
          h = header_set h ''X-Forwarded-Host'' (r_host r)
      in if forwardIP then header_set h ''X-Real-IP'' (proxy_client_ip trusted r) else h)"

definition Rewrite ::
  "(nat \<Rightarrow> time) \<Rightarrow> url list \<Rightarrow> ipnet list \<Rightarrow> bool \<Rightarrow> request \<Rightarrow> header \<Rightarrow> 64 word \<Rightarrow> target_health \<Rightarrow>
   (outgoing \<times> 64 word \<times> target_health) option" where
  "Rewrite clock targets trusted forwardIP r base c h =
     (case pickTarget clock targets c h of
        None \<Rightarrow> None
      | Some (target, c', h') \<Rightarrow>
          Some ((SetURL target r base)\<lparr>out_header := rewrite_header trusted forwardIP r base\<rparr>, c', h'))"

section \<open>Sending it\<close>

definition RetryableMethod :: "string \<Rightarrow> bool" where
  "RetryableMethod meth = List.member [''GET'', ''HEAD'', ''OPTIONS'', ''TRACE''] meth"

datatype transport_error = Canceled | Timeout | OtherError

datatype attempt = Resp response | Fail transport_error

text \<open>What the environment answers: the \<open>n\<close>-th attempt, the context after it, the clock, \<open>GetBody\<close>.\<close>

record rt_env =
  re_base :: "nat \<Rightarrow> url \<Rightarrow> attempt"
  re_ctxEnded :: "nat \<Rightarrow> bool"
  re_clock :: "nat \<Rightarrow> time"
  re_getBody :: "(nat \<Rightarrow> bool) option"

record rt_state =
  rs_health :: target_health
  rs_tried :: "url list"

definition body_fails :: "rt_env \<Rightarrow> nat \<Rightarrow> bool" where
  "body_fails env k = (case re_getBody env of Some ok \<Rightarrow> \<not> ok k | None \<Rightarrow> False)"

text \<open>The loop over the targets; \<open>n\<close> counts the attempts made, \<open>k\<close> the readings of the clock.\<close>

fun retry_loop :: "rt_env \<Rightarrow> url \<Rightarrow> url list \<Rightarrow> nat \<Rightarrow> nat \<Rightarrow> transport_error \<Rightarrow> rt_state \<Rightarrow> attempt \<times> rt_state" where
  "retry_loop env u [] n k err s = (Fail err, s)"
| "retry_loop env u (target # targets) n k err s =
     (if ur_host target = ur_host u \<and> ur_scheme target = ur_scheme u then retry_loop env u targets n k err s
      else
        (case isDown (re_clock env k) (targetKey target) (rs_health s) of
           (down, h) \<Rightarrow>
             if down then retry_loop env u targets n (Suc k) err (s\<lparr>rs_health := h\<rparr>)
             else if body_fails env k then retry_loop env u targets n (Suc k) err (s\<lparr>rs_health := h\<rparr>)
             else
               (let dest = u\<lparr>ur_scheme := ur_scheme target, ur_host := ur_host target\<rparr>;
                    s = \<lparr>rs_health = h, rs_tried = rs_tried s @ [dest]\<rparr>
                in case re_base env n dest of
                     Resp p \<Rightarrow> (Resp p, s)
                   | Fail e \<Rightarrow>
                       if re_ctxEnded env n then (Fail e, s)
                       else retry_loop env u targets (Suc n) (Suc (Suc k)) e
                              (s\<lparr>rs_health := markDown (re_clock env (Suc k)) (targetKey target) (rs_health s)\<rparr>))))"

definition rt_retryable :: "rt_env \<Rightarrow> string \<Rightarrow> bool \<Rightarrow> bool" where
  "rt_retryable env meth has_body \<longleftrightarrow> RetryableMethod meth \<and> (\<not> has_body \<or> re_getBody env \<noteq> None)"

definition RoundTrip :: "rt_env \<Rightarrow> url list \<Rightarrow> string \<Rightarrow> bool \<Rightarrow> url \<Rightarrow> target_health \<Rightarrow> attempt \<times> rt_state" where
  "RoundTrip env targets meth has_body u h =
     (let retryable = rt_retryable env meth has_body in
      case re_base env 0 u of
        Resp p \<Rightarrow> (Resp p, \<lparr>rs_health = h, rs_tried = [u]\<rparr>)
      | Fail e \<Rightarrow>
          (let h = (if \<not> re_ctxEnded env 0 \<and> retryable then markDown (re_clock env 0) (targetKey u) h else h);
               s = \<lparr>rs_health = h, rs_tried = [u]\<rparr>
           in if length targets < 2 \<or> \<not> retryable then (Fail e, s)
              else retry_loop env u targets 1 1 e s))"

definition ErrorHandler :: "transport_error \<Rightarrow> response option" where
  "ErrorHandler err =
     (case err of
        Canceled \<Rightarrow> None
      | Timeout \<Rightarrow> Some (http_error Map.empty ''gateway timeout'' status_gateway_timeout)
      | OtherError \<Rightarrow> Some (http_error Map.empty ''bad gateway'' status_bad_gateway))"

text \<open>\<open>ParseHTTPUpstreamURL\<close>, over the parser of net/url.\<close>

definition ParseHTTPUpstreamURL :: "(string \<Rightarrow> url option) \<Rightarrow> string \<Rightarrow> string + url" where
  "ParseHTTPUpstreamURL parse v =
     (case parse (trim_space v) of
        None \<Rightarrow> Inl ''parse error''
      | Some t \<Rightarrow>
          (let target = t\<lparr>ur_scheme := to_lower (ur_scheme t)\<rparr> in
           if (ur_scheme target \<noteq> ''http'' \<and> ur_scheme target \<noteq> ''https'') \<or> ur_host target = ''''
           then Inl ''upstream URL must use http or https and include a host''
           else Inr target))"

section \<open>Laws of picking\<close>

lemma sint_small: "unat (c :: 64 word) < 2 ^ 63 \<Longrightarrow> sint c = int (unat c)"
proof -
  assume small: "unat c < 2 ^ 63"
  have "int (unat c) < int (2 ^ 63)" using small by (simp only: of_nat_less_iff)
  then have "signed_take_bit 63 (int (unat c)) = int (unat c)" 
    by (intro signed_take_bit_int_eq_self) (rule order_trans [of _ 0], simp_all)
  then show ?thesis by (simp add: sint_uint)
qed

lemma target_at_small:
  "targets \<noteq> [] \<Longrightarrow> unat c < 2 ^ 63 \<Longrightarrow> target_at targets c = Some (targets ! (unat c mod length targets))"
  by (simp add: target_at_def Let_def sint_small go_rem_nonneg nat_mod_distrib not_less)

lemma isDown_sub: "isDown now key h = (d, h') \<Longrightarrow> h' k = Some u \<Longrightarrow> h k = Some u"
  by (auto simp: isDown_def split: option.splits if_splits)

lemma isDown_dropped: "isDown now key h = (d, h') \<Longrightarrow> h k = Some u \<Longrightarrow> h' k = None \<Longrightarrow> u < now"
  by (auto simp: isDown_def time_after_def split: option.splits if_splits)

lemma isDown_up: "isDown now key h = (False, h') \<Longrightarrow> h key = Some u \<Longrightarrow> u < now"
  by (auto simp: isDown_def time_after_def split: option.splits if_splits)

lemma isDown_fst: "fst (isDown now key h) \<longleftrightarrow> (\<exists>u. h key = Some u \<and> now \<le> u)"
  by (auto simp: isDown_def time_after_def split: option.splits)

lemma unat_step: "unat (c :: 64 word) + Suc n < 2 ^ 63 \<Longrightarrow> unat (c + 1) = unat c + 1"
  by (simp add: unat_word_ariths)

text \<open>A target that stays up is found within the remaining turns.\<close>

lemma pick_loop_up:
  assumes "targets \<noteq> []" "unat c + n < 2 ^ 63"
    and "\<exists>j < n. \<forall>i u. h (targetKey (targets ! ((unat c + j) mod length targets))) = Some u \<longrightarrow> u < clock i"
  shows "\<exists>t c' h'. pick_loop clock targets i n c h = Some (t, c', h') \<and> t \<in> set targets \<and>
    (\<forall>u. h (targetKey t) = Some u \<longrightarrow> (\<exists>i. u < clock i))"
  using assms(2,3)
proof (induction n arbitrary: i c h)
  case (Suc n)
  let ?t = "targets ! (unat c mod length targets)"
  have at: "target_at targets c = Some ?t" using Suc.prems(1) by (intro target_at_small assms(1)) simp
  have mem: "?t \<in> set targets" using assms(1) by simp
  obtain d h1 where d: "isDown (clock i) (targetKey ?t) h = (d, h1)" by fastforce
  show ?case
  proof (cases d)
    case False
    then have "\<forall>u. h (targetKey ?t) = Some u \<longrightarrow> u < clock i" using d isDown_up by fastforce
    with at mem d False show ?thesis by auto
  next
    case True
    then obtain u0 where u0: "h (targetKey ?t) = Some u0" "clock i \<le> u0"
      using d isDown_fst [of "clock i" "targetKey ?t" h] by auto
    have h1: "h1 = h" using d True by (auto simp: isDown_def split: option.splits if_splits)
    obtain j where j: "j < Suc n" "\<forall>i u. h (targetKey (targets ! ((unat c + j) mod length targets))) = Some u \<longrightarrow> u < clock i"
      using Suc.prems(2) by blast
    have "j \<noteq> 0" using j(2) u0 by (metis add.right_neutral not_less)
    then obtain j' where j': "j = Suc j'" by (cases j) auto
    have step: "unat (c + 1) = unat c + 1" using Suc.prems(1) unat_step by blast
    have "\<exists>t c' h'. pick_loop clock targets (Suc i) n (c + 1) h = Some (t, c', h') \<and> t \<in> set targets \<and>
        (\<forall>u. h (targetKey t) = Some u \<longrightarrow> (\<exists>i. u < clock i))"
      using j j' Suc.prems(1) by (intro Suc.IH) (auto simp: step)
    with at d True h1 show ?thesis by simp
  qed
qed simp

lemma mod_cover: "m < n \<Longrightarrow> \<exists>j < n. (a + j) mod n = (m :: nat)"
proof -
  assume m: "m < n"
  let ?j = "(m + (n - a mod n)) mod n"
  have "(a + ?j) mod n = (a mod n + (m + (n - a mod n))) mod n" by (simp add: mod_simps)
  also have "a mod n + (m + (n - a mod n)) = m + n"
  proof -
    have "a mod n \<le> n" using m by (simp add: less_imp_le)
    then show ?thesis by simp
  qed
  finally show ?thesis using m by (intro exI [of _ ?j]) simp
qed

text \<open>C20: As long as the counter has not passed \<open>2 ^ 63\<close>, a request never goes to a target in its cooldown while
  another target of the route is up.\<close>

theorem pick_avoids_down_targets:
  assumes "unat c + length targets < 2 ^ 63" "t \<in> set targets"
    and "\<And>i u. h (targetKey t) = Some u \<Longrightarrow> u < clock i"
  shows "\<exists>t' c' h'. pickTarget clock targets c h = Some (t', c', h') \<and> t' \<in> set targets \<and>
    (\<forall>u. h (targetKey t') = Some u \<longrightarrow> (\<exists>i. u < clock i))"
proof -
  obtain m where m: "m < length targets" "targets ! m = t" using assms(2) by (auto simp: in_set_conv_nth)
  from mod_cover [OF m(1), of "unat c"] obtain j where "j < length targets" "(unat c + j) mod length targets = m" by blast
  with m(2) assms(3) have "\<exists>j < length targets. \<forall>i u. h (targetKey (targets ! ((unat c + j) mod length targets))) = Some u \<longrightarrow> u < clock i"
    by blast
  with assms(1,2) show ?thesis unfolding pickTarget_def by (intro pick_loop_up) auto
qed

lemma pick_avoids_down_targets_witness:
  "map_option fst (pickTarget (\<lambda>_. 100)
     [\<lparr>ur_scheme = ''http'', ur_host = ''a'', ur_path = ''''\<rparr>, \<lparr>ur_scheme = ''http'', ur_host = ''b'', ur_path = ''''\<rparr>] 0 [''http://a'' \<mapsto> 200])
   = Some \<lparr>ur_scheme = ''http'', ur_host = ''b'', ur_path = ''''\<rparr>"
proof -
  let ?a = "\<lparr>ur_scheme = ''http'', ur_host = ''a'', ur_path = ''''\<rparr>" and ?b = "\<lparr>ur_scheme = ''http'', ur_host = ''b'', ur_path = ''''\<rparr>"
  have "\<exists>t' c' h'. pickTarget (\<lambda>_. 100) [?a, ?b] 0 [''http://a'' \<mapsto> 200] = Some (t', c', h') \<and> t' \<in> set [?a, ?b] \<and>
      (\<forall>u. [''http://a'' \<mapsto> 200] (targetKey t') = Some u \<longrightarrow> (\<exists>i :: nat. u < (100 :: int)))"
    by (rule pick_avoids_down_targets [of 0 "[?a, ?b]" ?b]) (simp_all add: targetKey_def)
  then show ?thesis by (auto simp: targetKey_def)
qed

text \<open>While every target is up the load is spread evenly: the pick with counter \<open>c\<close> is target \<open>c mod n\<close>, and
  the counter advances by one.\<close>

theorem pick_round_robin:
  assumes "targets \<noteq> []" "unat c < 2 ^ 63" "\<And>t. t \<in> set targets \<Longrightarrow> h (targetKey t) = None"
  shows "pickTarget clock targets c h = Some (targets ! (unat c mod length targets), c + 1, h)"
proof -
  obtain n where n: "length targets = Suc n" using assms(1) by (cases targets) auto
  have "h (targetKey (targets ! (unat c mod length targets))) = None" using assms(1,3) by simp
  then show ?thesis
    unfolding pickTarget_def using target_at_small [OF assms(1,2)] by (simp add: n isDown_def)
qed

lemma pick_round_robin_witness:
  "pickTarget (\<lambda>_. 0) [\<lparr>ur_scheme = ''http'', ur_host = ''a'', ur_path = ''''\<rparr>, \<lparr>ur_scheme = ''http'', ur_host = ''b'', ur_path = ''''\<rparr>] 7 Map.empty
   = Some (\<lparr>ur_scheme = ''http'', ur_host = ''b'', ur_path = ''''\<rparr>, 8, Map.empty)"
  by (subst pick_round_robin) (simp_all add: numeral_2_eq_2 [symmetric])

text \<open>Past \<open>2 ^ 63\<close> the conversion to int is negative and the index panics.\<close>

lemma counter_overflow_panics:
  "pickTarget clock [t1, t2, t3] 0x8000000000000000 h = None"
proof -
  have "target_at [t1, t2, t3] 0x8000000000000000 = None" by code_simp
  then show ?thesis by (simp add: pickTarget_def numeral_3_eq_3)
qed

section \<open>Laws of the retry loop\<close>

text \<open>The result is that of the last attempt, and every earlier attempt failed.\<close>

definition last_attempt :: "rt_env \<Rightarrow> attempt \<Rightarrow> url list \<Rightarrow> bool" where
  "last_attempt env res tried \<longleftrightarrow>
     tried \<noteq> [] \<and> re_base env (length tried - 1) (last tried) = res \<and>
     (\<forall>i < length tried - 1. \<exists>e. re_base env i (tried ! i) = Fail e)"

lemma last_attempt_snoc:
  assumes "last_attempt env (Fail err) tried"
  shows "last_attempt env (re_base env (length tried) dest) (tried @ [dest])"
proof -
  have "\<exists>e. re_base env i ((tried @ [dest]) ! i) = Fail e" if "i < length tried" for i
  proof (cases "i < length tried - 1")
    case True
    with assms that show ?thesis by (simp add: last_attempt_def nth_append)
  next
    case False
    then have i: "i = length tried - 1" using that by simp
    have "tried \<noteq> []" "re_base env (length tried - 1) (last tried) = Fail err"
      using assms by (simp_all add: last_attempt_def)
    with i that show ?thesis by (auto simp: nth_append last_conv_nth)
  qed
  then show ?thesis by (simp add: last_attempt_def)
qed

text \<open>One turn of the loop: the target is skipped, or its attempt is the last one, or it failed and the loop goes on.\<close>

abbreviation retarget :: "url \<Rightarrow> url \<Rightarrow> url" where
  "retarget u t \<equiv> u\<lparr>ur_scheme := ur_scheme t, ur_host := ur_host t\<rparr>"

lemma isDown_map_le: "isDown now key h = (d, h') \<Longrightarrow> h' \<subseteq>\<^sub>m h"
  by (auto simp: isDown_def map_le_def split: option.splits if_splits)

lemma retry_loop_turn:
  assumes "retry_loop env u (t # ts) n k err s = (res, s')"
  obtains (Skipped) k' h where "h \<subseteq>\<^sub>m rs_health s" "retry_loop env u ts n k' err (s\<lparr>rs_health := h\<rparr>) = (res, s')"
    | (Ended) h where "\<not> (ur_host t = ur_host u \<and> ur_scheme t = ur_scheme u)" "h \<subseteq>\<^sub>m rs_health s" "res = re_base env n (retarget u t)"
        "s' = \<lparr>rs_health = h, rs_tried = rs_tried s @ [retarget u t]\<rparr>"
    | (Failed) h k' e where "\<not> (ur_host t = ur_host u \<and> ur_scheme t = ur_scheme u)" "h \<subseteq>\<^sub>m rs_health s" "re_base env n (retarget u t) = Fail e"
        "retry_loop env u ts (Suc n) (Suc k') e
           \<lparr>rs_health = markDown (re_clock env k') (targetKey t) h, rs_tried = rs_tried s @ [retarget u t]\<rparr> = (res, s')"
proof -
  obtain d h where d: "isDown (re_clock env k) (targetKey t) (rs_health s) = (d, h)" by fastforce
  note le = isDown_map_le [OF d]
  show thesis
  proof (cases "ur_host t = ur_host u \<and> ur_scheme t = ur_scheme u")
    case True
    with assms Skipped [of "rs_health s" k] show ?thesis by simp
  next
    case other: False
    show ?thesis
    proof (cases "d \<or> body_fails env k")
      case True
      with assms other d Skipped [OF le, of "Suc k"] show ?thesis by (auto split: if_splits)
    next
      case go: False
      show ?thesis
      proof (cases "re_base env n (retarget u t)")
        case (Resp p)
        with assms other d go Ended [OF other le] show ?thesis by (simp add: Let_def)
      next
        case (Fail e)
        with assms other d go Ended [OF other le] Failed [OF other le Fail, of "Suc k"] show ?thesis
          by (cases "re_ctxEnded env n") (simp_all add: Let_def)
      qed
    qed
  qed
qed

lemma retry_loop_attempts:
  assumes "last_attempt env (Fail err) (rs_tried s)" "n = length (rs_tried s)" "retry_loop env u ts n k err s = (res, s')"
  shows "last_attempt env res (rs_tried s') \<and>
    (\<exists>ts'. subseq ts' ts \<and> (\<forall>t \<in> set ts'. \<not> (ur_host t = ur_host u \<and> ur_scheme t = ur_scheme u)) \<and>
      rs_tried s' = rs_tried s @ map (retarget u) ts')"
  using assms
proof (induction ts arbitrary: n k err s)
  case Nil
  then show ?case by (intro conjI exI [of _ "[]"]) auto
next
  case (Cons t ts)
  have here: "last_attempt env (re_base env n (retarget u t)) (rs_tried s @ [retarget u t])"
    using last_attempt_snoc [OF Cons.prems(1)] Cons.prems(2) by simp
  from Cons.prems(3) show ?case
  proof (cases rule: retry_loop_turn)
    case (Skipped k' h)
    obtain ts' where "last_attempt env res (rs_tried s')" "subseq ts' ts" "\<forall>t \<in> set ts'. \<not> (ur_host t = ur_host u \<and> ur_scheme t = ur_scheme u)"
      "rs_tried s' = rs_tried s @ map (retarget u) ts'" using Cons.IH [OF _ _ Skipped(2)] Cons.prems(1,2) by auto
    then show ?thesis by (blast intro: list_emb_Cons)
  next
    case (Ended h)
    with here show ?thesis by (intro conjI exI [of _ "[t]"]) auto
  next
    case (Failed h k' e)
    from Cons.IH [OF _ _ Failed(4)] here Failed(3) Cons.prems(2) obtain ts' where
      "last_attempt env res (rs_tried s')" "subseq ts' ts" "\<forall>t \<in> set ts'. \<not> (ur_host t = ur_host u \<and> ur_scheme t = ur_scheme u)"
      "rs_tried s' = (rs_tried s @ [retarget u t]) @ map (retarget u) ts'" by fastforce
    with Failed(1) show ?thesis by (intro conjI exI [of _ "t # ts'"]) auto
  qed
qed

lemma round_trip_last:
  assumes "RoundTrip env targets meth has_body u h = (res, s)"
  shows "last_attempt env res (rs_tried s) \<and>
    (\<exists>ts. subseq ts targets \<and> (\<forall>t \<in> set ts. \<not> (ur_host t = ur_host u \<and> ur_scheme t = ur_scheme u)) \<and>
      rs_tried s = u # map (retarget u) ts) \<and>
    (\<not> rt_retryable env meth has_body \<longrightarrow> rs_tried s = [u])"
proof (cases "\<exists>e. re_base env 0 u = Fail e \<and> \<not> (length targets < 2 \<or> \<not> rt_retryable env meth has_body)")
  case False
  with assms have "res = re_base env 0 u" "rs_tried s = [u]"
    by (auto simp: RoundTrip_def Let_def split: attempt.splits if_splits)
  then show ?thesis by (auto simp: last_attempt_def intro: exI [of _ "[]"])
next
  case True
  then obtain e where e: "re_base env 0 u = Fail e" "\<not> (length targets < 2 \<or> \<not> rt_retryable env meth has_body)" by blast
  then obtain h' where loop: "retry_loop env u targets 1 1 e \<lparr>rs_health = h', rs_tried = [u]\<rparr> = (res, s)"
    using assms by (auto simp: RoundTrip_def Let_def split: if_splits)
  have "last_attempt env (Fail e) [u]" using e by (simp add: last_attempt_def)
  with retry_loop_attempts [OF _ _ loop] e(2) show ?thesis by simp
qed

text \<open>C18: What the client gets is the outcome of the last attempt and every earlier attempt failed.  The first attempt goes
  to the picked target; the further ones go, in the order of the route's list, to entries of it with another host or scheme, each
  entry at most once and the first target never again; a request that is not retryable is sent once.\<close>

theorem round_trip_attempts:
  assumes "RoundTrip env targets meth has_body u h = (res, s)"
  shows "last_attempt env res (rs_tried s) \<and>
    (\<exists>ts. subseq ts targets \<and> (\<forall>t \<in> set ts. \<not> (ur_host t = ur_host u \<and> ur_scheme t = ur_scheme u)) \<and>
      rs_tried s = u # map (retarget u) ts) \<and>
    (\<not> rt_retryable env meth has_body \<longrightarrow> rs_tried s = [u])"
  by (rule round_trip_last [OF assms])

lemma round_trip_attempts_witness:
  "let r = RoundTrip \<lparr>re_base = (\<lambda>n u. if n = 0 then Fail OtherError else Resp not_found), re_ctxEnded = (\<lambda>_. False), re_clock = int, re_getBody = None\<rparr>
       [\<lparr>ur_scheme = ''http'', ur_host = ''a'', ur_path = ''''\<rparr>, \<lparr>ur_scheme = ''http'', ur_host = ''b'', ur_path = ''''\<rparr>]
       ''POST'' True \<lparr>ur_scheme = ''http'', ur_host = ''a'', ur_path = ''/x''\<rparr> Map.empty
   in rs_tried (snd r) = [\<lparr>ur_scheme = ''http'', ur_host = ''a'', ur_path = ''/x''\<rparr>] \<and> fst r = Fail OtherError"
proof -
  let ?env = "\<lparr>re_base = (\<lambda>n u. if n = 0 then Fail OtherError else Resp not_found), re_ctxEnded = (\<lambda>_. False), re_clock = int, re_getBody = None\<rparr>"
  let ?ts = "[\<lparr>ur_scheme = ''http'', ur_host = ''a'', ur_path = ''''\<rparr>, \<lparr>ur_scheme = ''http'', ur_host = ''b'', ur_path = ''''\<rparr>]"
  let ?u = "\<lparr>ur_scheme = ''http'', ur_host = ''a'', ur_path = ''/x''\<rparr>"
  obtain res s where r: "RoundTrip ?env ?ts ''POST'' True ?u Map.empty = (res, s)" by fastforce
  have "\<not> rt_retryable ?env ''POST'' True" by (simp add: rt_retryable_def)
  with round_trip_attempts [OF r] have "rs_tried s = [?u]" "res = Fail OtherError" by (auto simp: last_attempt_def)
  then show ?thesis by (simp add: r)
qed

subsection \<open>Failover\<close>

definition http_scheme :: "url \<Rightarrow> bool" where
  "http_scheme t \<longleftrightarrow> ur_scheme t = ''http'' \<or> ur_scheme t = ''https''"

lemma targetKey_inj:
  "http_scheme t \<Longrightarrow> http_scheme t' \<Longrightarrow> targetKey t = targetKey t' \<Longrightarrow> ur_scheme t = ur_scheme t' \<and> ur_host t = ur_host t'"
  by (auto simp: http_scheme_def targetKey_def)

definition answers :: "rt_env \<Rightarrow> url \<Rightarrow> bool" where
  "answers env t \<longleftrightarrow> (\<forall>n d. ur_host d = ur_host t \<and> ur_scheme d = ur_scheme t \<longrightarrow> (\<exists>p. re_base env n d = Resp p))"

definition stays_up :: "rt_env \<Rightarrow> url \<Rightarrow> target_health \<Rightarrow> bool" where
  "stays_up env t h \<longleftrightarrow> (\<forall>k v. h (targetKey t) = Some v \<longrightarrow> v < re_clock env k)"

lemma stays_up_not_down: "stays_up env t h \<Longrightarrow> isDown (re_clock env k) (targetKey t) h = (d, h') \<Longrightarrow> \<not> d"
  using isDown_fst [of "re_clock env k" "targetKey t" h] unfolding stays_up_def by (metis fst_conv not_le)

lemma retry_loop_failover:
  assumes "t \<in> set ts" "\<forall>x \<in> set ts. http_scheme x" "ur_host t \<noteq> ur_host u \<or> ur_scheme t \<noteq> ur_scheme u"
    and "answers env t" "\<And>k. \<not> body_fails env k" "\<And>n. \<not> re_ctxEnded env n" "stays_up env t (rs_health s)"
  shows "\<exists>p s'. retry_loop env u ts n k err s = (Resp p, s')"
  using assms(1,2,7)
proof (induction ts arbitrary: n k err s)
  case (Cons x ts)
  obtain d h where d: "isDown (re_clock env k) (targetKey x) (rs_health s) = (d, h)" by fastforce
  have up: "stays_up env t h" using Cons.prems(3) isDown_sub [OF d] by (auto simp: stays_up_def)
  show ?case
  proof (cases "ur_host x = ur_host t \<and> ur_scheme x = ur_scheme t")
    case True
    then have "\<not> (ur_host x = ur_host u \<and> ur_scheme x = ur_scheme u)" using assms(3) by auto
    moreover have "targetKey x = targetKey t" using True by (simp add: targetKey_def)
    then have "\<not> d" using stays_up_not_down [OF Cons.prems(3)] d by metis
    moreover obtain p where "re_base env n (u\<lparr>ur_scheme := ur_scheme x, ur_host := ur_host x\<rparr>) = Resp p"
      using assms(4) True unfolding answers_def by (metis url.select_convs(1,2) url.surjective url.update_convs(1,2))
    ultimately show ?thesis using d assms(5) by (auto simp: Let_def)
  next
    case False
    then have "t \<noteq> x" by auto
    have t: "t \<in> set ts" "\<forall>x \<in> set ts. http_scheme x"
      using set_ConsD [OF Cons.prems(1)] \<open>t \<noteq> x\<close> Cons.prems(2) by (blast intro: list.set_intros(2))+
    have "http_scheme x" "http_scheme t" using Cons.prems(1,2) by (metis list.set_intros(1))+
    then have key: "targetKey x \<noteq> targetKey t" using False targetKey_inj by metis
    have marked: "stays_up env t (markDown v (targetKey x) h)" for v using up key by (auto simp: stays_up_def markDown_def)
    show ?thesis
    proof (cases "ur_host x = ur_host u \<and> ur_scheme x = ur_scheme u")
      case True
      with Cons.IH [OF t Cons.prems(3)] show ?thesis by simp
    next
      case other: False
      show ?thesis
      proof (cases d)
        case True
        with Cons.IH [OF t, of "s\<lparr>rs_health := h\<rparr>"] up other d show ?thesis by auto
      next
        case False
        with other d assms(5,6) show ?thesis
          using Cons.IH [OF t] marked by (auto simp: Let_def split: attempt.splits)
      qed
    qed
  qed
qed simp

text \<open>Failover: an idempotent request whose first target fails is answered as long as one other target of the
  route is up and answers, the client has not gone away and the body, if any, can be produced again.\<close>

theorem failover_succeeds:
  assumes "rt_retryable env meth has_body" "u' \<in> set targets" "ur_host u' = ur_host u" "ur_scheme u' = ur_scheme u"
    and "t \<in> set targets" "\<forall>x \<in> set targets. http_scheme x" "ur_host t \<noteq> ur_host u \<or> ur_scheme t \<noteq> ur_scheme u"
    and "answers env t" "stays_up env t h" "\<And>k. \<not> body_fails env k" "\<And>n. \<not> re_ctxEnded env n"
  shows "\<exists>p s. RoundTrip env targets meth has_body u h = (Resp p, s)"
proof (cases "re_base env 0 u")
  case (Fail e)
  have "t \<noteq> u'" using assms(3,4,7) by auto
  then have two: "\<not> length targets < 2"
    using assms(2,5) by (cases targets; cases "tl targets") auto
  have "targetKey u \<noteq> targetKey t"
  proof
    assume "targetKey u = targetKey t"
    then have "targetKey u' = targetKey t" using assms(3,4) by (simp add: targetKey_def)
    with targetKey_inj [of u' t] assms show False by auto
  qed
  then have "stays_up env t (markDown (re_clock env 0) (targetKey u) h)"
    using assms(9) by (simp add: stays_up_def markDown_def)
  then have "\<exists>p s'. retry_loop env u targets 1 1 e \<lparr>rs_health = markDown (re_clock env 0) (targetKey u) h, rs_tried = [u]\<rparr> = (Resp p, s')"
    using assms by (intro retry_loop_failover) auto
  with Fail two assms(1,11) show ?thesis by (simp add: RoundTrip_def)
qed (simp add: RoundTrip_def)

lemma failover_succeeds_witness:
  "\<exists>p s. RoundTrip \<lparr>re_base = (\<lambda>n u. if ur_host u = ''a'' then Fail Timeout else Resp not_found), re_ctxEnded = (\<lambda>_. False), re_clock = int, re_getBody = None\<rparr>
     [\<lparr>ur_scheme = ''http'', ur_host = ''a'', ur_path = ''''\<rparr>, \<lparr>ur_scheme = ''http'', ur_host = ''b'', ur_path = ''''\<rparr>]
     ''GET'' False \<lparr>ur_scheme = ''http'', ur_host = ''a'', ur_path = ''/x''\<rparr> Map.empty = (Resp p, s)"
  by (rule failover_succeeds [where u' = "\<lparr>ur_scheme = ''http'', ur_host = ''a'', ur_path = ''''\<rparr>" and t = "\<lparr>ur_scheme = ''http'', ur_host = ''b'', ur_path = ''''\<rparr>"])
    (simp_all add: rt_retryable_def RetryableMethod_def http_scheme_def answers_def stays_up_def body_fails_def)

section \<open>The forwarded headers\<close>

text \<open>C21: Whatever a client sends, the upstream sees the proxy's own forwarding headers.  X-Forwarded-For is the host of the
  client's socket, and X-Forwarded-Proto the scheme of its own connection, unless the peer is a trusted proxy: then they are
  the client \<open>GetClientIP\<close> finds, and the scheme the proxy sent when that is http or https.  X-Forwarded-Host is the host
  asked for, X-Real-IP the same client as X-Forwarded-For or absent, X-API-Key and CF-Connecting-IP are absent, and every
  other header (Authorization among them) is the one \<open>ReverseProxy\<close> handed over.\<close>

theorem forwarded_headers:
  assumes "Rewrite clock targets trusted forwardIP r base c health = Some (out, c', health')"
    and "split_host_port (remote_host r) = None"
  shows "let h = out_header out;
      behind_proxy = IsTrustedPeer r trusted;
      client = (if \<not> behind_proxy then remote_host r
        else case split_host_port (GetClientIP r trusted) of Some (host, _) \<Rightarrow> host | None \<Rightarrow> GetClientIP r trusted);
      sent = header_get (r_header r) ''X-Forwarded-Proto''
    in h ''X-Forwarded-For'' = Some [client] \<and>
      h ''X-Forwarded-Proto'' = Some [if behind_proxy \<and> sent \<in> {''http'', ''https''} then sent
        else if r_tls r = None then ''http'' else ''https''] \<and>
      h ''X-Forwarded-Host'' = Some [r_host r] \<and>
      h ''X-Real-Ip'' = (if forwardIP then Some [client] else None) \<and>
      h ''X-Api-Key'' = None \<and> h ''Cf-Connecting-Ip'' = None \<and>
      (\<forall>k. k \<notin> {''X-Forwarded-For'', ''X-Forwarded-Proto'', ''X-Forwarded-Host'', ''X-Real-Ip'', ''X-Api-Key'', ''Cf-Connecting-Ip''} \<longrightarrow>
         h k = base k)"
proof -
  have out: "out_header out = rewrite_header trusted forwardIP r base"
    using assms(1) by (auto simp: Rewrite_def split: option.splits)
  have peer: "\<not> IsTrustedPeer r []" by (simp add: IsTrustedPeer_def split: option.split)
  have client: "proxy_client_ip trusted r = (if \<not> IsTrustedPeer r trusted then remote_host r
      else case split_host_port (GetClientIP r trusted) of Some (host, _) \<Rightarrow> host | None \<Rightarrow> GetClientIP r trusted)"
    using assms(2) peer by (auto simp: proxy_client_ip_def GetClientIP_untrusted Let_def remote_host_def)
  have proto: "proxy_proto trusted r = (if IsTrustedPeer r trusted \<and> header_get (r_header r) ''X-Forwarded-Proto'' \<in> {''http'', ''https''}
      then header_get (r_header r) ''X-Forwarded-Proto'' else if r_tls r = None then ''http'' else ''https'')"
    using peer by (auto simp: proxy_proto_def RequestScheme_def Let_def)
  show ?thesis
    unfolding out rewrite_header_def Let_def header_set_def header_del_def canonical_names client proto by simp
qed

definition spoofed_request :: request where
  "spoofed_request = plain_request ''192.0.2.7:80''
     (header_set (header_set (header_set Map.empty ''X-Forwarded-For'' ''10.0.0.1'') ''X-Forwarded-Proto'' ''https'') ''X-API-Key'' ''secret'')"

lemma forwarded_headers_witness:
  "\<exists>out c' health'. Rewrite (\<lambda>_. 0) [\<lparr>ur_scheme = ''http'', ur_host = ''a'', ur_path = ''''\<rparr>] [Net4 0x0A000000 8] True spoofed_request
       (r_header spoofed_request) 0 Map.empty = Some (out, c', health') \<and>
     out_header out ''X-Forwarded-For'' = Some [''192.0.2.7''] \<and> out_header out ''X-Forwarded-Proto'' = Some [''http''] \<and>
     out_header out ''X-Real-Ip'' = Some [''192.0.2.7''] \<and> out_header out ''X-Api-Key'' = None"
proof -
  let ?a = "\<lparr>ur_scheme = ''http'', ur_host = ''a'', ur_path = ''''\<rparr>" and ?r = spoofed_request
  have pick: "pickTarget (\<lambda>_. 0) [?a] 0 Map.empty = Some (?a, 1, Map.empty)"
    using pick_round_robin [of "[?a]" 0 Map.empty "\<lambda>_. 0"] by simp
  then obtain out where out: "Rewrite (\<lambda>_. 0) [?a] [Net4 0x0A000000 8] True ?r (r_header ?r) 0 Map.empty = Some (out, 1, Map.empty)"
    by (simp add: Rewrite_def)
  have "split_host_port (remote_host ?r) = None" "\<not> IsTrustedPeer ?r [Net4 0x0A000000 8]" "remote_host ?r = ''192.0.2.7''" "r_tls ?r = None"
    by code_simp+
  with forwarded_headers [OF out] out show ?thesis by (simp add: Let_def)
qed

end
