(* ===== verification/StreamPolicy.thy ===== *)
theory StreamPolicy
  imports ClientIp
begin

text \<open>
  \<open>app/internal/http_server/shared/policy.go\<close>: the admission policy of the stream listeners.  A
  policy admits a peer by its address (deny list first, then the allow list when there is one) and
  counts the connections it has admitted per host.  The TCP and the UDP proxy use it through two
  operations, \<open>Acquire\<close> and \<open>Release\<close>; what they rely on is stated as the locale \<open>admission\<close>, which
  is interpreted here on the policy itself.
\<close>

section \<open>The policy\<close>

record stream_policy =
  sp_allow :: "ipnet list"
  sp_deny :: "ipnet list"
  sp_maxPerIP :: int
  sp_active :: "string \<rightharpoonup> int"

definition NewStreamPolicy :: "string list \<Rightarrow> string list \<Rightarrow> int \<Rightarrow> string + stream_policy" where
  "NewStreamPolicy allow deny maxPerIP =
     (case ParseCIDRs allow of
        Inl e \<Rightarrow> Inl e
      | Inr allowed \<Rightarrow>
          (case ParseCIDRs deny of
             Inl e \<Rightarrow> Inl e
           | Inr denied \<Rightarrow>
               Inr \<lparr>sp_allow = allowed, sp_deny = denied, sp_maxPerIP = maxPerIP, sp_active = Map.empty\<rparr>))"

definition addrHost :: "string \<Rightarrow> string" where
  "addrHost addr = (case split_host_port addr of None \<Rightarrow> addr | Some (host, _) \<Rightarrow> host)"

text \<open>A missing key of a Go map reads as 0.\<close>

definition active_of :: "stream_policy \<Rightarrow> string \<Rightarrow> int" where
  "active_of p host = (case sp_active p host of None \<Rightarrow> 0 | Some n \<Rightarrow> n)"

text \<open>The address test of \<open>Acquire\<close>, which needs no lock: both lists are fixed at construction.\<close>

definition peer_allowed :: "stream_policy \<Rightarrow> string \<Rightarrow> bool" where
  "peer_allowed p host =
     (case parse_ip host of
        None \<Rightarrow> False
      | Some ip \<Rightarrow>
          if contains (sp_deny p) ip then False
          else if sp_allow p \<noteq> [] \<and> \<not> contains (sp_allow p) ip then False
          else True)"

text \<open>\<open>Acquire\<close>: None is the refusal \<open>("", false)\<close>; a nil policy admits everybody.\<close>

definition acquire :: "stream_policy \<Rightarrow> string \<Rightarrow> string option \<times> stream_policy" where
  "acquire p addr =
     (let host = addrHost addr in
      if \<not> peer_allowed p host then (None, p)
      else if 0 < sp_maxPerIP p \<and> sp_maxPerIP p \<le> active_of p host then (None, p)
      else (Some host, p\<lparr>sp_active := (sp_active p)(host \<mapsto> active_of p host + 1)\<rparr>))"

fun Acquire :: "stream_policy option \<Rightarrow> string \<Rightarrow> string option \<times> stream_policy option" where
  "Acquire None addr = (Some (addrHost addr), None)"
| "Acquire (Some p) addr = (case acquire p addr of (h, p') \<Rightarrow> (h, Some p'))"

definition release :: "stream_policy \<Rightarrow> string \<Rightarrow> stream_policy" where
  "release p host =
     (if active_of p host \<le> 1 then p\<lparr>sp_active := (sp_active p)(host := None)\<rparr>
      else p\<lparr>sp_active := (sp_active p)(host \<mapsto> active_of p host - 1)\<rparr>)"

fun Release :: "stream_policy option \<Rightarrow> string \<Rightarrow> stream_policy option" where
  "Release None host = None"
| "Release (Some p) host = Some (release p host)"

section \<open>The invariant of the counters\<close>

definition policy_ok :: "stream_policy \<Rightarrow> bool" where
  "policy_ok p \<longleftrightarrow>
     finite (dom (sp_active p)) \<and>
     (\<forall>h n. sp_active p h = Some n \<longrightarrow> 1 \<le> n \<and> (0 < sp_maxPerIP p \<longrightarrow> n \<le> sp_maxPerIP p))"

definition held :: "stream_policy \<Rightarrow> string \<Rightarrow> nat" where
  "held p host = nat (active_of p host)"

definition quota :: "stream_policy \<Rightarrow> nat option" where
  "quota p = (if 0 < sp_maxPerIP p then Some (nat (sp_maxPerIP p)) else None)"

lemma active_of_nonneg: "policy_ok p \<Longrightarrow> 0 \<le> active_of p h"
  by (force simp: policy_ok_def active_of_def split: option.splits)

lemma active_of_held: "policy_ok p \<Longrightarrow> active_of p h = int (held p h)"
  using active_of_nonneg by (simp add: held_def)

lemma NewStreamPolicy_ok: "NewStreamPolicy a d m = Inr p \<Longrightarrow> policy_ok p \<and> held p h = 0"
  by (auto simp: NewStreamPolicy_def policy_ok_def held_def active_of_def split: sum.splits)

lemma acquire_ok [step_inv]: "policy_ok p \<Longrightarrow> acquire p addr = (r, p') \<Longrightarrow> policy_ok p'"
  using active_of_nonneg [of p "addrHost addr"]
  by (auto simp: acquire_def Let_def policy_ok_def split: if_splits)

lemma release_ok [step_inv]: "policy_ok p \<Longrightarrow> policy_ok (release p host)"
  by (force simp: release_def policy_ok_def active_of_def split: option.splits)

lemma acquire_None: "acquire p addr = (None, p') \<Longrightarrow> p' = p"
  by (auto simp: acquire_def Let_def split: if_splits)

lemma acquire_Some:
  assumes "policy_ok p" "acquire p addr = (Some h, p')"
  shows "held p' = (held p)(h := Suc (held p h))"
proof -
  have h: "h = addrHost addr" and p': "p' = p\<lparr>sp_active := (sp_active p)(h \<mapsto> active_of p h + 1)\<rparr>"
    using assms(2) by (auto simp: acquire_def Let_def split: if_splits)
  show ?thesis
    using active_of_nonneg [OF assms(1)]
    by (auto simp: fun_eq_iff p' held_def active_of_def nat_add_distrib split: option.splits)
qed

lemma acquire_host: "acquire p addr = (Some h, p') \<Longrightarrow> h = addrHost addr \<and> peer_allowed p h"
  by (auto simp: acquire_def Let_def split: if_splits)

lemma acquire_quota: "acquire p addr = (r, p') \<Longrightarrow> quota p' = quota p"
  by (auto simp: acquire_def Let_def quota_def split: if_splits)

lemma release_quota: "quota (release p h) = quota p"
  by (simp add: release_def quota_def)

lemma release_held: "held (release p h) = (held p)(h := held p h - 1)"
  by (auto simp: fun_eq_iff release_def held_def active_of_def nat_diff_distrib split: option.splits)

lemma held_quota: "policy_ok p \<Longrightarrow> quota p = Some n \<Longrightarrow> held p h \<le> n"
  by (force simp: policy_ok_def quota_def held_def active_of_def split: option.splits if_splits)

lemma held_maxPerIP:
  assumes "NewStreamPolicy allow deny maxPerIP = Inr p" "quota q = quota p" "policy_ok q" "0 < maxPerIP"
  shows "int (held q h) \<le> maxPerIP"
proof -
  have "quota q = Some (nat maxPerIP)"
    using assms by (auto simp: NewStreamPolicy_def quota_def split: sum.splits)
  from held_quota [OF assms(3) this, of h] assms(4) show ?thesis by linarith
qed

section \<open>The interface the stream proxies rely on\<close>

text \<open>
  A provider of admission counts, per host, what it handed out.  The client keeps its own account
  of what it holds; the lemmas of the locale say that a client which gives back exactly what it took
  stays in step with the provider, and therefore under its quota.
\<close>

locale admission =
  fixes take_slot :: "'p \<Rightarrow> 'a \<Rightarrow> 'h option \<times> 'p"
    and give_back :: "'p \<Rightarrow> 'h \<Rightarrow> 'p"
    and holding :: "'p \<Rightarrow> 'h \<Rightarrow> nat"
    and quota_of :: "'p \<Rightarrow> nat option"
    and valid :: "'p \<Rightarrow> bool"
  assumes take_valid: "valid p \<Longrightarrow> take_slot p a = (r, p') \<Longrightarrow> valid p'"
    and give_valid: "valid p \<Longrightarrow> valid (give_back p h)"
    and take_Some: "valid p \<Longrightarrow> take_slot p a = (Some h, p') \<Longrightarrow> holding p' = (holding p)(h := Suc (holding p h))"
    and take_None: "take_slot p a = (None, p') \<Longrightarrow> p' = p"
    and give_holding: "holding (give_back p h) = (holding p)(h := holding p h - 1)"
    and take_quota: "take_slot p a = (r, p') \<Longrightarrow> quota_of p' = quota_of p"
    and give_quota: "quota_of (give_back p h) = quota_of p"
    and bounded: "valid p \<Longrightarrow> quota_of p = Some n \<Longrightarrow> holding p h \<le> n"
begin

definition in_step :: "'p \<Rightarrow> ('h \<Rightarrow> nat) \<Rightarrow> bool" where
  "in_step p own \<longleftrightarrow> valid p \<and> holding p = own"

lemma in_step_take:
  "in_step p own \<Longrightarrow> take_slot p a = (Some h, p') \<Longrightarrow> in_step p' (own(h := Suc (own h)))"
  by (auto simp: in_step_def take_valid take_Some)

lemma in_step_refused: "in_step p own \<Longrightarrow> take_slot p a = (None, p') \<Longrightarrow> in_step p' own"
  using take_None by blast

lemma in_step_give: "in_step p own \<Longrightarrow> in_step (give_back p h) (own(h := own h - 1))"
  by (auto simp: in_step_def give_valid give_holding)

lemma in_step_quota: "in_step p own \<Longrightarrow> quota_of p = Some n \<Longrightarrow> own h \<le> n"
  using bounded by (auto simp: in_step_def)

lemma take_give: "valid p \<Longrightarrow> take_slot p a = (Some h, p') \<Longrightarrow> holding (give_back p' h) = holding p"
  by (simp add: give_holding take_Some fun_eq_iff)

end

interpretation sp: admission acquire release held quota policy_ok
  by unfold_locales
    (auto simp: acquire_ok release_ok acquire_Some acquire_None release_held acquire_quota release_quota held_quota
      dest: acquire_ok)

section \<open>Properties\<close>

text \<open>\<open>Acquire\<close> admits a peer exactly when its address parses, no deny network holds it, the allow
  list is empty or holds it, and the host is below its quota when there is one.\<close>

theorem acquire_decision:
  "fst (acquire p addr) =
     (case parse_ip (addrHost addr) of
        None \<Rightarrow> None
      | Some ip \<Rightarrow>
          if \<not> list_ex (\<lambda>n. net_contains n ip) (sp_deny p) \<and>
             (sp_allow p = [] \<or> list_ex (\<lambda>n. net_contains n ip) (sp_allow p)) \<and>
             \<not> (0 < sp_maxPerIP p \<and> sp_maxPerIP p \<le> active_of p (addrHost addr))
          then Some (addrHost addr) else None)"
proof -
  have c: "contains ns ip \<longleftrightarrow> list_ex (\<lambda>n. net_contains n ip) ns" for ns ip by (induction ns) auto
  show ?thesis
    by (cases "parse_ip (addrHost addr)") (simp_all add: acquire_def peer_allowed_def c Let_def)
qed

text \<open>Releasing what was just acquired restores the policy exactly: no counter is left behind and
  none is lost.\<close>

theorem acquire_release_restores:
  assumes "policy_ok p" "acquire p addr = (Some h, p')"
  shows "release p' h = p"
proof -
  have p': "p' = p\<lparr>sp_active := (sp_active p)(h \<mapsto> active_of p h + 1)\<rparr>"
    using assms(2) by (auto simp: acquire_def Let_def split: if_splits)
  have "(sp_active p)(h := (if active_of p h \<le> 0 then None else Some (active_of p h))) = sp_active p"
    using assms(1) by (force simp: fun_eq_iff policy_ok_def active_of_def split: option.splits)
  then show ?thesis
    by (auto simp: p' release_def active_of_def [of "_\<lparr>sp_active := _\<rparr>"] split: if_splits)
qed

lemma acquire_release_restores_witness:
  "release (snd (acquire \<lparr>sp_allow = [], sp_deny = [], sp_maxPerIP = 1, sp_active = Map.empty\<rparr> ''10.0.0.1:9'')) ''10.0.0.1''
     = \<lparr>sp_allow = [], sp_deny = [], sp_maxPerIP = 1, sp_active = Map.empty\<rparr>"
proof -
  let ?p = "\<lparr>sp_allow = [], sp_deny = [], sp_maxPerIP = 1, sp_active = Map.empty\<rparr>"
  have "fst (acquire ?p ''10.0.0.1:9'') = Some ''10.0.0.1''" by code_simp
  then have "acquire ?p ''10.0.0.1:9'' = (Some ''10.0.0.1'', snd (acquire ?p ''10.0.0.1:9''))"
    by (metis prod.collapse)
  moreover have "policy_ok ?p" by (simp add: policy_ok_def)
  ultimately show ?thesis by (metis acquire_release_restores)
qed

end
