(* ===== verification/Health.thy ===== *)
theory Health
  imports LoadBalancer "HOL-Library.Multiset"
begin

text \<open>
  \<open>app/internal/http_server/Health/health.go\<close>: the liveness answers and the readiness check with its
  cache.  Parameters: what each probe returns (None when the request failed, else the status code) and
  the order in which the concurrent probes of a group answer.
\<close>

definition cacheTTL :: duration where "cacheTTL = 5 * second"

definition json_header :: header where
  "json_header = header_set Map.empty ''Content-Type'' ''application/json''"

definition Ping :: response where
  "Ping = \<lparr>p_status = status_ok, p_header = json_header, p_body = ''PONG''\<rparr>"

definition status_body :: "string \<Rightarrow> string" where
  "status_body s = ''{'' @ [CHR 0x22] @ ''status'' @ [CHR 0x22] @ '':'' @ [CHR 0x22] @ s @ [CHR 0x22] @ ''}''"

definition HealthProxy :: response where
  "HealthProxy = \<lparr>p_status = status_ok, p_header = json_header, p_body = status_body ''ok''\<rparr>"

definition probe :: "(url \<Rightarrow> int option) \<Rightarrow> url \<Rightarrow> bool" where
  "probe answer target = (case answer target of None \<Rightarrow> False | Some status \<Rightarrow> status < status_internal)"

text \<open>\<open>groupReady\<close>: one result is received per target, the first positive one decides.\<close>

fun group_loop :: "bool list \<Rightarrow> bool" where
  "group_loop [] = False"
| "group_loop (r # results) = (if r then True else group_loop results)"

definition groupReady :: "(url list \<Rightarrow> url list) \<Rightarrow> (url \<Rightarrow> int option) \<Rightarrow> url list \<Rightarrow> bool" where
  "groupReady arrival answer targets = group_loop (map (probe answer) (arrival targets))"

fun groups_loop :: "(url list \<Rightarrow> url list) \<Rightarrow> (url \<Rightarrow> int option) \<Rightarrow> url list list \<Rightarrow> bool" where
  "groups_loop arrival answer [] = True"
| "groups_loop arrival answer (targets # groups) =
     (if \<not> groupReady arrival answer targets then False else groups_loop arrival answer groups)"

record readiness =
  rd_checkedAt :: time
  rd_cached :: bool

definition new_readiness :: readiness where "new_readiness = \<lparr>rd_checkedAt = 0, rd_cached = False\<rparr>"

text \<open>\<open>now\<close> is the clock at the cache test, \<open>later\<close> the clock after the probes.\<close>

definition ready ::
  "(url list \<Rightarrow> url list) \<Rightarrow> (url \<Rightarrow> int option) \<Rightarrow> url list list \<Rightarrow> time \<Rightarrow> time \<Rightarrow> readiness \<Rightarrow> bool \<times> readiness" where
  "ready arrival answer groups now later st =
     (if \<not> time_is_zero (rd_checkedAt st) \<and> time_sub now (rd_checkedAt st) < cacheTTL then (rd_cached st, st)
      else
        (let result = groups_loop arrival answer groups in
         (result, \<lparr>rd_checkedAt = later, rd_cached = result\<rparr>)))"

definition Readiness ::
  "(url list \<Rightarrow> url list) \<Rightarrow> (url \<Rightarrow> int option) \<Rightarrow> url list list \<Rightarrow> time \<Rightarrow> time \<Rightarrow> readiness \<Rightarrow> response \<times> readiness" where
  "Readiness arrival answer groups now later st =
     (case ready arrival answer groups now later st of
        (ok, st') \<Rightarrow>
          (if \<not> ok then \<lparr>p_status = status_unavailable, p_header = json_header, p_body = status_body ''unavailable'' @ [CHR 0x0A]\<rparr>
           else \<lparr>p_status = status_ok, p_header = json_header, p_body = status_body ''ok'' @ [CHR 0x0A]\<rparr>, st'))"

lemma group_loop_ex: "group_loop rs \<longleftrightarrow> True \<in> set rs"
  by (induction rs) auto

lemma groupReady_ex:
  "mset (arrival targets) = mset targets \<Longrightarrow> groupReady arrival answer targets \<longleftrightarrow> list_ex (probe answer) targets"
  by (drule mset_eq_setD) (auto simp: groupReady_def group_loop_ex list_ex_iff)

lemma groups_loop_all:
  "(\<And>targets. mset (arrival targets) = mset targets) \<Longrightarrow> groups_loop arrival answer groups = list_all (list_ex (probe answer)) groups"
  by (induction groups) (simp_all add: groupReady_ex)

section \<open>Properties\<close>

text \<open>C35: The readiness endpoint says ok exactly when every HTTP upstream has a target that answers below 500, judged
  at most \<open>cacheTTL\<close> before; the order in which the probes answer does not matter, and a route without
  valid targets makes the proxy unready.\<close>

theorem readiness_exact:
  assumes "\<And>targets. mset (arrival targets) = mset targets"
  shows "(let all_up = list_all (list_ex (probe answer)) groups;
              fresh = (rd_checkedAt st \<noteq> 0 \<and> now - rd_checkedAt st < cacheTTL)
          in p_status (fst (Readiness arrival answer groups now later st)) = (if (if fresh then rd_cached st else all_up) then 200 else 503) \<and>
             snd (Readiness arrival answer groups now later st) = (if fresh then st else \<lparr>rd_checkedAt = later, rd_cached = all_up\<rparr>))"
proof -
  have "groups_loop arrival answer groups = list_all (list_ex (probe answer)) groups"
    by (rule groups_loop_all [OF assms])
  moreover have "time_sub now (rd_checkedAt st) < cacheTTL \<longleftrightarrow> now - rd_checkedAt st < cacheTTL"
    by (rule time_sub_less_iff) (simp_all add: cacheTTL_def second_def)
  ultimately show ?thesis by (simp add: Readiness_def ready_def time_is_zero_def Let_def)
qed

lemma readiness_exact_witness:
  "p_status (fst (Readiness rev (\<lambda>t. if ur_host t = ''b'' then Some 204 else None)
     [[\<lparr>ur_scheme = ''http'', ur_host = ''a'', ur_path = ''''\<rparr>, \<lparr>ur_scheme = ''http'', ur_host = ''b'', ur_path = ''''\<rparr>]] 10 20 new_readiness)) = 200"
  using readiness_exact [of rev "\<lambda>t. if ur_host t = ''b'' then Some 204 else None"
    "[[\<lparr>ur_scheme = ''http'', ur_host = ''a'', ur_path = ''''\<rparr>, \<lparr>ur_scheme = ''http'', ur_host = ''b'', ur_path = ''''\<rparr>]]" new_readiness 10 20]
  by (simp add: new_readiness_def probe_def)

end
