(* ===== verification/Logger.thy ===== *)
theory Logger
  imports ClientIp GoPath
begin

text \<open>
  \<open>app/internal/common/logger.go\<close>: the request logger around the whole server.  Modelled are the
  status recorder, the request identifiers, the choice of what is logged where, and the log files
  with their rotation.  An entry is the record of its fields; its JSON text is not modelled, only its length.
\<close>

section \<open>The recorded status\<close>

text \<open>What a handler does with its ResponseWriter.\<close>

datatype writer_op = WriteHeader int | WriteBody | Flush

fun status_writer :: "int \<Rightarrow> writer_op \<Rightarrow> int" where
  "status_writer status (WriteHeader s) = s"
| "status_writer status WriteBody = (if status = 0 then status_ok else status)"
| "status_writer status Flush = (if status = 0 then status_ok else status)"

definition recorded_status :: "writer_op list \<Rightarrow> int" where
  "recorded_status ops = (let status = foldl status_writer 0 ops in if status = 0 then status_ok else status)"

text \<open>What net/http sends: the first call decides, later WriteHeader calls are superfluous.\<close>

fun sent_status :: "writer_op list \<Rightarrow> int" where
  "sent_status [] = status_ok"
| "sent_status (WriteHeader s # ops) = s"
| "sent_status (_ # ops) = status_ok"

section \<open>Request identifiers\<close>

definition maxRequestIDLength :: nat where "maxRequestIDLength = 64"

definition id_byte :: "char \<Rightarrow> bool" where
  "id_byte c \<longleftrightarrow> (let n = (of_char c :: nat) in
     (97 \<le> n \<and> n \<le> 122) \<or> (65 \<le> n \<and> n \<le> 90) \<or> (48 \<le> n \<and> n \<le> 57) \<or> c = CHR ''-'' \<or> c = CHR ''_'' \<or> c = CHR ''.'')"

definition validRequestID :: "string \<Rightarrow> bool" where
  "validRequestID v = (if v = '''' \<or> maxRequestIDLength < length v then False else list_all id_byte v)"

definition newRequestID :: "64 word \<Rightarrow> string \<times> 64 word" where
  "newRequestID seq = (format_nat 36 (unat (seq + 1)), seq + 1)"

definition request_id :: "64 word \<Rightarrow> request \<Rightarrow> string \<times> 64 word" where
  "request_id seq r =
     (let requestID = trim_space (header_get (r_header r) ''X-Request-ID'') in
      if \<not> validRequestID requestID then newRequestID seq else (requestID, seq))"

section \<open>Skipped paths\<close>

definition skipLogging :: "string \<Rightarrow> string list \<Rightarrow> bool" where
  "skipLogging v prefs =
     (if prefs = [] then False
      else (let cleaned = path_clean v in
        list_ex (\<lambda>prefix. cleaned = prefix \<or> has_prefix cleaned (prefix @ ''/'')) prefs))"

fun normalizeSkipPaths :: "string list \<Rightarrow> string list" where
  "normalizeSkipPaths [] = []"
| "normalizeSkipPaths (v # vs) =
     (let v = trim_space v in
      if v = '''' then normalizeSkipPaths vs
      else
        (let v = (if \<not> has_prefix v ''/'' then ''/'' @ v else v);
             cleaned = path_clean v
         in if cleaned \<noteq> ''/'' then cleaned # normalizeSkipPaths vs else normalizeSkipPaths vs))"

section \<open>Log files\<close>

definition maxLogBytes :: int where "maxLogBytes = push_bit 20 50"

text \<open>\<open>lf_disk\<close> is the size of the file at the path, \<open>lf_old\<close> that of the rotated one.\<close>

record log_file =
  lf_open :: bool
  lf_size :: int
  lf_disk :: int
  lf_old :: "int option"

text \<open>The answers of the file system during one write: opening (twice at most), Stat, Rename, and how many bytes
  of the line were written and whether an error came with it.\<close>

record log_env =
  le_open1 :: bool
  le_open2 :: bool
  le_stat :: bool
  le_rename :: bool
  le_written :: int
  le_failed :: bool

definition log_open :: "bool \<Rightarrow> bool \<Rightarrow> log_file \<Rightarrow> bool \<times> log_file" where
  "log_open ok stat l =
     (if \<not> ok then (False, l)
      else (True, l\<lparr>lf_open := True, lf_size := (if stat then lf_disk l else 0)\<rparr>))"

definition log_rotate :: "log_env \<Rightarrow> log_file \<Rightarrow> bool \<times> log_file" where
  "log_rotate e l =
     (let l = l\<lparr>lf_open := False\<rparr>;
          l = (if le_rename e then l\<lparr>lf_disk := 0, lf_old := Some (lf_disk l)\<rparr> else l)
      in log_open (le_open2 e) (le_stat e) l)"

definition log_append :: "log_env \<Rightarrow> log_file \<Rightarrow> log_file" where
  "log_append e l =
     (let l = l\<lparr>lf_size := lf_size l + le_written e, lf_disk := lf_disk l + le_written e\<rparr>
      in if le_failed e then l\<lparr>lf_open := False\<rparr> else l)"

definition log_write :: "log_env \<Rightarrow> log_file \<Rightarrow> log_file" where
  "log_write e l =
     (case (if lf_open l then (True, l) else log_open (le_open1 e) (le_stat e) l) of
        (False, l) \<Rightarrow> l
      | (True, l) \<Rightarrow>
          (if maxLogBytes \<le> lf_size l then
             (case log_rotate e l of (False, l) \<Rightarrow> l | (True, l) \<Rightarrow> log_append e l)
           else log_append e l))"

definition log_close :: "log_file \<Rightarrow> log_file" where
  "log_close l = l\<lparr>lf_open := False\<rparr>"

record request_logger =
  rl_request :: log_file
  rl_failed :: log_file
  rl_closed :: bool

definition logger_write :: "log_env \<Rightarrow> log_env \<Rightarrow> bool \<Rightarrow> request_logger \<Rightarrow> request_logger" where
  "logger_write e1 e2 isError l =
     (if rl_closed l then l
      else
        (let l = l\<lparr>rl_request := log_write e1 (rl_request l)\<rparr> in
         if isError then l\<lparr>rl_failed := log_write e2 (rl_failed l)\<rparr> else l))"

definition logger_close :: "request_logger \<Rightarrow> request_logger" where
  "logger_close l = l\<lparr>rl_closed := True, rl_request := log_close (rl_request l), rl_failed := log_close (rl_failed l)\<rparr>"

text \<open>\<open>RequestLoggerWithSkip\<close>: the directory from the environment, the two files in it, which may exist from an earlier
  run with the given sizes, and the prepared skip list.  None is the fatal error of a directory that cannot be made.\<close>

record logger_handler =
  lh_next :: "request \<Rightarrow> writer_op list"
  lh_paths :: "string \<times> string"
  lh_logger :: request_logger
  lh_trusted :: "ipnet list"
  lh_skipPaths :: "string list"

definition log_dir :: "string \<Rightarrow> string" where
  "log_dir env = (if env = '''' then ''log'' else env)"

definition closed_log :: "int \<Rightarrow> int option \<Rightarrow> log_file" where
  "closed_log disk old = \<lparr>lf_open = False, lf_size = 0, lf_disk = disk, lf_old = old\<rparr>"

definition RequestLoggerWithSkip ::
  "string \<Rightarrow> bool \<Rightarrow> log_file \<Rightarrow> log_file \<Rightarrow> (request \<Rightarrow> writer_op list) \<Rightarrow> ipnet list \<Rightarrow> string list \<Rightarrow> logger_handler option" where
  "RequestLoggerWithSkip env made request failed next_handler trusted skipPaths =
     (let dir = log_dir env in
      if \<not> made then None
      else Some \<lparr>lh_next = next_handler, lh_paths = (path_clean (dir @ ''/request.log''), path_clean (dir @ ''/error.log'')),
        lh_logger = \<lparr>rl_request = request, rl_failed = failed, rl_closed = False\<rparr>, lh_trusted = trusted,
        lh_skipPaths = normalizeSkipPaths skipPaths\<rparr>)"

section \<open>The handler\<close>

record log_entry =
  en_method :: string
  en_path :: string
  en_remote :: string
  en_status :: int
  en_duration_ms :: int
  en_request_id :: string
  en_error :: bool

definition logEntry :: "request \<Rightarrow> int \<Rightarrow> duration \<Rightarrow> ipnet list \<Rightarrow> log_entry" where
  "logEntry r status d trusted =
     \<lparr>en_method = r_method r, en_path = r_path r, en_remote = GetClientIP r trusted, en_status = status,
      en_duration_ms = go_div d millisecond, en_request_id = header_get (r_header r) ''X-Request-ID'',
      en_error = (status_bad_request \<le> status)\<rparr>"

text \<open>\<open>ServeHTTP\<close>: the request the next handler gets, the identifier in the response, the next sequence
  number and the entry that is logged.\<close>

definition log_request :: "logger_handler \<Rightarrow> duration \<Rightarrow> 64 word \<Rightarrow> request \<Rightarrow> request \<times> string \<times> 64 word \<times> log_entry option" where
  "log_request h d seq r =
     (case request_id seq r of
        (requestID, seq') \<Rightarrow>
          (let r' = r\<lparr>r_header := header_set (r_header r) ''X-Request-ID'' requestID\<rparr>;
               status = recorded_status (lh_next h r')
           in (r', requestID, seq',
               if status < status_bad_request \<and> skipLogging (r_path r') (lh_skipPaths h) then None
               else Some (logEntry r' status d (lh_trusted h)))))"

section \<open>Laws\<close>

lemma id_byte_digit: "d < 36 \<Longrightarrow> id_byte (digit_char d)"
  by (simp add: id_byte_def digit_char_def Let_def)

lemma newRequestID_valid: "validRequestID (fst (newRequestID seq))"
proof -
  have "unat (seq + 1) < 2 ^ LENGTH(64)" by (rule unsigned_less)
  then have "length (format_nat 36 (unat (seq + 1))) \<le> 13" by (intro format_nat_length) simp_all
  moreover have "list_all id_byte (format_nat 36 (unat (seq + 1)))"
    using format_nat_chars [of 36 _ "unat (seq + 1)"] id_byte_digit by (fastforce simp: list_all_iff)
  ultimately show ?thesis by (simp add: validRequestID_def newRequestID_def maxRequestIDLength_def)
qed

lemma recorded_after_first: "s \<noteq> 0 \<Longrightarrow> \<forall>op \<in> set ops. \<not> (\<exists>c. op = WriteHeader c) \<Longrightarrow> foldl status_writer s ops = s"
proof (induction ops)
  case (Cons op ops)
  then show ?case by (cases op) auto
qed simp

definition log_sound :: "log_file \<Rightarrow> bool" where
  "log_sound l \<longleftrightarrow> 0 \<le> lf_disk l \<and> (lf_open l \<longrightarrow> lf_size l = lf_disk l)"

section \<open>Properties\<close>

text \<open>Every request carries a valid identifier of at most 64 safe bytes from the logger on: the client's own when
  it is valid, otherwise a fresh one, and fresh ones repeat only after \<open>2 ^ 64\<close> requests.\<close>

theorem request_ids:
  "validRequestID (fst (request_id seq r)) \<and>
   (validRequestID (trim_space (header_get (r_header r) ''X-Request-ID'')) \<longrightarrow>
      request_id seq r = (trim_space (header_get (r_header r) ''X-Request-ID''), seq)) \<and>
   (fst (newRequestID seq) = fst (newRequestID seq') \<longrightarrow> seq = seq')"
proof -
  have "seq = seq'" if "fst (newRequestID seq) = fst (newRequestID seq')"
  proof -
    have "unat (seq + 1) = unat (seq' + 1)" using that format_nat_inj [of 36] by (simp add: newRequestID_def)
    then have "(of_nat (unat (seq + 1)) :: 64 word) = of_nat (unat (seq' + 1))" by simp
    then show ?thesis by simp
  qed
  then show ?thesis using newRequestID_valid [of seq] by (auto simp: request_id_def Let_def)
qed

lemma request_ids_witness:
  "request_id 7 (plain_request ''192.0.2.1:1'' (header_set Map.empty ''X-Request-ID'' ''abc-1'')) = (''abc-1'', 7) \<and>
   fst (request_id 35 (plain_request ''192.0.2.1:1'' Map.empty)) = ''10''"
proof -
  let ?r = "plain_request ''192.0.2.1:1'' (header_set Map.empty ''X-Request-ID'' ''abc-1'')"
  have "trim_space (header_get (r_header ?r) ''X-Request-ID'') = ''abc-1''" "validRequestID ''abc-1''"
    "fst (request_id 35 (plain_request ''192.0.2.1:1'' Map.empty)) = ''10''" by code_simp+
  with request_ids [of 7 ?r 0] show ?thesis by simp
qed

text \<open>An error is always logged, a success is left out exactly when its cleaned path is a skip path or below one;
  the entry carries the identifier the upstream saw and the client address as the access control sees it.\<close>

theorem logging_decision:
  "(case log_request h d seq r of
      (r', requestID, seq', entry) \<Rightarrow>
        header_get (r_header r') ''X-Request-ID'' = requestID \<and>
        (case entry of
           None \<Rightarrow> recorded_status (lh_next h r') < 400 \<and>
             list_ex (\<lambda>p. path_clean (r_path r) = p \<or> (\<exists>rest. path_clean (r_path r) = p @ ''/'' @ rest)) (lh_skipPaths h)
         | Some e \<Rightarrow> en_request_id e = requestID \<and> en_status e = recorded_status (lh_next h r') \<and>
             en_remote e = GetClientIP r' (lh_trusted h) \<and> en_error e = (400 \<le> recorded_status (lh_next h r'))))"
proof -
  obtain rid seq' where rid: "request_id seq r = (rid, seq')" by fastforce
  have skip: "skipLogging (r_path r) (lh_skipPaths h) \<Longrightarrow>
      list_ex (\<lambda>p. path_clean (r_path r) = p \<or> (\<exists>rest. path_clean (r_path r) = p @ ''/'' @ rest)) (lh_skipPaths h)"
    by (auto simp: skipLogging_def Let_def list_ex_iff has_prefix_iff split: if_splits)
  show ?thesis using skip by (simp add: log_request_def rid Let_def header_get_set logEntry_def)
qed

text \<open>Rotation bounds a log file: as long as renaming works, a file that was smaller than the limit plus one line stays so,
  and the size the logger tracks is the size on disk.\<close>

theorem log_file_bounded:
  assumes "log_sound l" "lf_disk l < maxLogBytes + n" "le_stat e" "le_rename e" "0 \<le> le_written e" "le_written e \<le> n"
  shows "log_sound (log_write e l) \<and> lf_disk (log_write e l) < maxLogBytes + n"
  using assms
  by (auto simp: log_write_def log_open_def log_rotate_def log_append_def log_sound_def Let_def maxLogBytes_def split: if_splits)

lemma log_file_bounded_witness:
  "lf_disk (log_write \<lparr>le_open1 = True, le_open2 = True, le_stat = True, le_rename = True, le_written = 80, le_failed = False\<rparr>
     \<lparr>lf_open = True, lf_size = maxLogBytes + 5, lf_disk = maxLogBytes + 5, lf_old = None\<rparr>) < maxLogBytes + 100"
  using log_file_bounded [of "\<lparr>lf_open = True, lf_size = maxLogBytes + 5, lf_disk = maxLogBytes + 5, lf_old = None\<rparr>" 100
    "\<lparr>le_open1 = True, le_open2 = True, le_stat = True, le_rename = True, le_written = 80, le_failed = False\<rparr>"]
  by (simp add: log_sound_def maxLogBytes_def)

text \<open>The same for both files and what they were rotated to, over all writes of a run.\<close>

definition small_log :: "int \<Rightarrow> log_file \<Rightarrow> bool" where
  "small_log n l \<longleftrightarrow> log_sound l \<and> lf_disk l < maxLogBytes + n \<and> (\<forall>old. lf_old l = Some old \<longrightarrow> old < maxLogBytes + n)"

definition line_fits :: "int \<Rightarrow> log_env \<Rightarrow> bool" where
  "line_fits n e \<longleftrightarrow> le_stat e \<and> le_rename e \<and> 0 \<le> le_written e \<and> le_written e \<le> n"

lemma log_write_small: "small_log n l \<Longrightarrow> line_fits n e \<Longrightarrow> small_log n (log_write e l)"
  by (auto simp: small_log_def line_fits_def log_write_def log_open_def log_rotate_def log_append_def log_sound_def Let_def maxLogBytes_def
      split: if_splits)

fun logger_run :: "request_logger \<Rightarrow> (log_env \<times> log_env \<times> bool) list \<Rightarrow> request_logger" where
  "logger_run l [] = l"
| "logger_run l ((e1, e2, isError) # ws) = logger_run (logger_write e1 e2 isError l) ws"

lemma logger_run_small:
  "small_log n (rl_request l) \<Longrightarrow> small_log n (rl_failed l) \<Longrightarrow> list_all (\<lambda>(e1, e2, b). line_fits n e1 \<and> line_fits n e2) ws \<Longrightarrow>
   small_log n (rl_request (logger_run l ws)) \<and> small_log n (rl_failed (logger_run l ws))"
proof (induction ws arbitrary: l)
  case (Cons w ws)
  obtain e1 e2 b where w: "w = (e1, e2, b)" by (cases w)
  have "small_log n (rl_request (logger_write e1 e2 b l)) \<and> small_log n (rl_failed (logger_write e1 e2 b l))"
    using Cons.prems log_write_small by (simp add: w logger_write_def Let_def)
  with Cons.IH [of "logger_write e1 e2 b l"] Cons.prems(3) show ?case by (simp add: w)
qed simp

text \<open>C36: The logs stay bounded: whatever is logged, each of the four files (two logs and what they were last rotated to) is
  smaller than 50 MiB plus one line, as long as renaming works and no file was larger before.\<close>

theorem log_files_bounded:
  assumes "RequestLoggerWithSkip env made (closed_log d1 o1) (closed_log d2 o2) next_handler trusted skip = Some h" "0 < n"
    and "\<And>d. d \<in> {d1, d2} \<union> set_option o1 \<union> set_option o2 \<Longrightarrow> 0 \<le> d \<and> d < maxLogBytes + n"
    and "list_all (\<lambda>(e1, e2, b). line_fits n e1 \<and> line_fits n e2) ws"
  shows "\<forall>l \<in> {rl_request (logger_run (lh_logger h) ws), rl_failed (logger_run (lh_logger h) ws)}.
    lf_disk l < maxLogBytes + n \<and> (\<forall>old. lf_old l = Some old \<longrightarrow> old < maxLogBytes + n)"
proof -
  have "small_log n (rl_request (lh_logger h))" "small_log n (rl_failed (lh_logger h))"
    using assms(1,3) by (auto simp: RequestLoggerWithSkip_def Let_def closed_log_def small_log_def log_sound_def split: if_splits)
  from logger_run_small [OF this assms(4)] show ?thesis by (simp add: small_log_def)
qed

lemma log_files_bounded_witness:
  "\<exists>h. RequestLoggerWithSkip '''' True (closed_log (maxLogBytes + 5) None) (closed_log 0 None) (\<lambda>_. []) [] [] = Some h \<and> lh_paths h = (''log/request.log'', ''log/error.log'') \<and>
     lf_disk (rl_request (logger_run (lh_logger h)
       [(\<lparr>le_open1 = True, le_open2 = True, le_stat = True, le_rename = True, le_written = 80, le_failed = False\<rparr>,
         \<lparr>le_open1 = True, le_open2 = True, le_stat = True, le_rename = True, le_written = 80, le_failed = False\<rparr>, True)])) < maxLogBytes + 100"
proof -
  let ?e = "\<lparr>le_open1 = True, le_open2 = True, le_stat = True, le_rename = True, le_written = 80, le_failed = False\<rparr>"
  have "case RequestLoggerWithSkip '''' True (closed_log (maxLogBytes + 5) None) (closed_log 0 None) (\<lambda>_. []) [] [] of None \<Rightarrow> False
    | Some h \<Rightarrow> lh_paths h = (''log/request.log'', ''log/error.log'')" by code_simp
  then obtain h where h: "RequestLoggerWithSkip '''' True (closed_log (maxLogBytes + 5) None) (closed_log 0 None) (\<lambda>_. []) [] [] = Some h"
    "lh_paths h = (''log/request.log'', ''log/error.log'')" by (auto split: option.splits)
  have "\<forall>l \<in> {rl_request (logger_run (lh_logger h) [(?e, ?e, True)]), rl_failed (logger_run (lh_logger h) [(?e, ?e, True)])}.
    lf_disk l < maxLogBytes + 100 \<and> (\<forall>old. lf_old l = Some old \<longrightarrow> old < maxLogBytes + 100)"
    by (rule log_files_bounded [OF h(1)]) (auto simp: line_fits_def maxLogBytes_def)
  with h show ?thesis by blast
qed

text \<open>The status that is logged and counted is the status the client received, for every handler that sets it at most
  once and before writing.\<close>

theorem recorded_status_sent:
  assumes "\<forall>op \<in> set (tl ops). \<not> (\<exists>c. op = WriteHeader c)" "sent_status ops \<noteq> 0"
  shows "recorded_status ops = sent_status ops"
proof (cases ops)
  case (Cons op rest)
  show ?thesis using assms recorded_after_first [of _ rest] by (cases op) (simp_all add: Cons recorded_status_def Let_def)
qed (simp add: recorded_status_def)

lemma recorded_status_sent_witness: "recorded_status [WriteHeader 404, WriteBody, Flush] = 404"
  using recorded_status_sent [of "[WriteHeader 404, WriteBody, Flush]"] by simp

text \<open>A superfluous WriteHeader is not sent but recorded.\<close>

lemma superfluous_status_recorded: "recorded_status [WriteBody, WriteHeader 500] = 500 \<and> sent_status [WriteBody, WriteHeader 500] = 200"
  by (simp add: recorded_status_def)

end
