(* ===== verification/Metrics.thy ===== *)
theory Metrics
  imports Logger
begin

text \<open>
  \<open>app/internal/common/metrics.go\<close>: the request counters.  Counters are uint64 and wrap; a duration is
  added as int64 nanoseconds.  The samples \<open>Handler\<close> prints, in order, are here; its text is in MetricsText.
\<close>

record metrics =
  me_requests :: "string \<rightharpoonup> 64 word"
  me_status :: "int \<rightharpoonup> 64 word"
  me_requestTime :: int
  me_memoryBytes :: "64 word"

definition NewMetrics :: metrics where
  "NewMetrics = \<lparr>me_requests = Map.empty, me_status = Map.empty, me_requestTime = 0, me_memoryBytes = 0\<rparr>"

definition SetMemory :: "64 word \<Rightarrow> metrics \<Rightarrow> metrics" where
  "SetMemory v m = m\<lparr>me_memoryBytes := v\<rparr>"

definition counter :: "('k \<rightharpoonup> 64 word) \<Rightarrow> 'k \<Rightarrow> 64 word" where
  "counter m k = (case m k of None \<Rightarrow> 0 | Some n \<Rightarrow> n)"

definition bump :: "'k \<Rightarrow> ('k \<rightharpoonup> 64 word) \<Rightarrow> ('k \<rightharpoonup> 64 word)" where
  "bump k m = m(k \<mapsto> counter m k + 1)"

definition route_label :: "request \<Rightarrow> string" where
  "route_label r = (let route = (if r_pattern r = '''' then ''unmatched'' else r_pattern r) in r_method r @ '' '' @ route)"

text \<open>What the middleware records after the next handler has run its calls on the writer.\<close>

definition Middleware :: "request \<Rightarrow> writer_op list \<Rightarrow> duration \<Rightarrow> metrics \<Rightarrow> metrics" where
  "Middleware r ops d m =
     m\<lparr>me_requests := bump (route_label r) (me_requests m),
       me_status := bump (recorded_status ops) (me_status m),
       me_requestTime := i64 (me_requestTime m + d)\<rparr>"

definition samples :: "('k :: linorder \<rightharpoonup> 64 word) \<Rightarrow> ('k \<times> 64 word) list" where
  "samples m = map (\<lambda>k. (k, counter m k)) (sorted_list_of_set (dom m))"

lemma counter_bump: "counter (bump k m) j = counter m j + (if j = k then 1 else 0)"
  by (simp add: counter_def bump_def)

lemma dom_bump: "dom (bump k m) = insert k (dom m)"
  by (auto simp: bump_def)

text \<open>The sum over all counters.\<close>

definition total :: "('k \<rightharpoonup> 64 word) \<Rightarrow> 64 word" where
  "total m = (\<Sum>k \<in> dom m. counter m k)"

lemma total_bump: "finite (dom m) \<Longrightarrow> total (bump k m) = total m + 1"
proof -
  assume fin: "finite (dom m)"
  have "total (bump k m) = (\<Sum>j \<in> insert k (dom m). counter m j + (if j = k then 1 else 0))"
    by (simp add: total_def dom_bump counter_bump)
  also have "\<dots> = (\<Sum>j \<in> insert k (dom m). counter m j) + 1"
    using fin by (simp add: sum.distrib sum.delta)
  also have "(\<Sum>j \<in> insert k (dom m). counter m j) = total m"
    using fin by (cases "k \<in> dom m") (auto simp: total_def insert_absorb counter_def split: option.splits)
  finally show ?thesis .
qed

fun metrics_run :: "metrics \<Rightarrow> (request \<times> writer_op list \<times> duration) list \<Rightarrow> metrics" where
  "metrics_run m [] = m"
| "metrics_run m ((r, ops, d) # qs) = metrics_run (Middleware r ops d m) qs"

lemma metrics_run_totals:
  assumes "finite (dom (me_requests m))" "finite (dom (me_status m))"
  shows "total (me_requests (metrics_run m qs)) = total (me_requests m) + of_nat (length qs) \<and>
    total (me_status (metrics_run m qs)) = total (me_status m) + of_nat (length qs)"
  using assms
proof (induction qs arbitrary: m)
  case (Cons q qs)
  obtain r ops d where q: "q = (r, ops, d)" using prod_cases3 by blast
  show ?case using Cons.IH [of "Middleware r ops d m"] Cons.prems
    by (simp add: q Middleware_def total_bump dom_bump algebra_simps)
qed simp

section \<open>Properties\<close>

text \<open>Every request is counted once by route and once by status: after any sequence of requests both families of
  counters sum to the number of requests (modulo \<open>2 ^ 64\<close>).\<close>

theorem metrics_count_every_request:
  "total (me_requests (metrics_run NewMetrics qs)) = of_nat (length qs) \<and>
   total (me_status (metrics_run NewMetrics qs)) = of_nat (length qs)"
  using metrics_run_totals [of NewMetrics qs] by (simp add: NewMetrics_def total_def)

text \<open>The label holds the method as the client sent it, so the number of counters grows with the number of
  distinct methods seen.\<close>

lemma method_labels_distinct:
  "r_pattern r = '''' \<Longrightarrow> r_pattern r' = '''' \<Longrightarrow> route_label r = route_label r' \<longleftrightarrow> r_method r = r_method r'"
  by (simp add: route_label_def)

end
