(* ===== verification/Core.thy ===== *)
theory Core
  imports GoMux Config AccessControl BodyLimit RedisLimit LoadBalancer StreamPolicy Health Metrics
begin

text \<open>
  \<open>app/internal/core/run.go\<close>: how the server is put together.  \<open>registerHTTP\<close> turns an upstream into a
  route (its targets, its trusted proxies, body limit, access policy and rate limits), the routes and the
  built-in endpoints form the mux, and a request passes the global limiter, the global access
  control, the mux and the route's own middleware before it reaches the proxy.

  Parameters: the URL parser, the rounding and eviction choice of the limiters, the digest and the JWT
  verifier, and for each request what Redis answered and the clock reads.
\<close>

section \<open>Addresses and TLS\<close>

definition listenAddress :: "string \<Rightarrow> string \<Rightarrow> string" where
  "listenAddress host port =
     (let port = trim_space port;
          port = (if port = '''' then ''4444'' else port)
      in if List.member port CHR '':'' then port else join_host_port (trim_space host) port)"

datatype client_auth = NoClientCert | VerifyClientCertIfGiven | RequireAndVerifyClientCert

datatype tls_error = CaUnreadable | CaInvalid

text \<open>\<open>buildTLS\<close>: \<open>ca\<close> is what reading client_ca gives, None for a read error, else whether it holds certificates.\<close>

definition buildTLS :: "(string \<Rightarrow> bool option) \<Rightarrow> Security \<Rightarrow> tls_error + client_auth option" where
  "buildTLS ca sec =
     (if sec_TLSCert sec = '''' \<or> sec_TLSKey sec = '''' then Inr None
      else if sec_ClientCA sec \<noteq> '''' then
        (case ca (sec_ClientCA sec) of
           None \<Rightarrow> Inl CaUnreadable
         | Some ok \<Rightarrow>
             if \<not> ok then Inl CaInvalid
             else Inr (Some (if sec_RequireMTLS sec then RequireAndVerifyClientCert else VerifyClientCertIfGiven)))
      else Inr (Some NoClientCert))"

section \<open>Routes\<close>

record route =
  rt_prefix :: string
  rt_targets :: "url list"
  rt_forwardIP :: bool
  rt_trusted :: "ipnet list"
  rt_maxBody :: int
  rt_access :: access_policy
  rt_limits :: "ILimit list"

datatype startup_error =
    InvalidConfig "config_error list"
  | BadNetwork string
  | BadAccess access_error
  | MuxConflict string
  | TlsFailed tls_error

fun valid_targets :: "(string \<Rightarrow> url option) \<Rightarrow> string list \<Rightarrow> url list" where
  "valid_targets parse [] = []"
| "valid_targets parse (v # vs) =
     (case ParseHTTPUpstreamURL parse v of Inl e \<Rightarrow> valid_targets parse vs | Inr t \<Rightarrow> t # valid_targets parse vs)"

definition server_urls :: "Upstream \<Rightarrow> string list" where
  "server_urls u = (if up_Servers u = [] \<and> up_ServerURL u \<noteq> '''' then [up_ServerURL u] else up_Servers u)"

definition route_max_body :: "Security \<Rightarrow> Upstream \<Rightarrow> int" where
  "route_max_body global u =
     (let m = sec_MaxBody (up_Security u);
          m = (if m \<le> 0 then up_Body u else m)
      in if m \<le> 0 then sec_MaxBody global else m)"

definition route_rate :: "Security \<Rightarrow> string \<Rightarrow> Security \<Rightarrow> int \<times> int" where
  "route_rate global pre s =
     (if pre \<noteq> ''/'' \<and> sec_RateLimit s \<le> 0 then (sec_RateLimit global, sec_RateLimitBurst global)
      else (sec_RateLimit s, sec_RateLimitBurst s))"

text \<open>\<open>registerHTTP\<close> without the mux: None when no target is valid, so that nothing is registered.\<close>

definition make_route :: "(string \<Rightarrow> url option) \<Rightarrow> Security \<Rightarrow> ipnet list \<Rightarrow> Upstream \<Rightarrow> startup_error + route option" where
  "make_route parse global defaultTrusted u =
     (let targets = valid_targets parse (server_urls u) in
      if targets = [] then Inr None
      else
        (let pre = NormalizePath (up_Path u);
             s = up_Security u;
             own = (sec_TrustedProxyCIDRs s \<noteq> []);
             trustedValues = (if own then sec_TrustedProxyCIDRs s else sec_TrustedProxyCIDRs global)
         in case (if own then ParseCIDRs trustedValues else Inr defaultTrusted) of
              Inl e \<Rightarrow> Inl (BadNetwork e)
            | Inr trusted \<Rightarrow>
                (case accessControl (sec_AllowCIDRs s) (sec_DenyCIDRs s) (sec_AllowedMethods s) (sec_AllowedPaths s) (sec_APIKeys s)
                        (sec_JWTSecret s) (sec_JWTIssuer s) (sec_JWTAudience s) (sec_RequireMTLS s) trustedValues of
                   Inl e \<Rightarrow> Inl (BadAccess e)
                 | Inr pol \<Rightarrow>
                     (case route_rate global pre s of
                        (rate, burst) \<Rightarrow>
                          Inr (Some \<lparr>rt_prefix = pre, rt_targets = targets, rt_forwardIP = up_IP u, rt_trusted = trusted,
                            rt_maxBody = route_max_body global u, rt_access = pol,
                            rt_limits = active_limits (rate_candidates rate burst (sec_RouteRateLimit s) (sec_RouteRateBurst s) 0 0 pre trusted)\<rparr>)))))"

section \<open>Endpoints\<close>

datatype endpoint = EpPing | EpLive | EpMetrics | EpDocs | EpReady | EpPprof | EpRoute route

definition builtin_early :: "bool \<Rightarrow> (string \<times> endpoint) list" where
  "builtin_early pprof =
     [(''/ping'', EpPing), (''/health/live'', EpLive), (''/metrics'', EpMetrics)] @
     (if pprof then [(''/debug/pprof/'', EpPprof), (''/debug/pprof/profile'', EpPprof),
        (''/debug/pprof/symbol'', EpPprof), (''/debug/pprof/trace'', EpPprof)] else []) @
     [(''/leoxy'', EpDocs)]"

definition route_patterns :: "route \<Rightarrow> (string \<times> endpoint) list" where
  "route_patterns rt =
     (if rt_prefix rt = ''/'' then [(''/'', EpRoute rt)]
      else [(rt_prefix rt, EpRoute rt), (rt_prefix rt @ ''/'', EpRoute rt)])"

section \<open>Start\<close>

text \<open>What opening the sockets of the stream listeners gives: a TCP listener, the resolution of a UDP address, a UDP
  socket.\<close>

record sockets =
  so_tcp :: "string \<Rightarrow> bool"
  so_resolve :: "string \<Rightarrow> bool"
  so_udp :: "string \<Rightarrow> bool"

record listener =
  ln_protocol :: string
  ln_listen :: string
  ln_target :: string
  ln_policy :: stream_policy

text \<open>A stream upstream whose socket cannot be opened is logged and left out.\<close>

definition startTCP :: "sockets \<Rightarrow> Upstream \<Rightarrow> stream_policy \<Rightarrow> listener list \<Rightarrow> listener list" where
  "startTCP so u policy streams =
     (let listen = trim_space (up_Listen u) in
      if \<not> so_tcp so listen then streams
      else streams @ [\<lparr>ln_protocol = ''tcp'', ln_listen = listen, ln_target = trim_space (up_ServerURL u), ln_policy = policy\<rparr>])"

definition startUDP :: "sockets \<Rightarrow> Upstream \<Rightarrow> stream_policy \<Rightarrow> listener list \<Rightarrow> listener list" where
  "startUDP so u policy streams =
     (let listen = trim_space (up_Listen u) in
      if \<not> so_resolve so listen then streams
      else if \<not> so_udp so listen then streams
      else streams @ [\<lparr>ln_protocol = ''udp'', ln_listen = listen, ln_target = trim_space (up_ServerURL u), ln_policy = policy\<rparr>])"

record server =
  sv_mux :: "endpoint mux"
  sv_access :: access_policy
  sv_internal :: "ipnet list"
  sv_trusted :: "ipnet list"
  sv_security :: Security
  sv_streams :: "listener list"
  sv_groups :: "url list list"

text \<open>The loop over the upstreams; \<open>groups\<close> are the \<open>healthTargets\<close>, one list of targets per HTTP upstream, nil when it has no
  valid server.\<close>

fun register_all ::
  "sockets \<Rightarrow> (string \<Rightarrow> url option) \<Rightarrow> Security \<Rightarrow> ipnet list \<Rightarrow> Upstream list \<Rightarrow> endpoint mux \<Rightarrow> listener list \<Rightarrow>
   url list list \<Rightarrow> startup_error + endpoint mux \<times> listener list \<times> url list list" where
  "register_all so parse global trusted [] m streams groups = Inr (m, streams, groups)"
| "register_all so parse global trusted (u # us) m streams groups =
     (if is_stream u then
        (case NewStreamPolicy (sec_AllowCIDRs (up_Security u)) (sec_DenyCIDRs (up_Security u)) (sec_MaxConnsPerIP (up_Security u)) of
           Inl e \<Rightarrow> Inl (BadNetwork e)
         | Inr policy \<Rightarrow>
             register_all so parse global trusted us m
               (if protocol_of u = ''tcp'' then startTCP so u policy streams else startUDP so u policy streams) groups)
      else
        (case make_route parse global trusted u of
           Inl e \<Rightarrow> Inl e
         | Inr None \<Rightarrow> register_all so parse global trusted us m streams (groups @ [[]])
         | Inr (Some rt) \<Rightarrow>
             (case mux_handle_all (route_patterns rt) m of
                Inl pattern \<Rightarrow> Inl (MuxConflict pattern)
              | Inr m' \<Rightarrow> register_all so parse global trusted us m' streams (groups @ [rt_targets rt]))))"

definition start :: "sockets \<Rightarrow> (string \<Rightarrow> url option) \<Rightarrow> (string \<Rightarrow> bool option) \<Rightarrow> bool \<Rightarrow> ServerConfig \<Rightarrow> startup_error + server" where
  "start so parse ca pprof cfg =
     (let sec = cfg_Security cfg in
      if Validate cfg \<noteq> [] then Inl (InvalidConfig (Validate cfg))
      else
        (case ParseCIDRs (sec_TrustedProxyCIDRs sec) of Inl e \<Rightarrow> Inl (BadNetwork e) | Inr trusted \<Rightarrow>
        (case ParseCIDRs (sec_InternalCIDRs sec) of Inl e \<Rightarrow> Inl (BadNetwork e) | Inr internal \<Rightarrow>
        (case mux_handle_all (builtin_early pprof) [] of Inl pattern \<Rightarrow> Inl (MuxConflict pattern) | Inr m0 \<Rightarrow>
        (case register_all so parse sec trusted (cfg_Upstream cfg) m0 [] [] of Inl e \<Rightarrow> Inl e | Inr (m1, streams, groups) \<Rightarrow>
        (case mux_handle ''/health/ready'' EpReady m1 of Inl pattern \<Rightarrow> Inl (MuxConflict pattern) | Inr m2 \<Rightarrow>
        (case accessControl (sec_AllowCIDRs sec) (sec_DenyCIDRs sec) (sec_AllowedMethods sec) (sec_AllowedPaths sec) (sec_APIKeys sec)
                (sec_JWTSecret sec) (sec_JWTIssuer sec) (sec_JWTAudience sec) (sec_RequireMTLS sec) (sec_TrustedProxyCIDRs sec) of
           Inl e \<Rightarrow> Inl (BadAccess e)
         | Inr pol \<Rightarrow>
             (case buildTLS ca sec of
                Inl e \<Rightarrow> Inl (TlsFailed e)
              | Inr _ \<Rightarrow>
                  Inr \<lparr>sv_mux = m2, sv_access = pol, sv_internal = internal, sv_trusted = trusted,
                    sv_security = sec, sv_streams = streams, sv_groups = groups\<rparr>))))))))"

section \<open>Serving a request\<close>

text \<open>The limiters' states: the global one and one per route pre.\<close>

record limiters =
  ls_global :: limiter
  ls_route :: "string \<Rightarrow> limiter"

record world =
  wd_rnd :: "real \<Rightarrow> real"
  wd_pick :: "(string \<rightharpoonup> bucket) \<Rightarrow> string"
  wd_sha :: "string \<Rightarrow> string"
  wd_jwt :: jwt_verifier

text \<open>What becomes of a request: an answer of the middleware, an endpoint of the server, or the proxy of a route.\<close>

datatype outcome = Answered response | Endpoint endpoint request | Proxied route request | Redirected string | Unmatched

definition serve_route :: "world \<Rightarrow> time \<Rightarrow> route \<Rightarrow> limiter \<Rightarrow> request \<Rightarrow> outcome \<times> limiter" where
  "serve_route w now rt lm r =
     (case RateLimit (wd_rnd w) (wd_pick w) (rt_limits rt) lm now r of
        (Reject p, lm') \<Rightarrow> (Answered p, lm')
      | (Pass r1, lm') \<Rightarrow>
          (case access (wd_sha w) (wd_jwt w) (rt_access rt) r1 of
             Reject p \<Rightarrow> (Answered p, lm')
           | Pass r2 \<Rightarrow>
               (case Body (rt_maxBody rt) r2 of Reject p \<Rightarrow> (Answered p, lm') | Pass r3 \<Rightarrow> (Proxied rt r3, lm'))))"

definition serve_mux :: "world \<Rightarrow> time \<Rightarrow> server \<Rightarrow> limiters \<Rightarrow> request \<Rightarrow> outcome \<times> limiters" where
  "serve_mux w now sv ls r =
     (case mux_target (sv_mux sv) r of
        Inl location \<Rightarrow> (Redirected location, ls)
      | Inr None \<Rightarrow> (Unmatched, ls)
      | Inr (Some (pattern, e)) \<Rightarrow>
          (let r = r\<lparr>r_pattern := pattern\<rparr> in
           case e of
             EpRoute rt \<Rightarrow>
               (case serve_route w now rt (ls_route ls (rt_prefix rt)) r of
                  (out, lm) \<Rightarrow> (out, ls\<lparr>ls_route := (ls_route ls)(rt_prefix rt := lm)\<rparr>))
           | EpPing \<Rightarrow> (Endpoint EpPing r, ls)
           | EpLive \<Rightarrow> (Endpoint EpLive r, ls)
           | EpPprof \<Rightarrow> (Endpoint EpPprof r, ls)
           | _ \<Rightarrow> (case InternalOnly (sv_internal sv) r of Reject p \<Rightarrow> (Answered p, ls) | Pass r \<Rightarrow> (Endpoint e r, ls))))"

definition serve_protected :: "world \<Rightarrow> time \<Rightarrow> server \<Rightarrow> limiters \<Rightarrow> request \<Rightarrow> outcome \<times> limiters" where
  "serve_protected w now sv ls r =
     (case access (wd_sha w) (wd_jwt w) (sv_access sv) r of
        Reject p \<Rightarrow> (Answered p, ls)
      | Pass r \<Rightarrow> serve_mux w now sv ls r)"

text \<open>\<open>newHTTPRoot\<close>: the global limiter, then the two open endpoints or the protected mux.\<close>

definition serve :: "world \<Rightarrow> redis_error + bool \<Rightarrow> time \<Rightarrow> server \<Rightarrow> limiters \<Rightarrow> request \<Rightarrow> outcome \<times> limiters" where
  "serve w redis now sv ls r =
     (let sec = sv_security sv in
      case RedisTokenBucketRateLimit (wd_rnd w) (wd_pick w) (sec_RedisAddr sec) (sec_GlobalRateLimit sec) (sec_GlobalRateBurst sec)
             ''leoxy:global'' (sec_RedisFailOpen sec) redis (ls_global ls) now r of
        (Reject p, lm) \<Rightarrow> (Answered p, ls\<lparr>ls_global := lm\<rparr>)
      | (Pass r, lm) \<Rightarrow>
          (let ls = ls\<lparr>ls_global := lm\<rparr> in
           if r_path r = ''/ping'' \<or> r_path r = ''/health/live'' then serve_mux w now sv ls r
           else serve_protected w now sv ls r))"

section \<open>What registration leaves in the mux\<close>

definition up_patterns :: "Upstream \<Rightarrow> string list" where
  "up_patterns u = (let p = NormalizePath (up_Path u) in if p = ''/'' then [''/''] else [p, p @ ''/''])"

definition up_keys :: "Upstream \<Rightarrow> (string list \<times> bool) list" where
  "up_keys u = map pattern_of (up_patterns u)"

text \<open>An upstream path without percent signs, so that the mux compares it as it is written.\<close>

definition plain_path :: "Upstream \<Rightarrow> bool" where
  "plain_path u \<longleftrightarrow> CHR ''%'' \<notin> set (NormalizePath (up_Path u))"

lemma make_route_patterns: "make_route parse global dt u = Inr (Some rt) \<Longrightarrow> map fst (route_patterns rt) = up_patterns u"
  by (auto simp: make_route_def Let_def route_patterns_def up_patterns_def split: if_splits sum.splits prod.splits)

lemma mux_keys_fst: "mux_keys m = map pattern_of (map fst m)"
  by (auto simp: mux_keys_def)

lemma make_route_keys: "make_route parse global dt u = Inr (Some rt) \<Longrightarrow> mux_keys (route_patterns rt) = up_keys u"
  using make_route_patterns [of parse global dt u rt] by (simp add: up_keys_def mux_keys_fst del: map_map)

lemma up_patterns_shape:
  "p \<in> set (up_patterns u) \<Longrightarrow> has_prefix p ''/'' \<and> (plain_path u \<longrightarrow> CHR ''%'' \<notin> set p)"
  using NormalizePath_hd [of "up_Path u"] by (auto simp: up_patterns_def plain_path_def has_prefix_iff Let_def split: if_splits)

lemma up_keys_disjoint:
  assumes "NormalizePath (up_Path u) \<noteq> NormalizePath (up_Path v)" "plain_path u" "plain_path v"
  shows "set (up_keys u) \<inter> set (up_keys v) = {}"
proof -
  have "set (up_patterns u) \<inter> set (up_patterns v) = {}"
    using assms(1) NormalizePath_last [of "up_Path u"] NormalizePath_last [of "up_Path v"] NormalizePath_hd [of "up_Path u"] NormalizePath_hd [of "up_Path v"]
    by (auto simp: up_patterns_def Let_def split: if_splits)
  moreover have "p = q" if "p \<in> set (up_patterns u)" "q \<in> set (up_patterns v)" "pattern_of p = pattern_of q" for p q
    using that up_patterns_shape assms(2,3) pattern_of_plain by metis
  ultimately show ?thesis unfolding up_keys_def set_map disjoint_iff by (metis imageE)
qed

lemma up_keys_distinct: "plain_path u \<Longrightarrow> distinct (up_keys u)"
proof -
  assume "plain_path u"
  then have "inj_on pattern_of (set (up_patterns u))"
    using up_patterns_shape pattern_of_plain by (metis inj_onI)
  moreover have "distinct (up_patterns u)" by (auto simp: up_patterns_def Let_def)
  ultimately show ?thesis by (simp add: up_keys_def distinct_map)
qed
text \<open>A configuration without blank API keys, which validation does not look for.\<close>

definition keys_not_blank :: "Security \<Rightarrow> bool" where
  "keys_not_blank s \<longleftrightarrow> (\<forall>key \<in> set (sec_APIKeys s). trim_space key \<noteq> '''')"

lemma security_ok_networks:
  assumes "security_ok s"
  shows "\<exists>ns. ParseCIDRs (sec_AllowCIDRs s) = Inr ns" "\<exists>ns. ParseCIDRs (sec_DenyCIDRs s) = Inr ns"
    "\<exists>ns. ParseCIDRs (sec_TrustedProxyCIDRs s) = Inr ns" "\<exists>ns. ParseCIDRs (sec_InternalCIDRs s) = Inr ns"
    "sec_JWTSecret s = '''' \<or> minJWTSecretLength \<le> length (sec_JWTSecret s)"
  using assms by (auto simp: security_ok_def security_lists_def minJWTSecretLength_def)

lemma make_route_ok:
  assumes "security_ok (up_Security u)" "security_ok global" "keys_not_blank (up_Security u)"
  shows "\<exists>r. make_route parse global dt u = Inr r"
proof -
  let ?s = "up_Security u"
  let ?tv = "if sec_TrustedProxyCIDRs ?s \<noteq> [] then sec_TrustedProxyCIDRs ?s else sec_TrustedProxyCIDRs global"
  have tv: "\<exists>ns. ParseCIDRs ?tv = Inr ns" using security_ok_networks(3) assms(1,2) by simp
  then have "\<exists>p. accessControl (sec_AllowCIDRs ?s) (sec_DenyCIDRs ?s) (sec_AllowedMethods ?s) (sec_AllowedPaths ?s) (sec_APIKeys ?s)
      (sec_JWTSecret ?s) (sec_JWTIssuer ?s) (sec_JWTAudience ?s) (sec_RequireMTLS ?s) ?tv = Inr p"
    using security_ok_networks [OF assms(1)] assms(3) unfolding accessControl_Inr keys_not_blank_def by blast
  with tv show ?thesis by (auto simp: make_route_def Let_def split: prod.splits)
qed

lemma register_all_adds:
  "register_all so parse global dt us m st hs = Inr (m', st', hs') \<Longrightarrow>
   \<exists>more. m' = m @ more \<and> (distinct (mux_keys m) \<longrightarrow> distinct (mux_keys m')) \<and>
     (\<forall>(q, e) \<in> set more. \<exists>rt. \<exists>u \<in> set us. e = EpRoute rt \<and> \<not> is_stream u \<and>
        make_route parse global dt u = Inr (Some rt) \<and> q \<in> set (up_patterns u))"
proof (induction us arbitrary: m st hs)
  case (Cons u us)
  show ?case
  proof (cases "is_stream u")
    case True
    with Cons.prems obtain policy where
      "register_all so parse global dt us m (if protocol_of u = ''tcp'' then startTCP so u policy st else startUDP so u policy st) hs = Inr (m', st', hs')"
      by (auto split: sum.splits)
    from Cons.IH [OF this] True show ?thesis by fastforce
  next
    case http: False
    with Cons.prems obtain r where r: "make_route parse global dt u = Inr r" by (auto split: sum.splits)
    show ?thesis
    proof (cases r)
      case None
      with Cons.prems http r have "register_all so parse global dt us m st (hs @ [[]]) = Inr (m', st', hs')" by simp
      from Cons.IH [OF this] http show ?thesis by fastforce
    next
      case (Some rt)
      let ?ps = "route_patterns rt"
      obtain m1 hs1 where m1: "mux_handle_all ?ps m = Inr m1" and rest: "register_all so parse global dt us m1 st hs1 = Inr (m', st', hs')"
        using Cons.prems http r Some by (auto split: sum.splits)
      from m1 have m1': "m1 = m @ ?ps" "distinct (mux_keys m) \<longrightarrow> distinct (mux_keys m1)" by (auto simp: mux_handle_all_Inr)
      obtain more where more: "m' = m1 @ more" "distinct (mux_keys m1) \<longrightarrow> distinct (mux_keys m')"
        "\<forall>(q, e) \<in> set more. \<exists>rt. \<exists>u \<in> set us. e = EpRoute rt \<and> \<not> is_stream u \<and>
          make_route parse global dt u = Inr (Some rt) \<and> q \<in> set (up_patterns u)"
        using Cons.IH [OF rest] by blast
      have pats: "map fst ?ps = up_patterns u" using make_route_patterns r Some by blast
      have "e = EpRoute rt \<and> q \<in> set (up_patterns u)" if "(q, e) \<in> set ?ps" for q e
        using that by (force simp: route_patterns_def simp flip: pats split: if_splits)
      with more m1' http r Some show ?thesis by (intro exI [of _ "?ps @ more"]) fastforce
    qed
  qed
qed simp

lemma register_all_ok:
  assumes "\<forall>u \<in> set us. upstream_ok u \<and> (is_http u \<longrightarrow> keys_not_blank (up_Security u))" "security_ok global"
    and "distinct (map (\<lambda>u. NormalizePath (up_Path u)) (filter is_http us))"
    and "\<forall>u \<in> set us. is_http u \<longrightarrow> plain_path u \<and> set (up_keys u) \<inter> set (mux_keys m) = {}"
  shows "\<exists>r. register_all so parse global dt us m st hs = Inr r"
  using assms
proof (induction us arbitrary: m st hs)
  case (Cons u us)
  have ok: "security_ok (up_Security u)" "is_stream u \<or> is_http u"
    using Cons.prems(1) by (auto simp: upstream_ok_def)
  show ?case
  proof (cases "is_stream u")
    case True
    have "\<exists>p. NewStreamPolicy (sec_AllowCIDRs (up_Security u)) (sec_DenyCIDRs (up_Security u)) (sec_MaxConnsPerIP (up_Security u)) = Inr p"
      using security_ok_networks(1,2) [OF ok(1)] by (auto simp: NewStreamPolicy_def)
    moreover have "\<not> is_http u" using True stream_not_http by blast
    ultimately show ?thesis using True Cons.IH [of m] Cons.prems by auto
  next
    case http: False
    then have is_http: "is_http u" using ok by simp
    obtain r where r: "make_route parse global dt u = Inr r"
      using make_route_ok [OF ok(1) Cons.prems(2)] Cons.prems(1) is_http by (metis list.set_intros(1))
    have d: "distinct (map (\<lambda>u. NormalizePath (up_Path u)) (filter is_http us))"
      and new: "\<And>v. v \<in> set us \<Longrightarrow> is_http v \<Longrightarrow> NormalizePath (up_Path v) \<noteq> NormalizePath (up_Path u)"
      using Cons.prems(3) is_http by (auto simp: image_iff)
    show ?thesis
    proof (cases r)
      case None
      have "\<exists>r. register_all so parse global dt us m st (hs @ [[]]) = Inr r"
        by (rule Cons.IH) (use Cons.prems d in auto)
      with http r None show ?thesis by simp
    next
      case (Some rt)
      let ?ps = "route_patterns rt"
      have keys: "mux_keys ?ps = up_keys u" using make_route_keys r Some by blast
      have fresh: "plain_path u" "set (up_keys u) \<inter> set (mux_keys m) = {}" using Cons.prems(4) is_http by simp_all
      then have reg: "mux_handle_all ?ps m = Inr (m @ ?ps)" by (simp add: mux_handle_all_Inr keys up_keys_distinct)
      have disj: "set (up_keys v) \<inter> set (mux_keys (m @ ?ps)) = {}" if "v \<in> set us" "is_http v" for v
        using Cons.prems(4) that up_keys_disjoint [OF new [OF that]] fresh(1) by (simp add: keys Int_Un_distrib)
      have "\<exists>r. register_all so parse global dt us (m @ ?ps) st (hs @ [rt_targets rt]) = Inr r"
        by (rule Cons.IH) (use Cons.prems d disj in auto)
      with http r Some reg show ?thesis by simp
    qed
  qed
qed simp

section \<open>What a started server looks like\<close>

definition pprof_paths :: "string list" where
  "pprof_paths = [''/debug/pprof'', ''/debug/pprof/profile'', ''/debug/pprof/symbol'', ''/debug/pprof/trace'']"

definition builtin_patterns :: "bool \<Rightarrow> string list" where
  "builtin_patterns pprof = map fst (builtin_early pprof) @ [''/health/ready'']"

lemma builtin_keys_distinct: "distinct (map pattern_of (builtin_patterns pprof))"
proof -
  have "distinct (map pattern_of (builtin_patterns True))" "distinct (map pattern_of (builtin_patterns False))" by code_simp+
  then show ?thesis by (cases pprof) simp_all
qed

lemma builtin_shape: "\<forall>p \<in> set (builtin_patterns pprof). has_prefix p ''/'' \<and> CHR ''%'' \<notin> set p"
  by (cases pprof) (simp_all add: builtin_patterns_def builtin_early_def has_prefix_def)

lemma up_avoids_builtins:
  assumes "\<not> isReserved (NormalizePath (up_Path u))" "plain_path u" "pprof \<longrightarrow> NormalizePath (up_Path u) \<notin> set pprof_paths"
  shows "set (up_keys u) \<inter> pattern_of ` set (builtin_patterns pprof) = {}"
proof -
  let ?n = "NormalizePath (up_Path u)"
  have last: "?n = ''/'' \<or> last ?n \<noteq> CHR ''/''" by (rule NormalizePath_last)
  have free: "?n \<notin> {''/ping'', ''/health/live'', ''/metrics'', ''/leoxy'', ''/health/ready''}"
    using assms(1) by (auto simp: isReserved_def reservedPaths_def has_prefix_def)
  have "p \<notin> set (builtin_patterns pprof)" if "p \<in> set (up_patterns u)" for p
  proof -
    have "p = ?n \<or> p = ?n @ ''/'' \<and> ?n \<noteq> ''/''" using that by (auto simp: up_patterns_def Let_def split: if_splits)
    then consider "p = ?n" | "p = ?n @ ''/''" "?n \<noteq> ''/''" by blast
    then show ?thesis
    proof cases
      case 1
      with free last assms(3) show ?thesis
        by (auto simp: builtin_patterns_def builtin_early_def pprof_paths_def split: if_splits)
    next
      case 2
      have "last p = CHR ''/''" "butlast p = ?n" using 2 by simp_all
      moreover have "q = ''/debug/pprof/''" if "q \<in> set (builtin_patterns pprof)" "last q = CHR ''/''" for q
        using that by (auto simp: builtin_patterns_def builtin_early_def split: if_splits)
      moreover have "pprof" if "''/debug/pprof/'' \<in> set (builtin_patterns pprof)"
        using that by (auto simp: builtin_patterns_def builtin_early_def split: if_splits)
      moreover have "butlast ''/debug/pprof/'' = ''/debug/pprof''" by simp
      ultimately show ?thesis using assms(3) by (metis list.set_intros(1) pprof_paths_def)
    qed
  qed
  moreover have "p = q" if "p \<in> set (up_patterns u)" "q \<in> set (builtin_patterns pprof)" "pattern_of p = pattern_of q" for p q
    using that up_patterns_shape assms(2) pattern_of_plain builtin_shape by metis
  ultimately show ?thesis unfolding up_keys_def set_map disjoint_iff by (metis imageE)
qed

lemma start_Inr:
  assumes "start so parse ca pprof cfg = Inr sv"
  shows "Validate cfg = [] \<and> sv_security sv = cfg_Security cfg \<and>
    ParseCIDRs (sec_TrustedProxyCIDRs (cfg_Security cfg)) = Inr (sv_trusted sv) \<and>
    ParseCIDRs (sec_InternalCIDRs (cfg_Security cfg)) = Inr (sv_internal sv) \<and>
    (let sec = cfg_Security cfg in accessControl (sec_AllowCIDRs sec) (sec_DenyCIDRs sec) (sec_AllowedMethods sec) (sec_AllowedPaths sec)
       (sec_APIKeys sec) (sec_JWTSecret sec) (sec_JWTIssuer sec) (sec_JWTAudience sec) (sec_RequireMTLS sec) (sec_TrustedProxyCIDRs sec) =
       Inr (sv_access sv)) \<and>
    (\<exists>tls. buildTLS ca (cfg_Security cfg) = Inr tls) \<and>
    distinct (mux_keys (sv_mux sv)) \<and>
    (\<exists>more. sv_mux sv = builtin_early pprof @ more @ [(''/health/ready'', EpReady)] \<and>
      (\<forall>(q, e) \<in> set more. \<exists>rt. \<exists>u \<in> set (cfg_Upstream cfg). e = EpRoute rt \<and> \<not> is_stream u \<and>
        make_route parse (cfg_Security cfg) (sv_trusted sv) u = Inr (Some rt) \<and> q \<in> set (up_patterns u)))"
proof -
  let ?sec = "cfg_Security cfg"
  obtain trusted internal m0 m1 m2 st hs pol tls where
    parts: "Validate cfg = []" "ParseCIDRs (sec_TrustedProxyCIDRs ?sec) = Inr trusted" "ParseCIDRs (sec_InternalCIDRs ?sec) = Inr internal"
      "mux_handle_all (builtin_early pprof) [] = Inr m0" "register_all so parse ?sec trusted (cfg_Upstream cfg) m0 [] [] = Inr (m1, st, hs)"
      "mux_handle ''/health/ready'' EpReady m1 = Inr m2" "buildTLS ca ?sec = Inr tls"
      "accessControl (sec_AllowCIDRs ?sec) (sec_DenyCIDRs ?sec) (sec_AllowedMethods ?sec) (sec_AllowedPaths ?sec) (sec_APIKeys ?sec)
         (sec_JWTSecret ?sec) (sec_JWTIssuer ?sec) (sec_JWTAudience ?sec) (sec_RequireMTLS ?sec) (sec_TrustedProxyCIDRs ?sec) = Inr pol"
      "sv = \<lparr>sv_mux = m2, sv_access = pol, sv_internal = internal, sv_trusted = trusted, sv_security = ?sec, sv_streams = st, sv_groups = hs\<rparr>"
    using assms unfolding start_def Let_def by (auto split: if_splits sum.splits prod.splits)
  have m0: "m0 = builtin_early pprof" "distinct (mux_keys m0)" using parts(4) by (auto simp: mux_handle_all_Inr)
  have m2: "m2 = m1 @ [(''/health/ready'', EpReady)]" "pattern_of ''/health/ready'' \<notin> set (mux_keys m1)"
    using parts(6) by (auto simp: mux_handle_Inr)
  obtain more where more: "m1 = m0 @ more" "distinct (mux_keys m0) \<longrightarrow> distinct (mux_keys m1)"
    "\<forall>(q, e) \<in> set more. \<exists>rt. \<exists>u \<in> set (cfg_Upstream cfg). e = EpRoute rt \<and> \<not> is_stream u \<and>
        make_route parse ?sec trusted u = Inr (Some rt) \<and> q \<in> set (up_patterns u)"
    using register_all_adds [OF parts(5)] by blast
  have d: "distinct (mux_keys m2)" using m0(2) m2 more(2) by (simp add: mux_keys_def)
  show ?thesis unfolding Let_def parts(9) using parts(1-8) d m2(1) m0(1) more(1,3) by (intro conjI exI [of _ more]) auto
qed

text \<open>The readiness groups are the targets of the configuration's HTTP upstreams, in order; one without a valid server counts too.\<close>

lemma register_all_groups:
  "register_all so parse global dt us m st hs = Inr (m', st', hs') \<Longrightarrow>
   hs' = hs @ map (\<lambda>u. valid_targets parse (server_urls u)) (filter (\<lambda>u. \<not> is_stream u) us)"
proof (induction us arbitrary: m st hs)
  case (Cons u us)
  have none: "make_route parse global dt u = Inr None \<Longrightarrow> valid_targets parse (server_urls u) = []"
    and some: "make_route parse global dt u = Inr (Some rt) \<Longrightarrow> rt_targets rt = valid_targets parse (server_urls u)" for rt
    by (auto simp: make_route_def Let_def split: if_splits sum.splits prod.splits)
  from Cons.prems show ?case
    by (cases "is_stream u") (auto simp: none some dest!: Cons.IH split: sum.splits option.splits)
qed simp

lemma start_groups:
  "start so parse ca pprof cfg = Inr sv \<Longrightarrow>
   sv_groups sv = map (\<lambda>u. valid_targets parse (server_urls u)) (filter (\<lambda>u. \<not> is_stream u) (cfg_Upstream cfg))"
  by (auto simp: start_def Let_def split: if_splits sum.splits dest!: register_all_groups)

text \<open>A started server is ready, on a check that is not answered from the cache, exactly when every HTTP upstream of its
  configuration has a valid target that answers.\<close>

lemma started_ready:
  assumes "start so parse ca pprof cfg = Inr sv" "\<And>targets. mset (arrival targets) = mset targets"
    and "\<not> (\<not> time_is_zero (rd_checkedAt st) \<and> time_sub now (rd_checkedAt st) < cacheTTL)"
  shows "fst (ready arrival answer (sv_groups sv) now later st) \<longleftrightarrow>
    (\<forall>u \<in> set (cfg_Upstream cfg). \<not> is_stream u \<longrightarrow> (\<exists>t \<in> set (valid_targets parse (server_urls u)). probe answer t))"
  using assms(3) by (auto simp: ready_def Let_def groups_loop_all [OF assms(2)] start_groups [OF assms(1)] list_all_iff list_ex_iff)

section \<open>Starting\<close>

text \<open>C6: A configuration that passes validation starts: no step of \<open>Run\<close> fails and no two routes collide in the mux, if no API
  key is blank, the client CA can be read when there is one, and no path of an HTTP upstream has a percent sign or, when
  \<open>LEOXY_PPROF\<close> is on, is one of the four paths of pprof.\<close>

theorem start_succeeds:
  assumes "Validate cfg = []" "keys_not_blank (cfg_Security cfg)" "buildTLS ca (cfg_Security cfg) = Inr tls"
    and "\<And>u. u \<in> set (cfg_Upstream cfg) \<Longrightarrow> is_http u \<Longrightarrow>
      keys_not_blank (up_Security u) \<and> plain_path u \<and> (pprof \<longrightarrow> NormalizePath (up_Path u) \<notin> set pprof_paths)"
  shows "\<exists>sv. start so parse ca pprof cfg = Inr sv"
proof -
  let ?sec = "cfg_Security cfg" and ?m0 = "builtin_early pprof"
  have ok: "config_ok cfg" using assms(1) by (simp add: Validate_ok_iff)
  then have sec: "security_ok ?sec" and ups: "\<forall>u \<in> set (cfg_Upstream cfg). upstream_ok u"
    and paths: "distinct (map (\<lambda>u. NormalizePath (up_Path u)) (filter is_http (cfg_Upstream cfg)))"
    by (simp_all add: config_ok_def)
  obtain trusted internal where nets: "ParseCIDRs (sec_TrustedProxyCIDRs ?sec) = Inr trusted" "ParseCIDRs (sec_InternalCIDRs ?sec) = Inr internal"
    using security_ok_networks [OF sec] by blast
  have early: "map pattern_of (builtin_patterns pprof) = mux_keys ?m0 @ [pattern_of ''/health/ready'']"
    by (simp add: builtin_patterns_def mux_keys_fst)
  have m0: "mux_handle_all ?m0 [] = Inr ?m0"
    using builtin_keys_distinct [of pprof] unfolding early by (simp add: mux_handle_all_Inr mux_keys_def)
  have avoid: "set (up_keys u) \<inter> pattern_of ` set (builtin_patterns pprof) = {}" if "u \<in> set (cfg_Upstream cfg)" "is_http u" for u
    using up_avoids_builtins [of u pprof] assms(4) [OF that] ups that stream_not_http by (auto simp: upstream_ok_def)
  have keys: "pattern_of ` set (builtin_patterns pprof) = set (mux_keys ?m0) \<union> {pattern_of ''/health/ready''}"
    using arg_cong [OF early, of set] by simp
  have "\<exists>r. register_all so parse ?sec trusted (cfg_Upstream cfg) ?m0 [] [] = Inr r"
    using ups assms(4) sec paths avoid by (intro register_all_ok) (auto simp: keys)
  then obtain m1 st hs where reg: "register_all so parse ?sec trusted (cfg_Upstream cfg) ?m0 [] [] = Inr (m1, st, hs)" by auto
  obtain more where more: "m1 = ?m0 @ more"
    "\<forall>(q, e) \<in> set more. \<exists>rt. \<exists>u \<in> set (cfg_Upstream cfg). e = EpRoute rt \<and> \<not> is_stream u \<and>
      make_route parse ?sec trusted u = Inr (Some rt) \<and> q \<in> set (up_patterns u)"
    using register_all_adds [OF reg] by blast
  have "pattern_of ''/health/ready'' \<notin> set (mux_keys more)"
  proof
    assume "pattern_of ''/health/ready'' \<in> set (mux_keys more)"
    then obtain q e where q: "(q, e) \<in> set more" "pattern_of q = pattern_of ''/health/ready''" by (auto simp: mux_keys_def)
    with more(2) obtain u where u: "u \<in> set (cfg_Upstream cfg)" "\<not> is_stream u" "q \<in> set (up_patterns u)" by blast
    then have "is_http u" using ups by (auto simp: upstream_ok_def)
    then have "pattern_of ''/health/ready'' \<notin> pattern_of ` set (up_patterns u)"
      using avoid [OF u(1)] by (auto simp: keys up_keys_def)
    then show False using q(2) u(3) by (metis imageI)
  qed
  moreover have "pattern_of ''/health/ready'' \<notin> set (mux_keys ?m0)"
    using builtin_keys_distinct [of pprof] unfolding early by simp
  ultimately obtain m2 where ready: "mux_handle ''/health/ready'' EpReady m1 = Inr m2"
    by (auto simp: mux_handle_def more(1))
  obtain pol where "accessControl (sec_AllowCIDRs ?sec) (sec_DenyCIDRs ?sec) (sec_AllowedMethods ?sec) (sec_AllowedPaths ?sec) (sec_APIKeys ?sec)
      (sec_JWTSecret ?sec) (sec_JWTIssuer ?sec) (sec_JWTAudience ?sec) (sec_RequireMTLS ?sec) (sec_TrustedProxyCIDRs ?sec) = Inr pol"
    using security_ok_networks [OF sec] assms(2) unfolding accessControl_Inr keys_not_blank_def by blast
  with assms(1,3) nets m0 reg ready show ?thesis by (simp add: start_def)
qed

text \<open>A route in the mux comes from an upstream of the configuration.\<close>

lemma route_origin:
  assumes "start so parse ca pprof cfg = Inr sv" "(q, EpRoute rt) \<in> set (sv_mux sv)"
  obtains u where "u \<in> set (cfg_Upstream cfg)" "\<not> is_stream u"
    "make_route parse (cfg_Security cfg) (sv_trusted sv) u = Inr (Some rt)" "q \<in> set (up_patterns u)"
proof -
  obtain more where m: "sv_mux sv = builtin_early pprof @ more @ [(''/health/ready'', EpReady)]"
    "\<forall>(q, e) \<in> set more. \<exists>rt. \<exists>u \<in> set (cfg_Upstream cfg). e = EpRoute rt \<and> \<not> is_stream u \<and>
        make_route parse (cfg_Security cfg) (sv_trusted sv) u = Inr (Some rt) \<and> q \<in> set (up_patterns u)"
    using start_Inr [OF assms(1)] by blast
  have "(q, EpRoute rt) \<notin> set (builtin_early pprof)" by (auto simp: builtin_early_def)
  with m(1) assms(2) have "(q, EpRoute rt) \<in> set more" by auto
  with m(2) that show thesis by blast
qed

end
