(* ===== verification/Serving.thy ===== *)
theory Serving
  imports Core
begin

text \<open>
  What a started server does with a request: the guarantees that hold across the limiter, the access
  controls, the mux and the routes of \<open>core/run.go\<close> together.
\<close>

section \<open>Requests as the HTTP server delivers them\<close>

text \<open>An origin-form target: the escaped path starts with a slash and decodes to \<open>URL.Path\<close>.\<close>

definition url_wf :: "request \<Rightarrow> bool" where
  "url_wf r \<longleftrightarrow> has_prefix (r_escaped r) ''/'' \<and> path_unescape (r_escaped r) = Some (r_path r)"

lemma open_path_segments:
  assumes "url_wf r" "r_path r = ''/ping'' \<or> r_path r = ''/health/live''"
  shows "path_segments (r_escaped r) \<in> {[''ping''], [''health'', ''live''], [''health/live'']}"
proof -
  obtain t where t: "r_escaped r = CHR ''/'' # t" "path_unescape (CHR ''/'' # t) = Some (r_path r)"
    using assms(1) by (auto simp: url_wf_def has_prefix_iff)
  show ?thesis
  proof (cases "r_path r = ''/ping''")
    case True
    with t show ?thesis using segments_one [of t "''ping''"] by simp
  next
    case False
    with assms(2) have p: "r_path r = CHR ''/'' # ''health'' @ CHR ''/'' # ''live''" by simp
    have "path_segments (CHR ''/'' # t) \<in> {[''health'', ''live''], [''health'' @ CHR ''/'' # ''live'']}"
      by (rule segments_two) (use t(2) p in simp_all)
    with t(1) show ?thesis by simp
  qed
qed

section \<open>The stages of a request\<close>

definition global_limit :: "world \<Rightarrow> redis_error + bool \<Rightarrow> time \<Rightarrow> server \<Rightarrow> limiters \<Rightarrow> request \<Rightarrow> verdict \<times> limiter" where
  "global_limit w redis now sv ls r =
     RedisTokenBucketRateLimit (wd_rnd w) (wd_pick w) (sec_RedisAddr (sv_security sv)) (sec_GlobalRateLimit (sv_security sv))
       (sec_GlobalRateBurst (sv_security sv)) ''leoxy:global'' (sec_RedisFailOpen (sv_security sv)) redis (ls_global ls) now r"

definition global_stage :: "world \<Rightarrow> redis_error + bool \<Rightarrow> time \<Rightarrow> server \<Rightarrow> limiters stage" where
  "global_stage w redis now sv ls r = (case global_limit w redis now sv ls r of (v, lm) \<Rightarrow> (v, ls\<lparr>ls_global := lm\<rparr>))"

interpretation global: stage "global_stage w redis now sv" for w redis now sv
proof
  have "v = Pass r' \<Longrightarrow> r' = r"
    if "RedisTokenBucketRateLimit rnd pick addr l b k fo out lm now r = (v, lm')" for rnd pick addr l b k fo out lm now r v lm' r'
    using that limit.pass_same by (auto simp: RedisTokenBucketRateLimit_def limit_stage_def Let_def split: if_splits sum.splits)
  then show "global_stage w redis now sv s r = (Pass r', s') \<Longrightarrow> r' = r" for s r r' s'
    by (auto simp: global_stage_def global_limit_def split: prod.splits)
qed

text \<open>The limiter and the access control of a route in turn.\<close>

interpretation route: two_stages "limit_stage rnd pick limits now" "stateless (access sha256 jwt_parse p)"
  for rnd pick limits now sha256 jwt_parse p
  by unfold_locales

lemma access_same: "access sha256 jwt_parse p r = Pass r' \<Longrightarrow> r' = r"
  using acl.passed [of sha256 jwt_parse p "()" r r'] by (simp add: stateless_def)

text \<open>A request that is not refused by the limiter or the access control is one the mux served.\<close>

lemma serve_served:
  assumes "serve w redis now sv ls r = (out, ls')" "\<And>p. out \<noteq> Answered p"
  obtains ls0 where "fst (global_limit w redis now sv ls r) = Pass r" "serve_mux w now sv ls0 r = (out, ls')" "ls_route ls0 = ls_route ls"
    "r_path r = ''/ping'' \<or> r_path r = ''/health/live'' \<or> access (wd_sha w) (wd_jwt w) (sv_access sv) r = Pass r"
proof -
  obtain v lm where g: "global_limit w redis now sv ls r = (v, lm)" by fastforce
  have v: "v = Pass r"
  proof (cases v)
    case (Reject p)
    with assms g show ?thesis unfolding serve_def global_limit_def Let_def by (auto split: prod.splits)
  next
    case (Pass r1)
    with g global.pass_same [of w redis now sv ls r r1] show ?thesis by (simp add: global_stage_def)
  qed
  then have s: "(if r_path r = ''/ping'' \<or> r_path r = ''/health/live'' then serve_mux w now sv (ls\<lparr>ls_global := lm\<rparr>) r
      else serve_protected w now sv (ls\<lparr>ls_global := lm\<rparr>) r) = (out, ls')"
    using assms(1) g unfolding serve_def global_limit_def Let_def by simp
  have "serve_mux w now sv (ls\<lparr>ls_global := lm\<rparr>) r = (out, ls') \<and>
    (r_path r = ''/ping'' \<or> r_path r = ''/health/live'' \<or> access (wd_sha w) (wd_jwt w) (sv_access sv) r = Pass r)"
  proof (cases "access (wd_sha w) (wd_jwt w) (sv_access sv) r")
    case (Reject p)
    with s assms(2) show ?thesis by (auto simp: serve_protected_def split: if_splits)
  next
    case (Pass r1)
    then have "r1 = r" by (simp add: access_Pass_iff)
    with s Pass show ?thesis by (auto simp: serve_protected_def split: if_splits)
  qed
  with that [of "ls\<lparr>ls_global := lm\<rparr>"] g v show thesis by simp
qed

lemma serve_mux_Proxied:
  assumes "serve_mux w now sv ls r = (Proxied rt r', ls')"
  obtains q where "mux_target (sv_mux sv) r = Inr (Some (q, EpRoute rt))"
    "fst (serve_route w now rt (ls_route ls (rt_prefix rt)) (r\<lparr>r_pattern := q\<rparr>)) = Proxied rt r'"
proof -
  obtain q e where t: "mux_target (sv_mux sv) r = Inr (Some (q, e))"
    using assms by (auto simp: serve_mux_def split: sum.splits option.splits)
  have "e = EpRoute rt \<and> fst (serve_route w now rt (ls_route ls (rt_prefix rt)) (r\<lparr>r_pattern := q\<rparr>)) = Proxied rt r'"
  proof (cases e)
    case (EpRoute rt')
    obtain out lm where s: "serve_route w now rt' (ls_route ls (rt_prefix rt')) (r\<lparr>r_pattern := q\<rparr>) = (out, lm)" by fastforce
    then have "out = Proxied rt r'" using assms t EpRoute by (simp add: serve_mux_def)
    moreover from this have "rt' = rt"
      using s by (auto simp: serve_route_def split: prod.splits verdict.splits)
    ultimately show ?thesis using s EpRoute by simp
  qed (use assms t in \<open>auto simp: serve_mux_def Let_def split: verdict.splits\<close>)
  with t that show thesis by blast
qed

lemma serve_route_Proxied:
  "fst (serve_route w now rt lm r) = Proxied rt r' \<longleftrightarrow>
   fst (RateLimit (wd_rnd w) (wd_pick w) (rt_limits rt) lm now r) = Pass r \<and>
   access (wd_sha w) (wd_jwt w) (rt_access rt) r = Pass r \<and> Body (rt_maxBody rt) r = Pass r'"
proof -
  let ?both = "in_turn (limit_stage (wd_rnd w) (wd_pick w) (rt_limits rt) now) (stateless (access (wd_sha w) (wd_jwt w) (rt_access rt))) (lm, ()) r"
  have "fst (serve_route w now rt lm r) = Proxied rt r' \<longleftrightarrow> (\<exists>r1. fst ?both = Pass r1 \<and> Body (rt_maxBody rt) r1 = Pass r')"
    by (auto simp: serve_route_def in_turn_def limit_stage_def stateless_def split: prod.splits verdict.splits)
  then show ?thesis by (auto simp: route.both_passed limit_stage_def stateless_def)
qed

text \<open>The open endpoints keep their patterns to themselves.\<close>

lemma mux_ping:
  assumes "start so parse ca pprof cfg = Inr sv" "mux_target (sv_mux sv) r = Inr (Some (q, e))"
  shows "path_segments (r_escaped r) = [''ping''] \<Longrightarrow> e = EpPing"
    and "path_segments (r_escaped r) = [''health'', ''live''] \<Longrightarrow> e = EpLive"
proof -
  have d: "distinct (mux_keys (sv_mux sv))" and m: "(''/ping'', EpPing) \<in> set (sv_mux sv)" "(''/health/live'', EpLive) \<in> set (sv_mux sv)"
    using start_Inr [OF assms(1)] by (auto simp: builtin_early_def)
  have k: "pattern_of ''/ping'' = ([''ping''], False)" "pattern_of ''/health/live'' = ([''health'', ''live''], False)" by code_simp+
  show "e = EpPing" if "path_segments (r_escaped r) = [''ping'']"
    using mux_match_exact [OF d m(1) k(1)] mux_target_Some [OF assms(2)] that by simp
  show "e = EpLive" if "path_segments (r_escaped r) = [''health'', ''live'']"
    using mux_match_exact [OF d m(2) k(2)] mux_target_Some [OF assms(2)] that by simp
qed

section \<open>Properties\<close>

text \<open>C1: What reaches an upstream has passed every stage: the global limiter, the server's access control, and
  the limiter, access control and body limit of a route built from the configuration whose pattern matches.
  The one exception to the server's access control is a path \<open>/health/live\<close> written with its slash encoded.\<close>

theorem proxied_passed_every_stage:
  assumes "start so parse ca pprof cfg = Inr sv" "url_wf r" "serve w redis now sv ls r = (Proxied rt r', ls')"
  shows "fst (global_limit w redis now sv ls r) = Pass r \<and>
    (access (wd_sha w) (wd_jwt w) (sv_access sv) r = Pass r \<or> path_segments (r_escaped r) = [''health/live'']) \<and>
    (\<exists>u \<in> set (cfg_Upstream cfg). \<exists>q \<in> set (up_patterns u).
       make_route parse (cfg_Security cfg) (sv_trusted sv) u = Inr (Some rt) \<and>
       pattern_matches (path_segments (r_escaped r)) (pattern_of q) \<and>
       (let r1 = r\<lparr>r_pattern := q\<rparr> in
        fst (RateLimit (wd_rnd w) (wd_pick w) (rt_limits rt) (ls_route ls (rt_prefix rt)) now r1) = Pass r1 \<and>
        access (wd_sha w) (wd_jwt w) (rt_access rt) r1 = Pass r1 \<and> Body (rt_maxBody rt) r1 = Pass r'))"
proof -
  obtain ls0 where served: "fst (global_limit w redis now sv ls r) = Pass r" "serve_mux w now sv ls0 r = (Proxied rt r', ls')"
      "ls_route ls0 = ls_route ls"
      "r_path r = ''/ping'' \<or> r_path r = ''/health/live'' \<or> access (wd_sha w) (wd_jwt w) (sv_access sv) r = Pass r"
    by (rule serve_served [OF assms(3)]) auto
  obtain q where q: "mux_target (sv_mux sv) r = Inr (Some (q, EpRoute rt))"
    "fst (serve_route w now rt (ls_route ls (rt_prefix rt)) (r\<lparr>r_pattern := q\<rparr>)) = Proxied rt r'"
    using serve_mux_Proxied [OF served(2)] served(3) by metis
  obtain u where u: "u \<in> set (cfg_Upstream cfg)" "make_route parse (cfg_Security cfg) (sv_trusted sv) u = Inr (Some rt)" "q \<in> set (up_patterns u)"
    using route_origin [OF assms(1)] mux_target_Some [OF q(1)] by metis
  have "access (wd_sha w) (wd_jwt w) (sv_access sv) r = Pass r \<or> path_segments (r_escaped r) = [''health/live'']"
    using served(4) open_path_segments [OF assms(2)] mux_ping [OF assms(1) q(1)] by auto
  moreover have "pattern_matches (path_segments (r_escaped r)) (pattern_of q)" using mux_target_Some [OF q(1)] by simp
  ultimately show ?thesis
    using served(1) q(2) unfolding serve_route_Proxied Let_def by (intro conjI bexI [OF _ u(1)] bexI [OF _ u(3)] u(2)) simp_all
qed

text \<open>A small server: the root route, and an API key for everything.\<close>

definition example_upstream :: Upstream where
  "example_upstream = zero_upstream\<lparr>up_Path := ''/'', up_ServerURL := ''http://a''\<rparr>"

definition example_config :: ServerConfig where
  "example_config = zero_config\<lparr>cfg_Security := zero_security\<lparr>sec_APIKeys := [''k1'']\<rparr>, cfg_Upstream := [example_upstream]\<rparr>"

definition one_target :: "string \<Rightarrow> url option" where
  "one_target s = Some \<lparr>ur_scheme = ''http'', ur_host = ''a'', ur_path = ''''\<rparr>"

definition all_sockets :: sockets where
  "all_sockets = \<lparr>so_tcp = (\<lambda>_. True), so_resolve = (\<lambda>_. True), so_udp = (\<lambda>_. True)\<rparr>"

definition example_start :: "bool \<Rightarrow> ServerConfig \<Rightarrow> startup_error + server" where
  "example_start pprof cfg = start all_sockets one_target (\<lambda>_. None) pprof cfg"

definition example_world :: world where
  "example_world = \<lparr>wd_rnd = id, wd_pick = (\<lambda>_. []), wd_sha = id, wd_jwt = (\<lambda>_ _ _. False)\<rparr>"

definition no_limiters :: limiters where
  "no_limiters = \<lparr>ls_global = new_limiter 0, ls_route = (\<lambda>_. new_limiter 0)\<rparr>"

text \<open>An evaluation without limiters: whether a request gets to a route and through its checks.\<close>

definition passes :: "verdict \<Rightarrow> bool" where
  "passes v = (case v of Pass _ \<Rightarrow> True | Reject _ \<Rightarrow> False)"

definition reaches_route :: "world \<Rightarrow> server \<Rightarrow> request \<Rightarrow> bool" where
  "reaches_route w sv r =
     (case mux_target (sv_mux sv) r of
        Inr (Some (q, EpRoute rt)) \<Rightarrow>
          (case rt_limits rt of [] \<Rightarrow> True | _ \<Rightarrow> False) \<and> passes (access (wd_sha w) (wd_jwt w) (rt_access rt) (r\<lparr>r_pattern := q\<rparr>)) \<and>
          passes (Body (rt_maxBody rt) (r\<lparr>r_pattern := q\<rparr>))
      | _ \<Rightarrow> False)"

definition unlimited :: "server \<Rightarrow> bool" where
  "unlimited sv \<longleftrightarrow> sec_RedisAddr (sv_security sv) = '''' \<and> sec_GlobalRateLimit (sv_security sv) \<le> 0"

lemma reaches_route_served:
  assumes "unlimited sv" "reaches_route w sv r"
    and "r_path r = ''/ping'' \<or> r_path r = ''/health/live'' \<or> passes (access (wd_sha w) (wd_jwt w) (sv_access sv) r)"
  shows "\<exists>rt r' ls'. serve w redis now sv ls r = (Proxied rt r', ls')"
proof -
  obtain q rt where t: "mux_target (sv_mux sv) r = Inr (Some (q, EpRoute rt))" "rt_limits rt = []"
    "passes (access (wd_sha w) (wd_jwt w) (rt_access rt) (r\<lparr>r_pattern := q\<rparr>))" "passes (Body (rt_maxBody rt) (r\<lparr>r_pattern := q\<rparr>))"
  proof -
    obtain q e where t: "mux_target (sv_mux sv) r = Inr (Some (q, e))"
      using assms(2) by (auto simp: reaches_route_def split: sum.splits option.splits)
    show thesis
    proof (cases e)
      case (EpRoute rt)
      with assms(2) t show thesis by (cases "rt_limits rt") (auto intro!: that simp: reaches_route_def)
    qed (use assms(2) t in \<open>auto simp: reaches_route_def\<close>)
  qed
  obtain r' where "access (wd_sha w) (wd_jwt w) (rt_access rt) (r\<lparr>r_pattern := q\<rparr>) = Pass (r\<lparr>r_pattern := q\<rparr>)"
      "Body (rt_maxBody rt) (r\<lparr>r_pattern := q\<rparr>) = Pass r'"
    using t(3,4) access_same by (fastforce simp: passes_def split: verdict.splits)
  then have "serve_route w now rt lm (r\<lparr>r_pattern := q\<rparr>) = (Proxied rt r', lm)" for lm
    by (simp add: serve_route_def RateLimit_def t(2))
  with t(1) have mux: "\<exists>ls'. serve_mux w now sv ls r = (Proxied rt r', ls')" for ls by (simp add: serve_mux_def)
  have "RedisTokenBucketRateLimit (wd_rnd w) (wd_pick w) (sec_RedisAddr (sv_security sv)) (sec_GlobalRateLimit (sv_security sv))
    (sec_GlobalRateBurst (sv_security sv)) ''leoxy:global'' (sec_RedisFailOpen (sv_security sv)) redis (ls_global ls) now r = (Pass r, ls_global ls)"
    using assms(1) by (simp add: RedisTokenBucketRateLimit_def unlimited_def local_limits_def RateLimit_def rate_candidates_def)
  moreover have "passes (access (wd_sha w) (wd_jwt w) (sv_access sv) r) \<Longrightarrow> access (wd_sha w) (wd_jwt w) (sv_access sv) r = Pass r"
    using access_same by (auto simp: passes_def split: verdict.splits)
  ultimately show ?thesis using assms(3) mux [of "ls\<lparr>ls_global := ls_global ls\<rparr>"]
    by (auto simp: serve_def serve_protected_def)
qed
definition with_key :: "string \<Rightarrow> string \<Rightarrow> request" where
  "with_key path key =
     (plain_request ''192.0.2.1:5'' (if key = '''' then Map.empty else header_set Map.empty ''X-API-Key'' key))\<lparr>r_path := path, r_escaped := path\<rparr>"

lemma example_started: "\<exists>sv. start all_sockets one_target (\<lambda>_. None) False example_config = Inr sv"
proof -
  have "case start all_sockets one_target (\<lambda>_. None) False example_config of Inl e \<Rightarrow> False | Inr sv \<Rightarrow> True" by code_simp
  then show ?thesis by (auto split: sum.splits)
qed

lemma proxied_passed_every_stage_witness:
  "\<exists>sv rt r' ls'. serve example_world (Inr True) 0 sv no_limiters (with_key ''/x'' ''k1'') = (Proxied rt r', ls') \<and>
     access id (\<lambda>_ _ _. False) (sv_access sv) (with_key ''/x'' ''k1'') = Pass (with_key ''/x'' ''k1'')"
proof -
  obtain sv where sv: "start all_sockets one_target (\<lambda>_. None) False example_config = Inr sv" using example_started by blast
  let ?r = "with_key ''/x'' ''k1''"
  have "case start all_sockets one_target (\<lambda>_. None) False example_config of Inl e \<Rightarrow> False
    | Inr sv \<Rightarrow> unlimited sv \<and> reaches_route example_world sv ?r \<and> passes (access id (\<lambda>_ _ _. False) (sv_access sv) ?r)" by code_simp
  then obtain rt r' ls' where out: "serve example_world (Inr True) 0 sv no_limiters ?r = (Proxied rt r', ls')"
    using reaches_route_served [of sv example_world ?r] unfolding sv by (fastforce simp: example_world_def)
  have "url_wf ?r" "path_segments (r_escaped ?r) = [''x'']" by code_simp+
  with proxied_passed_every_stage [OF sv _ out] out show ?thesis by (auto simp: example_world_def)
qed

text \<open>The exception is real: with the slash encoded the path is open for \<open>newHTTPRoot\<close> and a path of its own for the
  mux, so a request without the configured API key gets to the root route.\<close>

definition encoded_live :: request where
  "encoded_live = (plain_request ''192.0.2.1:5'' Map.empty)\<lparr>r_path := ''/health/live'', r_escaped := ''/health%2Flive''\<rparr>"

lemma encoded_slash_skips_access:
  "\<exists>sv rt r' ls'. start all_sockets one_target (\<lambda>_. None) False example_config = Inr sv \<and> url_wf encoded_live \<and>
     (\<exists>p. access id (\<lambda>_ _ _. False) (sv_access sv) encoded_live = Reject p) \<and>
     serve example_world (Inr True) 0 sv no_limiters encoded_live = (Proxied rt r', ls')"
proof -
  obtain sv where sv: "start all_sockets one_target (\<lambda>_. None) False example_config = Inr sv" using example_started by blast
  have "case start all_sockets one_target (\<lambda>_. None) False example_config of Inl e \<Rightarrow> False
    | Inr sv \<Rightarrow> unlimited sv \<and> reaches_route example_world sv encoded_live \<and> \<not> passes (access id (\<lambda>_ _ _. False) (sv_access sv) encoded_live) \<and>
        url_wf encoded_live \<and> r_path encoded_live = ''/health/live''"
    by code_simp
  then have s: "unlimited sv" "reaches_route example_world sv encoded_live" "\<not> passes (access id (\<lambda>_ _ _. False) (sv_access sv) encoded_live)"
    "url_wf encoded_live" "r_path encoded_live = ''/health/live''"
    unfolding sv by simp_all
  have "\<exists>rt r' ls'. serve example_world (Inr True) 0 sv no_limiters encoded_live = (Proxied rt r', ls')"
    by (rule reaches_route_served [OF s(1,2)]) (simp add: s(5))
  moreover have "\<exists>p. access id (\<lambda>_ _ _. False) (sv_access sv) encoded_live = Reject p"
    using s(3) by (auto simp: passes_def split: verdict.splits)
  ultimately show ?thesis using sv s(4) by blast
qed

text \<open>The liveness endpoints answer every request the global limiter lets through, whatever the access control
  would say, and no route can take their place.\<close>

theorem liveness_open:
  assumes "start so parse ca pprof cfg = Inr sv" "fst (global_limit w redis now sv ls r) = Pass r"
    and "r_path r = path" "r_escaped r = path" "(path, e) \<in> {(''/ping'', EpPing), (''/health/live'', EpLive)}"
  shows "fst (serve w redis now sv ls r) = Endpoint e (r\<lparr>r_pattern := path\<rparr>)"
proof -
  have m: "distinct (mux_keys (sv_mux sv))" "(path, e) \<in> set (sv_mux sv)"
    using start_Inr [OF assms(1)] assms(5) by (auto simp: builtin_early_def)
  have "pattern_of ''/ping'' = (path_segments ''/ping'', False)" "pattern_of ''/health/live'' = (path_segments ''/health/live'', False)"
    "mux_clean ''/ping'' = ''/ping''" "mux_clean ''/health/live'' = ''/health/live''" by code_simp+
  then have "pattern_of path = (path_segments (r_escaped r), False)" "mux_clean (r_escaped r) = r_escaped r"
    using assms(4,5) by auto
  from mux_target_exact [OF m this] have "mux_target (sv_mux sv) r = Inr (Some (path, e))" .
  moreover obtain lm where "global_limit w redis now sv ls r = (Pass r, lm)" using assms(2) by (metis prod.collapse)
  ultimately show ?thesis using assms(3,5) by (auto simp: serve_def serve_mux_def global_limit_def)
qed

lemma liveness_open_witness:
  "\<exists>sv. start all_sockets one_target (\<lambda>_. None) False example_config = Inr sv \<and>
     fst (serve example_world (Inr True) 0 sv no_limiters (with_key ''/ping'' '''')) = Endpoint EpPing (with_key ''/ping'' ''''\<lparr>r_pattern := ''/ping''\<rparr>)"
proof -
  obtain sv where sv: "start all_sockets one_target (\<lambda>_. None) False example_config = Inr sv" using example_started by blast
  have "sv_security sv = cfg_Security example_config" using start_Inr [OF sv] by simp
  then have "fst (global_limit example_world (Inr True) 0 sv no_limiters (with_key ''/ping'' '''')) = Pass (with_key ''/ping'' '''')"
    by (simp add: global_limit_def example_config_def zero_config_def zero_security_def RedisTokenBucketRateLimit_def
        RateLimit_def local_limits_def rate_candidates_def)
  from liveness_open [OF sv this] sv show ?thesis by (auto simp: with_key_def)
qed

text \<open>No open path matches a closed pattern.\<close>

lemma closed_patterns:
  assumes "segs \<in> {[''ping''], [''health'', ''live''], [''health/live'']}"
    "p \<in> {''/metrics'', ''/leoxy'', ''/health/ready'', ''/debug/pprof/'', ''/debug/pprof/profile'', ''/debug/pprof/symbol'', ''/debug/pprof/trace''}"
  shows "\<not> pattern_matches segs (pattern_of p)"
proof -
  have "\<forall>segs \<in> set [[''ping''], [''health'', ''live''], [''health/live'']].
    \<forall>p \<in> set [''/metrics'', ''/leoxy'', ''/health/ready'', ''/debug/pprof/'', ''/debug/pprof/profile'', ''/debug/pprof/symbol'', ''/debug/pprof/trace''].
      \<not> pattern_matches segs (pattern_of p)" by code_simp
  with assms show ?thesis by auto
qed

lemma internalRequest_pattern [simp]: "internalRequest (r\<lparr>r_pattern := q\<rparr>) nets = internalRequest r nets"
proof -
  have "remote_host (r\<lparr>r_pattern := q\<rparr>) = remote_host r" by (simp add: remote_host_def cong: option.case_cong)
  then show ?thesis by (simp add: internalRequest_def)
qed

text \<open>An endpoint that is not open is reached through the mux and, unless it is a profile, the internal gate.\<close>

lemma serve_mux_Endpoint:
  assumes "serve_mux w now sv ls r = (Endpoint e r', ls')" "e \<noteq> EpPing" "e \<noteq> EpLive"
  obtains q where "mux_target (sv_mux sv) r = Inr (Some (q, e))" "e = EpPprof \<or> InternalOnly (sv_internal sv) (r\<lparr>r_pattern := q\<rparr>) = Pass r'"
    "\<And>rt. e \<noteq> EpRoute rt"
proof -
  obtain q e' where t: "mux_target (sv_mux sv) r = Inr (Some (q, e'))"
    using assms(1) by (auto simp: serve_mux_def split: sum.splits option.splits)
  have "e' = e \<and> (e = EpPprof \<or> InternalOnly (sv_internal sv) (r\<lparr>r_pattern := q\<rparr>) = Pass r') \<and> (\<forall>rt. e \<noteq> EpRoute rt)"
  proof (cases e')
    case (EpRoute rt)
    with assms(1) t show ?thesis
      by (auto simp: serve_mux_def serve_route_def Let_def split: prod.splits verdict.splits)
  qed (use assms t in \<open>auto simp: serve_mux_def Let_def split: verdict.splits\<close>)
  with t that show thesis by blast
qed

text \<open>C13: Metrics, documentation and readiness are answered only to an internal request that passed the server's
  access control; profiling, when it is on, needs the access control alone.\<close>

theorem internal_endpoints_gated:
  assumes "start so parse ca pprof cfg = Inr sv" "url_wf r" "serve w redis now sv ls r = (Endpoint e r', ls')" "e \<noteq> EpPing" "e \<noteq> EpLive"
  shows "access (wd_sha w) (wd_jwt w) (sv_access sv) r = Pass r \<and>
    (e = EpPprof \<and> pprof \<or> internalRequest r (sv_internal sv))"
proof -
  obtain ls0 where served: "serve_mux w now sv ls0 r = (Endpoint e r', ls')"
      "r_path r = ''/ping'' \<or> r_path r = ''/health/live'' \<or> access (wd_sha w) (wd_jwt w) (sv_access sv) r = Pass r"
    by (rule serve_served [OF assms(3)]) auto
  obtain q where q: "mux_target (sv_mux sv) r = Inr (Some (q, e))" "e = EpPprof \<or> InternalOnly (sv_internal sv) (r\<lparr>r_pattern := q\<rparr>) = Pass r'"
    "\<And>rt. e \<noteq> EpRoute rt"
    using serve_mux_Endpoint [OF served(1) assms(4,5)] by metis
  note found = mux_target_Some [OF q(1)]
  obtain more where mux: "sv_mux sv = builtin_early pprof @ more @ [(''/health/ready'', EpReady)]"
    "\<forall>(q, e) \<in> set more. \<exists>rt. \<exists>u \<in> set (cfg_Upstream cfg). e = EpRoute rt \<and> \<not> is_stream u \<and>
        make_route parse (cfg_Security cfg) (sv_trusted sv) u = Inr (Some rt) \<and> q \<in> set (up_patterns u)"
    using start_Inr [OF assms(1)] by blast
  have "(q, e) \<notin> set more" using mux(2) q(3) by blast
  then have "(q, e) \<in> set (builtin_early pprof) \<or> (q, e) = (''/health/ready'', EpReady)" using conjunct1 [OF found] unfolding mux(1) by auto
  then have builtin: "(q, e) \<in> {(''/metrics'', EpMetrics), (''/leoxy'', EpDocs), (''/health/ready'', EpReady)} \<or>
      pprof \<and> e = EpPprof \<and> q \<in> {''/debug/pprof/'', ''/debug/pprof/profile'', ''/debug/pprof/symbol'', ''/debug/pprof/trace''}"
    using assms(4,5) unfolding builtin_early_def by (cases pprof) (simp_all, elim disjE conjE, simp_all)
  have "q \<in> {''/metrics'', ''/leoxy'', ''/health/ready'', ''/debug/pprof/'', ''/debug/pprof/profile'', ''/debug/pprof/symbol'', ''/debug/pprof/trace''}"
    using builtin by (simp only: insert_iff empty_iff prod.inject simp_thms) (elim disjE conjE; simp)
  then have "path_segments (r_escaped r) \<notin> {[''ping''], [''health'', ''live''], [''health/live'']}"
    using closed_patterns found by blast
  then have "access (wd_sha w) (wd_jwt w) (sv_access sv) r = Pass r"
    using served(2) open_path_segments [OF assms(2)] by blast
  then show ?thesis using q(2) builtin by (auto simp: InternalOnly_Pass_iff)
qed

lemma global_unlimited: "unlimited sv \<Longrightarrow> global_limit w redis now sv ls r = (Pass r, ls_global ls)"
  by (simp add: global_limit_def RedisTokenBucketRateLimit_def unlimited_def local_limits_def RateLimit_def rate_candidates_def)

lemma internal_endpoints_gated_witness:
  "\<exists>sv r r' ls'. start all_sockets one_target (\<lambda>_. None) False example_config = Inr sv \<and>
     serve example_world (Inr True) 0 sv no_limiters r = (Endpoint EpMetrics r', ls') \<and> internalRequest r (sv_internal sv)"
proof -
  obtain sv where sv: "start all_sockets one_target (\<lambda>_. None) False example_config = Inr sv" using example_started by blast
  let ?r = "with_key ''/metrics'' ''k1''\<lparr>r_remote := ''127.0.0.1:5''\<rparr>"
  have "case start all_sockets one_target (\<lambda>_. None) False example_config of Inl e \<Rightarrow> False
    | Inr sv \<Rightarrow> unlimited sv \<and> url_wf ?r \<and> r_path ?r = ''/metrics'' \<and> passes (access id (\<lambda>_ _ _. False) (sv_access sv) ?r) \<and>
        (case mux_target (sv_mux sv) ?r of Inr (Some (q, EpMetrics)) \<Rightarrow> passes (InternalOnly (sv_internal sv) (?r\<lparr>r_pattern := q\<rparr>)) | _ \<Rightarrow> False)"
    by code_simp
  then have s: "unlimited sv" "url_wf ?r" "r_path ?r = ''/metrics''" "passes (access id (\<lambda>_ _ _. False) (sv_access sv) ?r)"
    "case mux_target (sv_mux sv) ?r of Inr (Some (q, EpMetrics)) \<Rightarrow> passes (InternalOnly (sv_internal sv) (?r\<lparr>r_pattern := q\<rparr>)) | _ \<Rightarrow> False"
    unfolding sv by simp_all
  obtain q where q: "mux_target (sv_mux sv) ?r = Inr (Some (q, EpMetrics))" "passes (InternalOnly (sv_internal sv) (?r\<lparr>r_pattern := q\<rparr>))"
  proof -
    obtain q e where t: "mux_target (sv_mux sv) ?r = Inr (Some (q, e))" using s(5) by (auto split: sum.splits option.splits)
    with s(5) that show thesis by (cases e) auto
  qed
  have "access id (\<lambda>_ _ _. False) (sv_access sv) ?r = Pass ?r" "InternalOnly (sv_internal sv) (?r\<lparr>r_pattern := q\<rparr>) = Pass (?r\<lparr>r_pattern := q\<rparr>)"
    using s(4) q(2) access_same InternalOnly_Pass_iff by (auto simp: passes_def split: verdict.splits)
  then obtain r' ls' where out: "serve example_world (Inr True) 0 sv no_limiters ?r = (Endpoint EpMetrics r', ls')"
    using global_unlimited [OF s(1), of example_world "Inr True" 0 no_limiters ?r] s(3) q(1)
    by (auto simp: serve_def global_limit_def serve_protected_def serve_mux_def example_world_def)
  show ?thesis using internal_endpoints_gated [OF sv s(2) out] sv out by auto
qed

section \<open>Routes and TLS\<close>

text \<open>A route inherits what its upstream leaves out: the server's trusted proxies, the server's body limit after the
  upstream's own two, and, unless it is the root, the server's per-client rate.  A route under a server with a
  body limit is never unlimited.\<close>

theorem route_inherits:
  assumes "make_route parse global trusted u = Inr (Some rt)" "ParseCIDRs (sec_TrustedProxyCIDRs global) = Inr trusted"
  defines "s \<equiv> up_Security u"
  shows "ParseCIDRs (if sec_TrustedProxyCIDRs s = [] then sec_TrustedProxyCIDRs global else sec_TrustedProxyCIDRs s) = Inr (rt_trusted rt) \<and>
    ap_trusted (rt_access rt) = rt_trusted rt \<and>
    rt_maxBody rt = (case filter (\<lambda>m. 0 < m) [sec_MaxBody s, up_Body u] of m # _ \<Rightarrow> m | [] \<Rightarrow> sec_MaxBody global) \<and>
    (0 < sec_MaxBody global \<longrightarrow> 0 < rt_maxBody rt) \<and>
    (0 < sec_RateLimit s \<or> rt_prefix rt \<noteq> ''/'' \<and> 0 < sec_RateLimit global \<longrightarrow>
       (\<exists>l \<in> set (rt_limits rt). l_rate l = (if 0 < sec_RateLimit s then sec_RateLimit s else sec_RateLimit global)))"
proof -
  let ?own = "sec_TrustedProxyCIDRs s \<noteq> []"
  let ?tv = "if ?own then sec_TrustedProxyCIDRs s else sec_TrustedProxyCIDRs global"
  obtain tr pol where parts: "(if ?own then ParseCIDRs ?tv else Inr trusted) = Inr tr"
    "accessControl (sec_AllowCIDRs s) (sec_DenyCIDRs s) (sec_AllowedMethods s) (sec_AllowedPaths s) (sec_APIKeys s)
       (sec_JWTSecret s) (sec_JWTIssuer s) (sec_JWTAudience s) (sec_RequireMTLS s) ?tv = Inr pol"
    and rt: "rt_prefix rt = NormalizePath (up_Path u)" "rt_trusted rt = tr" "rt_access rt = pol" "rt_maxBody rt = route_max_body global u"
    "rt_limits rt = active_limits (rate_candidates (fst (route_rate global (rt_prefix rt) s)) (snd (route_rate global (rt_prefix rt) s))
       (sec_RouteRateLimit s) (sec_RouteRateBurst s) 0 0 (rt_prefix rt) tr)"
    using assms(1) unfolding make_route_def Let_def s_def [symmetric]
    by (auto split: if_splits sum.splits prod.splits)
  have tv: "ParseCIDRs ?tv = Inr tr" using parts(1) assms(2) by (auto split: if_splits)
  have pol: "ap_trusted pol = tr" using parts(2) tv by (auto simp: accessControl_Inr)
  have body: "rt_maxBody rt = (case filter (\<lambda>m. 0 < m) [sec_MaxBody s, up_Body u] of m # _ \<Rightarrow> m | [] \<Rightarrow> sec_MaxBody global)"
    unfolding rt(4) route_max_body_def Let_def s_def by auto
  have limited: "\<exists>l \<in> set (rt_limits rt). l_rate l = fst (route_rate global (rt_prefix rt) s)" if "0 < fst (route_rate global (rt_prefix rt) s)"
    unfolding rt(5) using that by (auto simp: rate_candidates_def)
  have rate: "fst (route_rate global (rt_prefix rt) s) = (if 0 < sec_RateLimit s then sec_RateLimit s else sec_RateLimit global)"
    if "0 < sec_RateLimit s \<or> rt_prefix rt \<noteq> ''/'' \<and> 0 < sec_RateLimit global"
    using that by (auto simp: route_rate_def)
  show ?thesis
    using tv pol rt(2,3) body limited rate by (auto split: if_splits)
qed

lemma route_inherits_witness:
  "\<exists>rt. make_route one_target (zero_security\<lparr>sec_MaxBody := 10, sec_RateLimit := 60\<rparr>) [] (example_upstream\<lparr>up_Path := ''/api''\<rparr>) = Inr (Some rt) \<and>
     rt_maxBody rt = 10 \<and> (\<exists>l \<in> set (rt_limits rt). l_rate l = 60)"
proof -
  let ?g = "zero_security\<lparr>sec_MaxBody := 10, sec_RateLimit := 60\<rparr>" and ?u = "example_upstream\<lparr>up_Path := ''/api''\<rparr>"
  have "case make_route one_target ?g [] ?u of Inr (Some rt) \<Rightarrow> rt_prefix rt = ''/api'' | _ \<Rightarrow> False" by code_simp
  then obtain rt where rt: "make_route one_target ?g [] ?u = Inr (Some rt)" "rt_prefix rt = ''/api''"
    by (auto split: sum.splits option.splits)
  have "ParseCIDRs (sec_TrustedProxyCIDRs ?g) = Inr []" by code_simp
  from route_inherits [OF rt(1) this] rt show ?thesis by (auto simp: example_upstream_def zero_upstream_def zero_security_def)
qed

text \<open>When the server or an HTTP route requires mTLS, a server that starts speaks TLS and verifies the client
  certificates it is shown; when the server itself requires it, a client without one gets no connection.\<close>

theorem mtls_is_verified:
  assumes "start so parse ca pprof cfg = Inr sv" "needs_tls cfg"
  shows "\<exists>auth. buildTLS ca (cfg_Security cfg) = Inr (Some auth) \<and> auth \<noteq> NoClientCert \<and>
    (sec_RequireMTLS (cfg_Security cfg) \<longleftrightarrow> auth = RequireAndVerifyClientCert)"
proof -
  obtain tls where "buildTLS ca (cfg_Security cfg) = Inr tls" "Validate cfg = []" using start_Inr [OF assms(1)] by blast
  moreover from this(2) have "sec_TLSCert (cfg_Security cfg) \<noteq> []" "sec_TLSKey (cfg_Security cfg) \<noteq> []" "sec_ClientCA (cfg_Security cfg) \<noteq> []"
    using assms(2) by (auto simp: Validate_ok_iff config_ok_def)
  ultimately show ?thesis by (auto simp: buildTLS_def split: option.splits if_splits)
qed

definition mtls_config :: ServerConfig where
  "mtls_config = example_config\<lparr>cfg_Security :=
     (cfg_Security example_config)\<lparr>sec_RequireMTLS := True, sec_TLSCert := ''c'', sec_TLSKey := ''k'', sec_ClientCA := ''ca''\<rparr>\<rparr>"

lemma mtls_is_verified_witness:
  "\<exists>sv. start all_sockets one_target (\<lambda>_. Some True) False mtls_config = Inr sv \<and>
     buildTLS (\<lambda>_. Some True) (cfg_Security mtls_config) = Inr (Some RequireAndVerifyClientCert)"
proof -
  have "case start all_sockets one_target (\<lambda>_. Some True) False mtls_config of Inl e \<Rightarrow> False | Inr sv \<Rightarrow> True" by code_simp
  then obtain sv where sv: "start all_sockets one_target (\<lambda>_. Some True) False mtls_config = Inr sv" by (auto split: sum.splits)
  have "needs_tls mtls_config" "sec_RequireMTLS (cfg_Security mtls_config)" by code_simp+
  with mtls_is_verified [OF sv] sv show ?thesis by auto
qed

lemma start_succeeds_witness: "\<exists>sv. start all_sockets one_target (\<lambda>_. None) False example_config = Inr sv"
proof (rule start_succeeds)
  show "Validate example_config = []" "keys_not_blank (cfg_Security example_config)" by code_simp+
  show "buildTLS (\<lambda>_. None) (cfg_Security example_config) = Inr None" by code_simp
  have "list_all (\<lambda>u. keys_not_blank (up_Security u) \<and> plain_path u) (cfg_Upstream example_config)" by code_simp
  then show "keys_not_blank (up_Security u) \<and> plain_path u \<and> (False \<longrightarrow> NormalizePath (up_Path u) \<notin> set pprof_paths)"
    if "u \<in> set (cfg_Upstream example_config)" for u
    using that by (auto simp: list_all_iff)
qed

section \<open>Valid configurations that do not start\<close>

definition at_path :: "string \<Rightarrow> ServerConfig" where
  "at_path p = zero_config\<lparr>cfg_Upstream := [example_upstream\<lparr>up_Path := p\<rparr>]\<rparr>"

text \<open>The profiling patterns are not reserved, so an upstream at \<open>/debug/pprof\<close> passes validation and the mux
  panics when profiling is on.\<close>

lemma pprof_path_conflict:
  "Validate (at_path ''/debug/pprof'') = [] \<and>
   start all_sockets one_target (\<lambda>_. None) True (at_path ''/debug/pprof'') = Inl (MuxConflict ''/debug/pprof/'')"
proof -
  have "case start all_sockets one_target (\<lambda>_. None) True (at_path ''/debug/pprof'') of Inl (MuxConflict p) \<Rightarrow> p = ''/debug/pprof/'' | _ \<Rightarrow> False" by code_simp
  moreover have "Validate (at_path ''/debug/pprof'') = []" by code_simp
  ultimately show ?thesis by (auto split: sum.splits startup_error.splits)
qed

text \<open>Validation compares paths as they are written, the mux after decoding them: \<open>/%70ing\<close> is \<open>/ping\<close>.\<close>

lemma encoded_path_conflict:
  "Validate (at_path ''/%70ing'') = [] \<and> start all_sockets one_target (\<lambda>_. None) False (at_path ''/%70ing'') = Inl (MuxConflict ''/%70ing'')"
proof -
  have "case start all_sockets one_target (\<lambda>_. None) False (at_path ''/%70ing'') of Inl (MuxConflict p) \<Rightarrow> p = ''/%70ing'' | _ \<Rightarrow> False" by code_simp
  moreover have "Validate (at_path ''/%70ing'') = []" by code_simp
  ultimately show ?thesis by (auto split: sum.splits startup_error.splits)
qed

text \<open>A blank API key passes validation and is fatal at start.\<close>

lemma blank_key_fatal:
  "Validate (zero_config\<lparr>cfg_Security := zero_security\<lparr>sec_APIKeys := ['' '']\<rparr>\<rparr>) = [] \<and>
   start all_sockets one_target (\<lambda>_. None) False (zero_config\<lparr>cfg_Security := zero_security\<lparr>sec_APIKeys := ['' '']\<rparr>\<rparr>) = Inl (BadAccess EmptyApiKey)"
proof -
  let ?c = "zero_config\<lparr>cfg_Security := zero_security\<lparr>sec_APIKeys := ['' '']\<rparr>\<rparr>"
  have "case start all_sockets one_target (\<lambda>_. None) False ?c of Inl (BadAccess EmptyApiKey) \<Rightarrow> True | _ \<Rightarrow> False" by code_simp
  moreover have "Validate ?c = []" by code_simp
  ultimately show ?thesis by (auto split: sum.splits startup_error.splits access_error.splits)
qed

end
