(* ===== verification/RateBound.thy ===== *)
theory RateBound
  imports RateLimit
begin

text \<open>
  What the limiter of RateLimit guarantees.  Token counts stay between zero and the capacity of
  their rule; a denied request pays nothing; and over any window of time the number of admitted
  requests of one bucket is bounded by its capacity plus what the rate refills, up to the rounding
  of float64.  The last result also shows that sweeping the map never gives tokens away.  All of
  it is proved for any arithmetic with the laws of \<open>float_arith\<close>.
\<close>

section \<open>The shape of a limiter's keys\<close>

definition keys_apart :: "ILimit list \<Rightarrow> bool" where
  "keys_apart limits \<longleftrightarrow>
     distinct limits \<and> length limits \<le> 3 \<and>
     (\<forall>l \<in> set limits. 0 < l_rate l \<and> 0 < l_burst l \<and> (\<forall>r. l_key l r \<noteq> [])) \<and>
     (\<forall>l \<in> set limits. \<forall>l' \<in> set limits. \<forall>r r'. l_key l r = l_key l' r' \<longrightarrow> l = l')"

lemma keys_apart_candidates:
  "keys_apart (active_limits (rate_candidates a b c d e f route trusted))"
proof -
  let ?i = "\<lambda>r. ''ip:'' @ limiterIP (GetClientIP r trusted)"
  have "?i \<noteq> (\<lambda>r. ''route:'' @ route)" "?i \<noteq> (\<lambda>r. ''global'')" "(\<lambda>r :: request. ''route:'' @ route) \<noteq> (\<lambda>r. ''global'')"
    by (auto simp: fun_eq_iff)
  then show ?thesis by (auto simp: keys_apart_def rate_candidates_def)
qed

text \<open>The bucket a rule finds under a key when nothing is evicted.\<close>

definition current :: "(real \<Rightarrow> real) \<Rightarrow> time \<Rightarrow> ILimit \<Rightarrow> string \<Rightarrow> (string \<rightharpoonup> bucket) \<Rightarrow> bucket" where
  "current rnd now l k state =
     (case state k of Some b \<Rightarrow> b | None \<Rightarrow> \<lparr>b_tokens = capacity rnd l, b_updated = now, b_fullAt = 0\<rparr>)"

lemma fetch_calm: "map_len state < maxBuckets \<Longrightarrow> fetch rnd pick now l k state = (state, current rnd now l k state)"
  by (auto simp: fetch_def current_def evict_def split: option.splits)

lemma charge_calm:
  "map_len state < maxBuckets \<Longrightarrow>
   charge rnd pick now lks state = (state, those (map (\<lambda>(l, k). pay rnd now l (current rnd now l k state)) lks))"
  by (induction lks) (auto simp: fetch_calm split: option.splits)

lemma those_Some: "those xs = Some ys \<longleftrightarrow> xs = map Some ys"
  by (induction xs arbitrary: ys) (auto split: option.splits)

lemma pad_zip:
  "length ks = length bs \<Longrightarrow> zip (pad3 x ks) (pad3 y bs) = zip ks bs @ replicate (3 - length bs) (x, y)"
  by (simp add: pad3_def zip_replicate)

lemma write_back_Some: "k \<in> fst ` set kbs \<Longrightarrow> write_back kbs state k \<noteq> None"
proof (induction kbs arbitrary: state)
  case (Cons kb kbs)
  then show ?case by (cases kb, cases "k \<in> fst ` set kbs") (auto simp: write_back_other)
qed simp

text \<open>One admitted request writes exactly the paid buckets, and the zero bucket under the empty key.\<close>

lemma allow_admitted:
  assumes calm: "map_len (lm_state (sweep_limiter now lm)) < maxBuckets"
    and "allow rnd pick limits lm now r = (True, lm')" and "keys_apart limits" and "k \<noteq> []"
  defines "s \<equiv> lm_state (sweep_limiter now lm)"
  shows "(\<exists>l \<in> set limits. l_key l r = k \<and> (\<exists>b. pay rnd now l (current rnd now l k s) = Some b \<and> lm_state lm' k = Some b))
       \<or> (k \<notin> (\<lambda>l. l_key l r) ` set limits \<and> lm_state lm' k = s k)"
proof -
  let ?keys = "map (\<lambda>l. l_key l r) limits"
  have zip_keys: "zip limits ?keys = map (\<lambda>l. (l, l_key l r)) limits" by (simp add: zip_map2 zip_same_conv_map)
  from assms(2) obtain bs where
    bs: "those (map (\<lambda>l. pay rnd now l (current rnd now l (l_key l r) s)) limits) = Some bs"
    and lm': "lm_state lm' = write_back (zip (pad3 [] ?keys) (pad3 zero_bucket bs)) s"
    unfolding allow_def Let_def zip_keys charge_calm [OF calm] s_def
    by (auto simp: comp_def split: option.splits)
  have map_bs: "map (\<lambda>l. pay rnd now l (current rnd now l (l_key l r) s)) limits = map Some bs"
    using bs by (simp add: those_Some)
  then have len: "length ?keys = length bs" by (metis length_map)
  have mem: "\<exists>l \<in> set limits. l_key l r = k \<and> pay rnd now l (current rnd now l k s) = Some b"
    if "(k, b) \<in> set (zip ?keys bs)" for b
  proof -
    from that obtain i where i: "i < length limits" "l_key (limits ! i) r = k" "bs ! i = b"
      using len by (auto simp: set_zip)
    then have "pay rnd now (limits ! i) (current rnd now (limits ! i) k s) = Some (bs ! i)"
      using arg_cong [OF map_bs, of "\<lambda>xs. xs ! i"] len by simp
    with i show ?thesis by (intro bexI [of _ "limits ! i"]) auto
  qed
  have kbs: "zip (pad3 [] ?keys) (pad3 zero_bucket bs) = zip ?keys bs @ replicate (3 - length bs) ([], zero_bucket)"
    by (rule pad_zip [OF len])
  show ?thesis
  proof (cases "k \<in> set ?keys")
    case True
    then have "k \<in> fst ` set (zip ?keys bs)" using len by (metis map_fst_zip set_map)
    then have "lm_state lm' k \<noteq> None" unfolding lm' kbs by (intro write_back_Some) auto
    then obtain b where b: "lm_state lm' k = Some b" by blast
    then have "(k, b) \<in> set (zip ?keys bs)"
      using write_back_result [of _ s k b] assms(4) \<open>k \<in> fst ` set (zip ?keys bs)\<close>
      unfolding lm' kbs by fastforce
    with mem b show ?thesis by blast
  next
    case False
    then have "k \<notin> fst ` set (zip ?keys bs)" using len by (metis map_fst_zip set_map)
    then have "lm_state lm' k = s k" unfolding lm' kbs
      using assms(4) by (intro write_back_other) auto
    with False show ?thesis by auto
  qed
qed

lemma allow_denied:
  assumes "map_len (lm_state (sweep_limiter now lm)) < maxBuckets"
    and "allow rnd pick limits lm now r = (False, lm')"
  shows "lm_state lm' = lm_state (sweep_limiter now lm)"
  using assms(2) by (auto simp: allow_def Let_def charge_calm [OF assms(1)] split: option.splits)

section \<open>The size of the map\<close>

definition run_keys :: "ILimit list \<Rightarrow> request set \<Rightarrow> string set" where
  "run_keys limits rs = insert [] (\<Union>l \<in> set limits. l_key l ` rs)"

lemma finite_run_keys: "finite rs \<Longrightarrow> finite (run_keys limits rs)"
  by (simp add: run_keys_def)

lemma allow_dom:
  assumes "dom (lm_state lm) \<subseteq> run_keys limits rs" "r \<in> rs" "allow rnd pick limits lm now r = (ok, lm')"
  shows "dom (lm_state lm') \<subseteq> run_keys limits rs"
proof
  fix k
  assume "k \<in> dom (lm_state lm')"
  then obtain b where b: "lm_state lm' k = Some b" by auto
  let ?keys = "map (\<lambda>l. l_key l r) limits"
  obtain st res where c: "charge rnd pick now (zip limits ?keys) (lm_state (sweep_limiter now lm)) = (st, res)"
    by fastforce
  have old: "st k = Some b \<Longrightarrow> k \<in> run_keys limits rs"
    using charge_sub [OF c] sweep_limiter_sub assms(1) by blast
  show "k \<in> run_keys limits rs"
  proof (cases res)
    case None
    with c assms(3) b old show ?thesis by (auto simp: allow_def Let_def)
  next
    case (Some bs)
    with c assms(3) have "lm_state lm' = write_back (zip (pad3 [] ?keys) (pad3 zero_bucket bs)) st"
      by (auto simp: allow_def Let_def)
    with b write_back_result consider "(k, b) \<in> set (zip (pad3 [] ?keys) (pad3 zero_bucket bs))" | "st k = Some b"
      by metis
    then show ?thesis
    proof cases
      case 1
      then have "k \<in> set (pad3 [] ?keys)" by (meson in_set_zipE)
      with assms(2) show ?thesis by (auto simp: pad3_def run_keys_def)
    qed (rule old)
  qed
qed

lemma calm_if_few:
  assumes "dom (lm_state lm) \<subseteq> run_keys limits rs" "finite rs" "card (run_keys limits rs) < maxBuckets"
  shows "map_len (lm_state (sweep_limiter now lm)) < maxBuckets"
proof -
  have "dom (lm_state (sweep_limiter now lm)) \<subseteq> run_keys limits rs"
  proof
    fix k assume "k \<in> dom (lm_state (sweep_limiter now lm))"
    then obtain b where "lm_state (sweep_limiter now lm) k = Some b" by blast
    then have "lm_state lm k = Some b" by (rule sweep_limiter_sub)
    with assms(1) show "k \<in> run_keys limits rs" by blast
  qed
  then have "card (dom (lm_state (sweep_limiter now lm))) \<le> card (run_keys limits rs)"
    using assms(2) by (intro card_mono finite_run_keys)
  with assms(3) show ?thesis by (simp add: map_len_def)
qed

section \<open>Charging one bucket\<close>

text \<open>The factor by which rounding may speed a refill up.\<close>

definition drift :: "real \<Rightarrow> real" where
  "drift u = (1 + u) ^ 6 / (1 - u) ^ 3"

definition ideal_rate :: "ILimit \<Rightarrow> real" where
  "ideal_rate l = of_int (l_rate l) / 60"

context float_arith
begin

lemma drift_ge: "(1 + ulp) ^ 6 \<le> drift ulp" "1 \<le> drift ulp" "(1 + ulp) ^ 2 / (1 - ulp) ^ 3 \<le> drift ulp"
proof -
  have d: "0 < (1 - ulp) ^ 3" "(1 - ulp) ^ 3 \<le> 1"
    using ulp_nonneg ulp_lt_1 by (simp_all add: power_le_one)
  have one: "1 \<le> (1 + ulp) ^ 6" using ulp_nonneg by simp
  have "(1 + ulp) ^ 6 * (1 - ulp) ^ 3 \<le> (1 + ulp) ^ 6 * 1"
    by (rule mult_left_mono) (use d one in linarith)+
  then show six: "(1 + ulp) ^ 6 \<le> drift ulp"
    unfolding drift_def using d(1) by (simp only: pos_le_divide_eq mult_1_right)
  show "1 \<le> drift ulp" using one six by linarith
  have "(1 + ulp) ^ 2 \<le> (1 + ulp) ^ 6" using ulp_nonneg by (intro power_increasing) simp_all
  then show "(1 + ulp) ^ 2 / (1 - ulp) ^ 3 \<le> drift ulp"
    unfolding drift_def using d(1) by (simp only: divide_right_mono less_imp_le)
qed

lemma per_second_bounds:
  assumes "0 < l_rate l"
  shows "0 < per_second rnd l" "per_second rnd l \<le> ideal_rate l * (1 + ulp) ^ 2"
proof -
  let ?r = "of_int (l_rate l) :: real"
  have "0 < rnd ?r" using assms by (intro rnd_pos) simp
  then show "0 < per_second rnd l" unfolding per_second_def by (intro rnd_pos) simp
  have "per_second rnd l \<le> rnd ?r / 60 * (1 + ulp)"
    unfolding per_second_def using \<open>0 < rnd ?r\<close> by (intro rnd_upper) simp
  also have "\<dots> \<le> ?r * (1 + ulp) / 60 * (1 + ulp)"
    using assms ulp_nonneg by (intro mult_right_mono divide_right_mono rnd_upper) auto
  finally show "per_second rnd l \<le> ideal_rate l * (1 + ulp) ^ 2"
    by (simp add: ideal_rate_def power2_eq_square)
qed

lemma dur_seconds_bounds:
  assumes "0 \<le> d"
  shows "0 \<le> dur_seconds rnd d" "dur_seconds rnd d \<le> of_int d / 1000000000 * (1 + ulp) ^ 3"
proof -
  let ?s = "of_int (d div second) :: real" and ?n = "of_int (d mod second) :: real"
  have q: "go_div d second = d div second" "go_rem d second = d mod second"
    using assms by (simp_all add: go_div_nonneg go_rem_nonneg second_def)
  have nn: "0 \<le> ?s" "0 \<le> ?n" using assms by (auto simp: second_def pos_imp_zdiv_nonneg_iff)
  have fr: "0 \<le> rnd (rnd ?n / 1000000000)" "0 \<le> rnd ?s" using nn by (auto intro!: rnd_nonneg)
  then show "0 \<le> dur_seconds rnd d" unfolding dur_seconds_def q by (intro rnd_nonneg) simp
  have "rnd (rnd ?n / 1000000000) \<le> rnd ?n / 1000000000 * (1 + ulp)"
    using nn by (intro rnd_upper divide_nonneg_pos rnd_nonneg) auto
  also have "\<dots> \<le> ?n * (1 + ulp) / 1000000000 * (1 + ulp)"
    using nn ulp_nonneg by (intro mult_right_mono divide_right_mono rnd_upper) auto
  finally have n: "rnd (rnd ?n / 1000000000) \<le> ?n / 1000000000 * (1 + ulp) ^ 2"
    by (simp add: power2_eq_square)
  have "rnd ?s \<le> ?s * (1 + ulp)" by (rule rnd_upper [OF nn(1)])
  also have "\<dots> \<le> ?s * (1 + ulp) ^ 2"
    using nn ulp_nonneg by (intro mult_left_mono) (auto simp: power2_eq_square)
  finally have s: "rnd ?s \<le> ?s * (1 + ulp) ^ 2" .
  have "dur_seconds rnd d \<le> (rnd ?s + rnd (rnd ?n / 1000000000)) * (1 + ulp)"
    unfolding dur_seconds_def q using fr by (intro rnd_upper) simp
  also have "\<dots> \<le> (?s * (1 + ulp) ^ 2 + ?n / 1000000000 * (1 + ulp) ^ 2) * (1 + ulp)"
    using n s ulp_nonneg by (intro mult_right_mono add_mono) auto
  also have "\<dots> = (?s + ?n / 1000000000) * (1 + ulp) ^ 3"
    by (simp add: algebra_simps power2_eq_square power3_eq_cube)
  also have "?s + ?n / 1000000000 = of_int d / 1000000000"
  proof -
    have "second * (d div second) + d mod second = d" by simp
    then have "of_int second * ?s + ?n = of_int d" by (metis of_int_add of_int_mult)
    then show ?thesis by (simp add: second_def)
  qed
  finally show "dur_seconds rnd d \<le> of_int d / 1000000000 * (1 + ulp) ^ 3" .
qed

text \<open>What a refill adds, at most.\<close>

lemma refill_gain:
  assumes "0 < l_rate l" "0 \<le> d"
  shows "0 \<le> rnd (dur_seconds rnd d * per_second rnd l)"
    "rnd (dur_seconds rnd d * per_second rnd l) \<le> drift ulp * ideal_rate l * (of_int d / 1000000000)"
proof -
  note s = dur_seconds_bounds [OF assms(2)] and p = per_second_bounds [OF assms(1)]
  have pos: "0 \<le> dur_seconds rnd d * per_second rnd l" using s p by simp
  then show "0 \<le> rnd (dur_seconds rnd d * per_second rnd l)" by (rule rnd_nonneg)
  have ir: "0 \<le> ideal_rate l" using assms by (simp add: ideal_rate_def)
  have "rnd (dur_seconds rnd d * per_second rnd l) \<le> dur_seconds rnd d * per_second rnd l * (1 + ulp)"
    by (rule rnd_upper [OF pos])
  also have "\<dots> \<le> (of_int d / 1000000000 * (1 + ulp) ^ 3) * (ideal_rate l * (1 + ulp) ^ 2) * (1 + ulp)"
    using s p assms ulp_nonneg by (intro mult_right_mono mult_mono) auto
  also have "\<dots> = (1 + ulp) ^ 6 * (ideal_rate l * (of_int d / 1000000000))"
    by (simp add: algebra_simps power_def numeral_eq_Suc)
  also have "\<dots> \<le> drift ulp * (ideal_rate l * (of_int d / 1000000000))"
    using drift_ge(1) ir assms by (intro mult_right_mono) auto
  finally show "rnd (dur_seconds rnd d * per_second rnd l) \<le> drift ulp * ideal_rate l * (of_int d / 1000000000)"
    by (simp add: mult.assoc)
qed

lemma capacity_ge_1: "0 < l_burst l \<Longrightarrow> 1 \<le> capacity rnd l"
  unfolding capacity_def by (intro rnd_ge_1) simp

lemma pay_range:
  assumes "0 < l_burst l" "pay rnd now l b = Some b'"
  shows "0 \<le> b_tokens b' \<and> b_tokens b' \<le> capacity rnd l"
proof -
  let ?x = "refill rnd now l b"
  have x: "1 \<le> ?x" "b_tokens b' = rnd (?x - 1)" using assms(2) by (auto simp: pay_def Let_def split: if_splits)
  have "?x \<le> capacity rnd l" by (simp add: refill_def)
  then have "rnd (?x - 1) \<le> rnd (capacity rnd l)" by (intro rnd_mono) simp
  moreover have "0 \<le> rnd (?x - 1)" using x by (intro rnd_nonneg) simp
  ultimately show ?thesis using x by (simp add: capacity_def)
qed

text \<open>Paying a token lowers the level by one, up to the rounding of two operations.\<close>

lemma pay_level:
  assumes l: "0 < l_rate l" "0 < l_burst l"
    and b: "0 \<le> b_tokens b" "b_updated b \<le> now" and "pay rnd now l b = Some b'"
  shows "b_tokens b' \<le>
    min (capacity rnd l) (b_tokens b + drift ulp * ideal_rate l * (of_int (now - b_updated b) / 1000000000))
      - 1 + 2 * ulp * capacity rnd l"
proof -
  let ?B = "capacity rnd l" and ?d = "time_sub now (b_updated b)" and ?x = "refill rnd now l b"
  let ?g = "rnd (dur_seconds rnd ?d * per_second rnd l)"
  let ?y = "b_tokens b + drift ulp * ideal_rate l * (of_int (now - b_updated b) / 1000000000)"
  have B: "1 \<le> ?B" using l(2) by (rule capacity_ge_1)
  have x: "1 \<le> ?x" "b_tokens b' = rnd (?x - 1)"
    using assms(5) by (auto simp: pay_def Let_def split: if_splits)
  have d: "0 \<le> ?d" "?d \<le> now - b_updated b" using b by (auto simp: time_sub_def)
  have "0 \<le> drift ulp * ideal_rate l" using drift_ge(2) l by (simp add: ideal_rate_def)
  then have "?g \<le> drift ulp * ideal_rate l * (of_int (now - b_updated b) / 1000000000)"
    using refill_gain(2) [OF l(1) d(1)] d(2)
    by (elim order_trans) (intro mult_left_mono divide_right_mono, auto)
  then have gy: "b_tokens b + ?g \<le> ?y" by simp
  have gnn: "0 \<le> b_tokens b + ?g" using b refill_gain(1) [OF l(1) d(1)] by simp
  have xB: "?x \<le> ?B" by (simp add: refill_def)
  have "?x \<le> min ?B ?y + ulp * ?B"
  proof (cases "b_tokens b + ?g \<le> ?B")
    case True
    have "?x \<le> rnd (b_tokens b + ?g)" by (simp add: refill_def)
    also have "\<dots> \<le> (b_tokens b + ?g) * (1 + ulp)" by (rule rnd_upper [OF gnn])
    also have "\<dots> \<le> b_tokens b + ?g + ulp * ?B"
      using True ulp_nonneg mult_left_mono [OF True ulp_nonneg] by (simp add: algebra_simps)
    finally show ?thesis using gy xB True ulp_nonneg B
      by (smt (verit) mult_nonneg_nonneg)
  next
    case False
    then have "?B \<le> ?y" using gy by simp
    moreover have "0 \<le> ulp * ?B" using ulp_nonneg B by simp
    ultimately show ?thesis using xB by (simp add: min_def)
  qed
  moreover have "rnd (?x - 1) \<le> (?x - 1) * (1 + ulp)" using x by (intro rnd_upper) simp
  moreover have "(?x - 1) * (1 + ulp) \<le> ?x - 1 + ulp * ?B"
    using mult_left_mono [OF xB ulp_nonneg] ulp_nonneg by (simp add: algebra_simps)
  ultimately show ?thesis using x(2) by simp
qed

text \<open>A bucket that is swept is full.\<close>

text \<open>The float computation of \<open>fill_time\<close>: three roundings around the exact value.\<close>

lemma fill_float_bounds:
  fixes miss p :: real
  assumes "0 \<le> miss" "0 < p"
  defines "F \<equiv> rnd (rnd (rnd miss / p) * 1000000000)"
  shows "0 \<le> F" "F \<le> miss / p * (1 + ulp) ^ 3 * 1000000000" "miss * (1 - ulp) ^ 3 / p * 1000000000 \<le> F"
proof -
  have n1: "0 \<le> rnd miss / p" using assms(1,2) by (simp add: rnd_nonneg)
  have n2: "0 \<le> rnd (rnd miss / p) * 1000000000" using n1 by (simp add: rnd_nonneg)
  have u1: "0 \<le> 1 - ulp" using ulp_lt_1 by simp
  show "0 \<le> F" unfolding F_def by (rule rnd_nonneg [OF n2])
  have "F \<le> rnd (rnd miss / p) * 1000000000 * (1 + ulp)"
    unfolding F_def by (rule rnd_upper [OF n2])
  also have "\<dots> \<le> (miss * (1 + ulp) / p * (1 + ulp)) * 1000000000 * (1 + ulp)"
    using n1 ulp_nonneg assms(1,2)
    by (intro mult_right_mono order_trans [OF rnd_upper [OF n1]] divide_right_mono rnd_upper) auto
  also have "\<dots> = miss / p * (1 + ulp) ^ 3 * 1000000000" by (simp add: power3_eq_cube)
  finally show "F \<le> miss / p * (1 + ulp) ^ 3 * 1000000000" .
  have "miss * (1 - ulp) / p * (1 - ulp) \<le> rnd miss / p * (1 - ulp)"
    using assms(1,2) u1 by (intro mult_right_mono divide_right_mono rnd_lower) auto
  also have "\<dots> \<le> rnd (rnd miss / p)" by (rule rnd_lower [OF n1])
  finally have "miss * (1 - ulp) / p * (1 - ulp) * 1000000000 * (1 - ulp)
      \<le> rnd (rnd miss / p) * 1000000000 * (1 - ulp)"
    using u1 by (intro mult_right_mono) auto
  also have "\<dots> \<le> F" unfolding F_def by (rule rnd_lower [OF n2])
  finally have "miss * (1 - ulp) / p * (1 - ulp) * 1000000000 * (1 - ulp) \<le> F" .
  moreover have "miss * (1 - ulp) ^ 3 / p * 1000000000 = miss * (1 - ulp) / p * (1 - ulp) * 1000000000 * (1 - ulp)"
    by (simp add: power3_eq_cube)
  ultimately show "miss * (1 - ulp) ^ 3 / p * 1000000000 \<le> F" by linarith
qed

lemma swept_is_full:
  assumes l: "0 < l_rate l" "0 < l_burst l"
    and small: "capacity rnd l / per_second rnd l * (1 + ulp) ^ 3 * 1000000000 < 2 ^ 63"
    and b: "0 \<le> b_tokens b" "b_tokens b \<le> capacity rnd l"
    and full: "b_fullAt b = b_updated b + fill_time rnd l (b_tokens b)"
    and swept: "time_after now (b_fullAt b)"
  shows "capacity rnd l \<le> b_tokens b + drift ulp * ideal_rate l * (of_int (now - b_updated b) / 1000000000)"
proof -
  let ?B = "capacity rnd l" and ?p = "per_second rnd l"
  note p = per_second_bounds [OF l(1)]
  define miss where "miss = ?B - b_tokens b"
  define F where "F = rnd (rnd (rnd miss / ?p) * 1000000000)"
  have m: "0 \<le> miss" "miss \<le> ?B" using b by (auto simp: miss_def)
  have Fb: "0 \<le> F" "F \<le> miss / ?p * (1 + ulp) ^ 3 * 1000000000" "miss * (1 - ulp) ^ 3 / ?p * 1000000000 \<le> F"
    unfolding F_def by (rule fill_float_bounds; use m p in simp)+
  have "miss / ?p * (1 + ulp) ^ 3 * 1000000000 \<le> ?B / ?p * (1 + ulp) ^ 3 * 1000000000"
    using m p ulp_nonneg by (intro mult_right_mono divide_right_mono) auto
  then have "F < 2 ^ 63" using small Fb(2) by linarith
  moreover have "\<lfloor>F\<rfloor> < 2 ^ 63"
  proof -
    have "of_int \<lfloor>F\<rfloor> \<le> F" by simp
    with \<open>F < 2 ^ 63\<close> have "(of_int \<lfloor>F\<rfloor> :: real) < of_int (2 ^ 63)" by simp
    then show ?thesis by (simp only: of_int_less_iff)
  qed
  ultimately have "fill_time rnd l (b_tokens b) = \<lfloor>F\<rfloor>"
    using Fb(1) by (simp add: fill_time_def F_def miss_def float_to_i64_def trunc_real_def Let_def)
  with full swept have "\<lfloor>F\<rfloor> + 1 \<le> now - b_updated b" by (simp add: time_after_def)
  then have F: "F \<le> of_int (now - b_updated b)" by linarith
  then have "miss * (1 - ulp) ^ 3 / ?p * 1000000000 \<le> of_int (now - b_updated b)"
    using Fb(3) by linarith
  then have main: "miss * (1 - ulp) ^ 3 \<le> of_int (now - b_updated b) / 1000000000 * ?p"
    using p by (simp add: field_simps)
  define e where "e = (of_int (now - b_updated b) :: real) / 1000000000"
  have e: "0 \<le> e"
    using Fb(1) F by (simp add: e_def)
  have "miss * (1 - ulp) ^ 3 \<le> e * (ideal_rate l * (1 + ulp) ^ 2)"
    using main p e unfolding e_def [symmetric] by (meson mult_left_mono order_trans)
  then have "miss \<le> e * ideal_rate l * ((1 + ulp) ^ 2 / (1 - ulp) ^ 3)"
    using ulp_lt_1 by (simp add: field_simps)
  also have "\<dots> \<le> e * ideal_rate l * drift ulp"
    using drift_ge(3) e l by (intro mult_left_mono) (auto simp: ideal_rate_def)
  finally have "?B - b_tokens b \<le> drift ulp * ideal_rate l * e" by (simp only: miss_def mult.commute mult.left_commute)
  then show ?thesis unfolding e_def by linarith
qed

end

section \<open>The level of a bucket over a run\<close>

text \<open>The tokens a key could spend at time \<open>t\<close> if refills were never rounded down.\<close>

definition flow :: "real \<Rightarrow> ILimit \<Rightarrow> real" where
  "flow u l = drift u * ideal_rate l / 1000000000"

definition level :: "(real \<Rightarrow> real) \<Rightarrow> real \<Rightarrow> ILimit \<Rightarrow> time \<Rightarrow> bucket option \<Rightarrow> real" where
  "level rnd u l t ob =
     (case ob of
        None \<Rightarrow> capacity rnd l
      | Some b \<Rightarrow> min (capacity rnd l) (b_tokens b + flow u l * of_int (t - b_updated b)))"

definition bucket_ok :: "(real \<Rightarrow> real) \<Rightarrow> ILimit \<Rightarrow> time \<Rightarrow> bucket option \<Rightarrow> bool" where
  "bucket_ok rnd l t ob \<longleftrightarrow>
     (case ob of
        None \<Rightarrow> True
      | Some b \<Rightarrow> 0 \<le> b_tokens b \<and> b_tokens b \<le> capacity rnd l \<and> b_updated b \<le> t \<and>
          b_fullAt b = b_updated b + fill_time rnd l (b_tokens b))"

lemma bucket_ok_later: "bucket_ok rnd l t ob \<Longrightarrow> t \<le> t' \<Longrightarrow> bucket_ok rnd l t' ob"
  by (auto simp: bucket_ok_def split: option.splits)

lemma sweep_limiter_cases:
  "lm_state (sweep_limiter now lm) k = lm_state lm k \<or>
   (lm_state (sweep_limiter now lm) k = None \<and> (\<exists>b. lm_state lm k = Some b \<and> time_after now (b_fullAt b)))"
  by (auto simp: sweep_limiter_def sweep_state_def split: option.splits)

text \<open>The fill time of every bucket fits an int64 Duration: about 292 years.\<close>

definition fills_in_time :: "(real \<Rightarrow> real) \<Rightarrow> real \<Rightarrow> ILimit \<Rightarrow> bool" where
  "fills_in_time rnd u l \<longleftrightarrow> capacity rnd l / per_second rnd l * (1 + u) ^ 3 * 1000000000 < 2 ^ 63"

context float_arith
begin

lemma flow_nonneg: "0 < l_rate l \<Longrightarrow> 0 \<le> flow ulp l"
  using drift_ge(2) by (simp add: flow_def ideal_rate_def)

lemma level_le_capacity: "level rnd ulp l t ob \<le> capacity rnd l"
  by (simp add: level_def split: option.splits)

lemma level_nonneg:
  assumes "0 < l_rate l" "0 < l_burst l" "bucket_ok rnd l t ob"
  shows "0 \<le> level rnd ulp l t ob"
proof (cases ob)
  case None
  with capacity_ge_1 [OF assms(2)] show ?thesis by (simp add: level_def)
next
  case (Some b)
  with assms have "0 \<le> flow ulp l * of_int (t - b_updated b)"
    by (intro mult_nonneg_nonneg flow_nonneg) (auto simp: bucket_ok_def)
  with Some assms capacity_ge_1 [OF assms(2)] show ?thesis by (auto simp: level_def bucket_ok_def)
qed

lemma level_wait:
  assumes "0 < l_rate l" "t \<le> now"
  shows "level rnd ulp l now ob \<le> level rnd ulp l t ob + flow ulp l * of_int (now - t)"
proof -
  have "0 \<le> flow ulp l * of_int (now - t)" using assms by (intro mult_nonneg_nonneg flow_nonneg) auto
  then show ?thesis by (auto simp: level_def min_def algebra_simps split: option.splits)
qed

text \<open>Sweeping gives no tokens away.\<close>

lemma level_swept:
  assumes l: "0 < l_rate l" "0 < l_burst l" "fills_in_time rnd ulp l"
    and ok: "bucket_ok rnd l t (lm_state lm k)" and "t \<le> now"
  shows "level rnd ulp l now (lm_state (sweep_limiter now lm) k)
      \<le> level rnd ulp l t (lm_state lm k) + flow ulp l * of_int (now - t)"
  using sweep_limiter_cases [of now lm k]
proof (elim disjE conjE exE)
  assume "lm_state (sweep_limiter now lm) k = lm_state lm k"
  then show ?thesis using level_wait [OF l(1) assms(5)] by simp
next
  fix b
  assume none: "lm_state (sweep_limiter now lm) k = None" and b: "lm_state lm k = Some b"
    and late: "time_after now (b_fullAt b)"
  have "capacity rnd l \<le> b_tokens b + drift ulp * ideal_rate l * (of_int (now - b_updated b) / 1000000000)"
    using ok b late l by (intro swept_is_full) (auto simp: bucket_ok_def fills_in_time_def)
  also have "\<dots> = b_tokens b + flow ulp l * of_int (now - b_updated b)" by (simp add: flow_def)
  finally have "capacity rnd l \<le> level rnd ulp l now (Some b)" by (simp add: level_def)
  then show ?thesis using none b level_wait [OF l(1) assms(5), of "Some b"] by (simp add: level_def)
qed

text \<open>One call of \<open>allow\<close>: the level of a key falls by one for each request it admits.\<close>

lemma allow_level:
  assumes keys: "keys_apart limits" and l: "l \<in> set limits" "fills_in_time rnd ulp l" and k: "l_key l r0 = k"
    and ok: "bucket_ok rnd l t (lm_state lm k)" and t: "t \<le> now"
    and calm: "map_len (lm_state (sweep_limiter now lm)) < maxBuckets"
    and step: "allow rnd pick limits lm now r = (adm, lm')"
  shows "bucket_ok rnd l now (lm_state lm' k) \<and>
    level rnd ulp l now (lm_state lm' k) + (if adm \<and> l_key l r = k then 1 - 2 * ulp * capacity rnd l else 0)
      \<le> level rnd ulp l t (lm_state lm k) + flow ulp l * of_int (now - t)"
proof -
  let ?s = "lm_state (sweep_limiter now lm)"
  have lpos: "0 < l_rate l" "0 < l_burst l" "k \<noteq> []" using keys l k by (auto simp: keys_apart_def)
  note swept = level_swept [OF lpos(1,2) l(2) ok t]
  have s_ok: "bucket_ok rnd l now (?s k)"
    using bucket_ok_later [OF ok t] sweep_limiter_cases [of now lm k] by (auto simp: bucket_ok_def)
  show ?thesis
  proof (cases adm)
    case False
    with allow_denied [OF calm] step swept s_ok show ?thesis by simp
  next
    case True
    with step have "allow rnd pick limits lm now r = (True, lm')" by simp
    from allow_admitted [OF calm this keys lpos(3)] show ?thesis
    proof (elim disjE bexE conjE exE)
      fix l' b'
      assume l': "l' \<in> set limits" "l_key l' r = k"
        and pay: "pay rnd now l' (current rnd now l' k ?s) = Some b'" and new: "lm_state lm' k = Some b'"
      have "l' = l" using keys l' l(1) k unfolding keys_apart_def by metis
      let ?c = "current rnd now l k ?s"
      have c: "0 \<le> b_tokens ?c" "b_updated ?c \<le> now"
        using s_ok capacity_ge_1 [OF lpos(2)] by (auto simp: current_def bucket_ok_def split: option.splits)
      have pay': "pay rnd now l ?c = Some b'" using pay \<open>l' = l\<close> by simp
      have upd: "b_updated b' = now" "b_fullAt b' = now + fill_time rnd l (b_tokens b')"
        using pay' by (auto simp: pay_def Let_def split: if_splits)
      note range = pay_range [OF lpos(2) pay']
      have "b_tokens b' \<le> min (capacity rnd l) (b_tokens ?c + flow ulp l * of_int (now - b_updated ?c))
          - 1 + 2 * ulp * capacity rnd l"
        using pay_level [OF lpos(1,2) c pay'] by (simp add: flow_def)
      also have "min (capacity rnd l) (b_tokens ?c + flow ulp l * of_int (now - b_updated ?c)) = level rnd ulp l now (?s k)"
        by (simp add: current_def level_def split: option.splits)
      finally have "b_tokens b' + (1 - 2 * ulp * capacity rnd l) \<le> level rnd ulp l now (?s k)" by linarith
      moreover have "level rnd ulp l now (Some b') = b_tokens b'"
        using range upd by (simp add: level_def)
      ultimately show ?thesis using swept range upd new True l'(2) \<open>l' = l\<close> by (simp add: bucket_ok_def)
    next
      assume "k \<notin> (\<lambda>l. l_key l r) ` set limits" "lm_state lm' k = ?s k"
      with swept s_ok l(1) show ?thesis by auto
    qed
  qed
qed

end

text \<open>How many requests of key \<open>k\<close> a run admitted.\<close>

definition admitted :: "ILimit \<Rightarrow> string \<Rightarrow> (time \<times> request) list \<Rightarrow> bool list \<Rightarrow> nat" where
  "admitted l k reqs oks = length (filter (\<lambda>((t, r), ok). ok \<and> l_key l r = k) (zip reqs oks))"

lemma admitted_simps [simp]:
  "admitted l k [] oks = 0"
  "admitted l k ((t, r) # reqs) (ok # oks) = (if ok \<and> l_key l r = k then 1 else 0) + admitted l k reqs oks"
  by (auto simp: admitted_def)

context float_arith
begin

lemma run_level:
  assumes "keys_apart limits" "l \<in> set limits" "fills_in_time rnd ulp l" "l_key l r0 = k"
    and "finite rs" "card (run_keys limits rs) < maxBuckets"
    and "dom (lm_state lm) \<subseteq> run_keys limits rs" "snd ` set reqs \<subseteq> rs"
    and "bucket_ok rnd l t (lm_state lm k)" "sorted (t # map fst reqs)"
    and "allow_run rnd pick limits lm reqs = (oks, lm')"
  shows "bucket_ok rnd l (last (t # map fst reqs)) (lm_state lm' k) \<and>
    dom (lm_state lm') \<subseteq> run_keys limits rs \<and>
    level rnd ulp l (last (t # map fst reqs)) (lm_state lm' k) + real (admitted l k reqs oks) * (1 - 2 * ulp * capacity rnd l)
      \<le> level rnd ulp l t (lm_state lm k) + flow ulp l * of_int (last (t # map fst reqs) - t)"
  using assms(7-)
proof (induction reqs arbitrary: lm t oks)
  case (Cons q reqs)
  obtain now r where q: "q = (now, r)" by fastforce
  obtain adm lm1 where step: "allow rnd pick limits lm now r = (adm, lm1)" by fastforce
  obtain oks' where rest: "allow_run rnd pick limits lm1 reqs = (oks', lm')" and oks: "oks = adm # oks'"
    using Cons.prems(5) step by (auto simp: q split: prod.splits)
  have r: "r \<in> rs" "snd ` set reqs \<subseteq> rs" and t: "t \<le> now" "sorted (now # map fst reqs)"
    using Cons.prems by (auto simp: q)
  let ?fin = "last (now # map fst reqs)"
  have calm: "map_len (lm_state (sweep_limiter now lm)) < maxBuckets"
    by (rule calm_if_few [OF Cons.prems(1) assms(5,6)])
  note one = allow_level [OF assms(1-4) Cons.prems(3) t(1) calm step]
  have dom1: "dom (lm_state lm1) \<subseteq> run_keys limits rs" by (rule allow_dom [OF Cons.prems(1) r(1) step])
  note more = Cons.IH [OF dom1 r(2) conjunct1 [OF one] t(2) rest]
  have "flow ulp l * of_int (?fin - now) + flow ulp l * of_int (now - t) = flow ulp l * of_int (?fin - t)"
    by (simp add: algebra_simps)
  then have "level rnd ulp l ?fin (lm_state lm' k) + real (admitted l k reqs oks') * (1 - 2 * ulp * capacity rnd l)
        + (if adm \<and> l_key l r = k then 1 - 2 * ulp * capacity rnd l else 0)
      \<le> level rnd ulp l t (lm_state lm k) + flow ulp l * of_int (?fin - t)"
    using one more by linarith
  moreover have "real (admitted l k (q # reqs) oks) * (1 - 2 * ulp * capacity rnd l)
      = real (admitted l k reqs oks') * (1 - 2 * ulp * capacity rnd l)
        + (if adm \<and> l_key l r = k then 1 - 2 * ulp * capacity rnd l else 0)"
    by (simp add: q oks distrib_right)
  moreover have "last (t # map fst (q # reqs)) = ?fin" by (simp add: q)
  ultimately show ?case using more by simp
qed simp

text \<open>Over any window that follows any earlier run of the same limiter.\<close>

lemma window_bound:
  assumes keys: "keys_apart limits" "l \<in> set limits" "fills_in_time rnd ulp l" "l_key l r0 = k"
    and few: "finite rs" "card (run_keys limits rs) < maxBuckets" "snd ` set (earlier @ reqs) \<subseteq> rs"
    and times: "sorted (t0 # map fst earlier @ t # map fst reqs)"
    and runs: "allow_run rnd pick limits (new_limiter t0) earlier = (oks0, lm)"
      "allow_run rnd pick limits lm reqs = (oks, lm')"
  shows "real (admitted l k reqs oks) * (1 - 2 * ulp * capacity rnd l)
    \<le> capacity rnd l + flow ulp l * of_int (last (t # map fst reqs) - t)"
proof -
  have l: "0 < l_rate l" "0 < l_burst l" using keys by (auto simp: keys_apart_def)
  have "sorted ((t0 # map fst earlier) @ (t # map fst reqs))" using times by simp
  then have s: "sorted (t0 # map fst earlier)" "sorted (t # map fst reqs)"
    and "\<forall>x \<in> set (t0 # map fst earlier). x \<le> t"
    unfolding sorted_append by simp_all
  then have s3: "last (t0 # map fst earlier) \<le> t" using last_in_set by blast
  have "dom (lm_state (new_limiter t0)) \<subseteq> run_keys limits rs" "bucket_ok rnd l t0 (lm_state (new_limiter t0) k)"
    by (simp_all add: new_limiter_def bucket_ok_def)
  moreover have "snd ` set earlier \<subseteq> rs" "snd ` set reqs \<subseteq> rs" using few(3) by auto
  ultimately have before: "bucket_ok rnd l (last (t0 # map fst earlier)) (lm_state lm k)" "dom (lm_state lm) \<subseteq> run_keys limits rs"
    using run_level [OF keys few(1,2) _ _ _ s(1) runs(1)] by blast+
  have ok: "bucket_ok rnd l t (lm_state lm k)" by (rule bucket_ok_later [OF before(1) s3])
  note main = run_level [OF keys few(1,2) before(2) \<open>snd ` set reqs \<subseteq> rs\<close> ok s(2) runs(2)]
  have "0 \<le> level rnd ulp l (last (t # map fst reqs)) (lm_state lm' k)"
    using main by (intro level_nonneg [OF l]) blast
  with main level_le_capacity [of l t "lm_state lm k"] show ?thesis by linarith
qed

end

section \<open>The guarantees for float64\<close>

lemma capacity_f64: "0 < l_burst l \<Longrightarrow> l_burst l \<le> 10 ^ 8 \<Longrightarrow> capacity fl64 l = of_int (l_burst l)"
  unfolding capacity_def by (rule fl64_of_int) simp

lemma fills_in_time_f64:
  assumes "0 < l_rate l" "0 < l_burst l" "l_burst l \<le> 10 ^ 8"
  shows "fills_in_time fl64 (1 / 2 ^ 53) l"
proof -
  have "1 \<le> fl64 (of_int (l_rate l))" using assms by (intro f64.rnd_ge_1) simp
  then have "fl64 (1 / 60) \<le> per_second fl64 l" unfolding per_second_def by (intro fl64_mono) simp
  moreover have "1 / 60 * (1 - 1 / 2 ^ 53) \<le> fl64 (1 / 60)" by (rule f64.rnd_lower) simp
  ultimately have p: "1 / 61 \<le> per_second fl64 l" by simp
  have "capacity fl64 l / per_second fl64 l \<le> 10 ^ 8 / (1 / 61)"
    using assms p by (intro frac_le) (simp_all add: capacity_f64)
  then have "capacity fl64 l / per_second fl64 l * ((1 + 1 / 2 ^ 53) ^ 3 * 1000000000)
      \<le> 10 ^ 8 / (1 / 61) * ((1 + 1 / 2 ^ 53) ^ 3 * 1000000000)"
    by (rule mult_right_mono) simp
  also have "\<dots> < (2 ^ 63 :: real)" by (simp add: power3_eq_cube)
  finally show ?thesis by (simp add: fills_in_time_def mult.assoc)
qed

lemma drift_f64: "drift (1 / 2 ^ 53) \<le> 1 + 1 / 2 ^ 49"
  unfolding drift_def by (simp add: power_def numeral_eq_Suc field_simps)

text \<open>The bound of the limiter in the form the properties use.\<close>

definition within_rate :: "int \<Rightarrow> int \<Rightarrow> duration \<Rightarrow> nat \<Rightarrow> bool" where
  "within_rate rate burst d n \<longleftrightarrow>
     real n * (1 - of_int burst / 2 ^ 52) \<le> of_int burst + (1 + 1 / 2 ^ 49) * (of_int rate / 60) * (of_int d / of_int second)"

lemma within_rate_fewer: "within_rate rate burst d n \<Longrightarrow> m \<le> n \<Longrightarrow> burst \<le> 10 ^ 8 \<Longrightarrow> within_rate rate burst d m"
proof -
  assume w: "within_rate rate burst d n" and le: "m \<le> n" "burst \<le> 10 ^ 8"
  have "of_int burst \<le> (2 ^ 52 :: real)" using le(2) by simp
  then have "real m * (1 - of_int burst / 2 ^ 52) \<le> real n * (1 - of_int burst / 2 ^ 52)"
    using le(1) by (intro mult_right_mono) (simp_all add: field_simps)
  with w show "within_rate rate burst d m" by (simp add: within_rate_def)
qed

lemma within_rate_longer: "within_rate rate burst d n \<Longrightarrow> d \<le> d' \<Longrightarrow> 0 < rate \<Longrightarrow> within_rate rate burst d' n"
proof -
  assume w: "within_rate rate burst d n" and le: "d \<le> d'" "0 < rate"
  have "(1 + 1 / 2 ^ 49) * (of_int rate / 60) * (of_int d / of_int second) \<le> (1 + 1 / 2 ^ 49) * (of_int rate / 60) * (of_int d' / (of_int second :: real))"
    using le by (intro mult_left_mono divide_right_mono) (simp_all add: second_def)
  with w show "within_rate rate burst d' n" by (simp add: within_rate_def)
qed

lemma limiter_within_rate:
  assumes "keys_apart limits" "l \<in> set limits" "l_burst l \<le> 10 ^ 8" "finite rs" "card (run_keys limits rs) < maxBuckets"
    and "snd ` set (earlier @ window) \<subseteq> rs" "sorted (t0 # map fst earlier @ t # map fst window)"
    and "allow_run fl64 pick limits (new_limiter t0) earlier = (oks0, lm)" "allow_run fl64 pick limits lm window = (oks, lm')"
  shows "within_rate (l_rate l) (l_burst l) (last (t # map fst window) - t) (admitted l (l_key l r) window oks)"
proof -
  have pos: "0 < l_rate l" "0 < l_burst l" using assms(1,2) by (auto simp: keys_apart_def)
  let ?d = "last (t # map fst window) - t"
  have "real (admitted l (l_key l r) window oks) * (1 - 2 * (1 / 2 ^ 53) * capacity fl64 l)
    \<le> capacity fl64 l + flow (1 / 2 ^ 53) l * of_int ?d"
    by (rule f64.window_bound [OF assms(1,2) fills_in_time_f64 [OF pos assms(3)] refl assms(4-9)])
  moreover have "t \<le> last (t # map fst window)" using assms(7) by (cases window rule: rev_cases) (auto simp: sorted_append)
  then have "0 \<le> of_int (l_rate l) / 60 * (real_of_int ?d / of_int second)" using pos by (simp add: second_def)
  from mult_right_mono [OF drift_f64 this]
  have "flow (1 / 2 ^ 53) l * of_int ?d \<le> (1 + 1 / 2 ^ 49) * (of_int (l_rate l) / 60) * (of_int ?d / of_int second)"
    by (simp add: flow_def ideal_rate_def second_def)
  ultimately show ?thesis unfolding within_rate_def capacity_f64 [OF pos(2) assms(3)] by simp
qed

lemma active_limits_candidates:
  "l \<in> set (active_limits (rate_candidates a b c d e f route trusted)) \<Longrightarrow> 0 < l_rate l \<and> 0 < l_burst l"
  by (rule active_limits_pos)

text \<open>C2: Over any window of a run of the limiter in which the clock readings do not go back and which uses, as a whole, fewer
  than \<open>maxBuckets\<close> distinct bucket keys (at that number \<open>evict\<close> forgets a bucket, and its client gets a fresh burst), the
  requests admitted against one bucket (one client network, one route, or the whole server) with a burst of at most
  \<open>10 ^ 8\<close> number at most that burst plus what the configured rate refills in the window; float64 rounding adds at most one
  part in \<open>2 ^ 49\<close> to the rate and burst over \<open>2 ^ 52\<close> to the count.\<close>

theorem rate_admission_bound:
  assumes "limits = active_limits (rate_candidates perIP ipBurst perRoute routeBurst global globalBurst route trusted)"
    and "l \<in> set limits" "l_burst l \<le> 10 ^ 8"
    and "card (run_keys limits (snd ` set (earlier @ window))) < maxBuckets"
    and "sorted (t0 # map fst earlier @ t # map fst window)"
    and "allow_run fl64 pick limits (new_limiter t0) earlier = (oks0, lm)"
    and "allow_run fl64 pick limits lm window = (oks, lm')"
  shows "real (admitted l (l_key l r) window oks) * (1 - of_int (l_burst l) / 2 ^ 52)
    \<le> of_int (l_burst l) + (1 + 1 / 2 ^ 49) * (of_int (l_rate l) / 60) * (of_int (last (t # map fst window) - t) / of_int second)"
  using limiter_within_rate [OF _ assms(2,3) _ assms(4) order_refl assms(5-7), of r]
  by (simp add: within_rate_def assms(1) keys_apart_candidates)

lemma rate_admission_bound_witness:
  "\<exists>limits l oks lm'. limits = active_limits (rate_candidates 60 2 0 0 0 0 ''/'' []) \<and> l \<in> set limits \<and>
     allow_run fl64 (\<lambda>_. []) limits (new_limiter 0) [(0, plain_request ''192.0.2.1:9'' Map.empty), (second, plain_request ''192.0.2.1:9'' Map.empty)] = (oks, lm') \<and>
     real (admitted l ''ip:192.0.2.1'' [(0, plain_request ''192.0.2.1:9'' Map.empty), (second, plain_request ''192.0.2.1:9'' Map.empty)] oks) * (1 - 2 / 2 ^ 52)
       \<le> 2 + (1 + 1 / 2 ^ 49)"
proof -
  let ?r = "plain_request ''192.0.2.1:9'' Map.empty"
  let ?limits = "active_limits (rate_candidates 60 2 0 0 0 0 ''/'' [])"
  let ?l = "\<lparr>l_rate = 60, l_burst = 2, l_key = (\<lambda>r. ''ip:'' @ limiterIP (GetClientIP r []))\<rparr>"
  let ?reqs = "[(0, ?r), (second, ?r)]"
  have lims: "?limits = [?l]" by (simp add: rate_candidates_def)
  have key: "l_key ?l ?r = ''ip:192.0.2.1''" by code_simp
  have few: "card (run_keys ?limits (snd ` set ([] @ ?reqs))) < maxBuckets"
    by (simp add: run_keys_def lims maxBuckets_def card_insert_if)
  obtain oks lm' where run: "allow_run fl64 (\<lambda>_. []) ?limits (new_limiter 0) ?reqs = (oks, lm')" by fastforce
  have "real (admitted ?l (l_key ?l ?r) ?reqs oks) * (1 - of_int (l_burst ?l) / 2 ^ 52)
    \<le> of_int (l_burst ?l) + (1 + 1 / 2 ^ 49) * (of_int (l_rate ?l) / 60) * (of_int (last (0 # map fst ?reqs) - 0) / of_int second)"
    by (rule rate_admission_bound [OF refl _ _ few _ _ run]) (simp_all add: lims second_def)
  then have "real (admitted ?l ''ip:192.0.2.1'' ?reqs oks) * (1 - 2 / 2 ^ 52) \<le> 2 + (1 + 1 / 2 ^ 49)"
    unfolding key by (simp add: second_def)
  then show ?thesis using run lims by auto
qed

text \<open>A request the limiter refuses costs nothing: no bucket that stays in the map changes, none is
  created, and the answer is 429 with Retry-After.\<close>

theorem refused_pays_nothing:
  assumes "RateLimit rnd pick limits lm now r = (Reject p, lm')"
  shows "p_status p = status_too_many \<and> header_get (p_header p) ''Retry-After'' = ''60'' \<and> lm_state lm' \<subseteq>\<^sub>m lm_state lm"
proof -
  obtain ok lm1 where a: "allow rnd pick limits lm now r = (ok, lm1)" by fastforce
  with assms have r: "p = rate_limited" "\<not> ok" "lm' = lm1" by (auto simp: RateLimit_def split: if_splits)
  obtain st res where c: "charge rnd pick now (zip limits (map (\<lambda>l. l_key l r) limits)) (lm_state (sweep_limiter now lm)) = (st, res)"
    by fastforce
  with a r have "lm_state lm' = st" by (auto simp: allow_def Let_def split: option.splits)
  then have "lm_state lm' k = Some b \<Longrightarrow> lm_state lm k = Some b" for k b
    using charge_sub [OF c] sweep_limiter_sub by blast
  then have "lm_state lm' \<subseteq>\<^sub>m lm_state lm" by (auto simp: map_le_def)
  moreover have "header_get (p_header rate_limited) ''Retry-After'' = ''60''" by code_simp
  ultimately show ?thesis by (simp add: r rate_limited_def)
qed

lemma refused_pays_nothing_witness:
  "\<exists>p lm'. RateLimit fl64 (\<lambda>_. []) (active_limits (rate_candidates 60 1 0 0 0 0 ''/'' []))
       \<lparr>lm_state = [''ip:192.0.2.1'' \<mapsto> zero_bucket], lm_lastSweep = 0\<rparr> 0 (plain_request ''192.0.2.1:9'' Map.empty) = (Reject p, lm')
     \<and> p_status p = status_too_many"
proof -
  let ?r = "plain_request ''192.0.2.1:9'' Map.empty" and ?limits = "active_limits (rate_candidates 60 1 0 0 0 0 ''/'' [])"
  let ?lm = "\<lparr>lm_state = [''ip:192.0.2.1'' \<mapsto> zero_bucket], lm_lastSweep = 0\<rparr>"
  have "''ip:'' @ limiterIP (GetClientIP ?r []) = ''ip:192.0.2.1''" by code_simp
  then have "fst (RateLimit fl64 (\<lambda>_. []) ?limits ?lm 0 ?r) = Reject rate_limited"
    by (simp add: RateLimit_def rate_candidates_def allow_def sweep_limiter_def sweep_due_def fetch_def pay_def refill_def
        capacity_def zero_bucket_def dur_seconds_def go_div_def go_rem_def go_eval)
  then obtain lm' where "RateLimit fl64 (\<lambda>_. []) ?limits ?lm 0 ?r = (Reject rate_limited, lm')" by (metis prod.collapse)
  then show ?thesis using refused_pays_nothing by blast
qed

subsection \<open>A fresh limiter admits its burst\<close>

definition spent :: "ILimit list \<Rightarrow> time \<Rightarrow> request \<Rightarrow> int \<Rightarrow> limiter \<Rightarrow> bool" where
  "spent limits t r j lm \<longleftrightarrow>
     lm_lastSweep lm = t \<and> dom (lm_state lm) \<subseteq> run_keys limits {r} \<and>
     (\<forall>l \<in> set limits.
        case lm_state lm (l_key l r) of
          None \<Rightarrow> j = 0
        | Some b \<Rightarrow> b_tokens b = of_int (l_burst l - j) \<and> b_updated b = t)"

lemma spent_calm:
  assumes "keys_apart limits" "spent limits t r j lm"
  shows "sweep_limiter t lm = lm" "map_len (lm_state lm) < maxBuckets"
proof -
  show s: "sweep_limiter t lm = lm"
    using assms(2) by (simp add: spent_def sweep_limiter_def sweep_due_def go_eval)
  have run: "run_keys limits {r} = insert [] ((\<lambda>l. l_key l r) ` set limits)" by (auto simp: run_keys_def)
  have "card (run_keys limits {r}) \<le> Suc (card ((\<lambda>l. l_key l r) ` set limits))"
    unfolding run by (rule card_insert_le_m1) simp_all
  also have "\<dots> \<le> Suc (length limits)"
    using card_image_le [of "set limits" "\<lambda>l. l_key l r"] card_length [of limits] by simp
  also have "\<dots> < maxBuckets" using assms(1) by (simp add: keys_apart_def maxBuckets_def)
  finally have "map_len (lm_state (sweep_limiter t lm)) < maxBuckets"
    using assms(2) by (intro calm_if_few) (auto simp: spent_def)
  then show "map_len (lm_state lm) < maxBuckets" by (simp add: s)
qed

context float_arith
begin

lemma pay_now:
  assumes "b_tokens b = of_int c" "b_updated b = t" "0 \<le> c" "c \<le> l_burst l" "l_burst l \<le> 2 ^ 53"
  shows "pay rnd t l b = (if c < 1 then None
    else Some \<lparr>b_tokens = of_int (c - 1), b_updated = t, b_fullAt = t + fill_time rnd l (of_int (c - 1))\<rparr>)"
proof -
  have "dur_seconds rnd (time_sub t (b_updated b)) = 0"
    by (simp add: assms(2) dur_seconds_def go_div_def go_rem_def go_eval)
  then have "refill rnd t l b = of_int c"
    using assms rnd_of_int [of c] rnd_of_int [of "l_burst l"] by (simp add: refill_def capacity_def)
  moreover have "rnd (of_int c - 1) = of_int (c - 1)" if "1 \<le> c"
    using rnd_of_int [of "c - 1"] assms that by simp
  ultimately show ?thesis by (auto simp: pay_def Let_def)
qed

lemma spent_current:
  assumes "spent limits t r j lm" "l \<in> set limits" "l_burst l \<le> 2 ^ 53" "0 < l_burst l"
  shows "b_tokens (current rnd t l (l_key l r) (lm_state lm)) = of_int (l_burst l - j)"
    "b_updated (current rnd t l (l_key l r) (lm_state lm)) = t"
proof -
  have "capacity rnd l = of_int (l_burst l)" unfolding capacity_def using assms(3,4) by (intro rnd_of_int) simp
  then show "b_tokens (current rnd t l (l_key l r) (lm_state lm)) = of_int (l_burst l - j)"
    "b_updated (current rnd t l (l_key l r) (lm_state lm)) = t"
    using assms(1,2) by (auto simp: spent_def current_def split: option.splits)
qed

lemma spent_step:
  assumes keys: "keys_apart limits" and small: "\<forall>l \<in> set limits. l_burst l \<le> 2 ^ 53"
    and s: "spent limits t r j lm" and j: "0 \<le> j" "\<forall>l \<in> set limits. j \<le> l_burst l"
    and step: "allow rnd pick limits lm t r = (ok, lm')"
  shows "ok \<longleftrightarrow> (\<forall>l \<in> set limits. j < l_burst l)" "ok \<Longrightarrow> spent limits t r (j + 1) lm'" "\<not> ok \<Longrightarrow> spent limits t r j lm'"
proof -
  note calm = spent_calm [OF keys s]
  let ?keys = "map (\<lambda>l. l_key l r) limits"
  have zip_keys: "zip limits ?keys = map (\<lambda>l. (l, l_key l r)) limits" by (simp add: zip_map2 zip_same_conv_map)
  have pos: "0 < l_burst l" if "l \<in> set limits" for l using keys that by (simp add: keys_apart_def)
  have pay: "pay rnd t l (current rnd t l (l_key l r) (lm_state lm)) =
      (if l_burst l - j < 1 then None
       else Some \<lparr>b_tokens = of_int (l_burst l - j - 1), b_updated = t, b_fullAt = t + fill_time rnd l (of_int (l_burst l - j - 1))\<rparr>)"
    if "l \<in> set limits" for l
    using that small j pos spent_current [OF s] by (intro pay_now) auto
  have ok: "ok \<longleftrightarrow> those (map (\<lambda>l. pay rnd t l (current rnd t l (l_key l r) (lm_state lm))) limits) \<noteq> None"
    using step unfolding allow_def Let_def zip_keys calm(1) charge_calm [OF calm(2)]
    by (auto simp: comp_def split: option.splits)
  have those_None: "those xs = None \<longleftrightarrow> None \<in> set xs" for xs :: "bucket option list"
    by (induction xs) (auto split: option.splits)
  show ok_iff: "ok \<longleftrightarrow> (\<forall>l \<in> set limits. j < l_burst l)"
    unfolding ok those_None using pay by (force split: if_splits)
  have last: "lm_lastSweep lm' = t"
    using step s unfolding allow_def Let_def calm(1) by (auto simp: spent_def split: prod.splits option.splits)
  have dom: "dom (lm_state lm') \<subseteq> run_keys limits {r}"
    using s by (intro allow_dom [OF _ _ step]) (auto simp: spent_def)
  {
    assume "\<not> ok"
    then have "lm_state lm' = lm_state lm"
      using allow_denied [of t lm] calm step by fastforce
    then show "spent limits t r j lm'" using s last dom by (simp add: spent_def)
  next
    assume ok
    have "case lm_state lm' (l_key l r) of None \<Rightarrow> j + 1 = 0
        | Some b \<Rightarrow> b_tokens b = of_int (l_burst l - (j + 1)) \<and> b_updated b = t" if l: "l \<in> set limits" for l
    proof -
      have "l_key l r \<noteq> []" using keys l by (simp add: keys_apart_def)
      moreover have "map_len (lm_state (sweep_limiter t lm)) < maxBuckets" using calm by simp
      ultimately obtain l' b where l': "l' \<in> set limits" "l_key l' r = l_key l r"
        and b: "pay rnd t l' (current rnd t l' (l_key l r) (lm_state lm)) = Some b" "lm_state lm' (l_key l r) = Some b"
        using allow_admitted [OF _ step [unfolded eqTrueI [OF \<open>ok\<close>]] keys, of "l_key l r"] l calm(1) by fastforce
      have "l' = l" using keys l l' unfolding keys_apart_def by metis
      with b pay [OF l] show ?thesis by (auto split: if_splits)
    qed
    then show "spent limits t r (j + 1) lm'" using last dom by (simp add: spent_def)
  }
qed

lemma fresh_run:
  assumes keys: "keys_apart limits" and small: "\<forall>l \<in> set limits. l_burst l \<le> 2 ^ 53"
    and s: "spent limits t r j lm" and j: "0 \<le> j" "\<forall>l \<in> set limits. j \<le> l_burst l"
  shows "fst (allow_run rnd pick limits lm (replicate n (t, r))) = map (\<lambda>i. \<forall>l \<in> set limits. j + int i < l_burst l) [0..<n]"
  using s j
proof (induction n arbitrary: j lm)
  case (Suc n)
  obtain ok lm' where step: "allow rnd pick limits lm t r = (ok, lm')" by fastforce
  note one = spent_step [OF keys small Suc.prems step]
  have shift: "map f [0..<Suc n] = f 0 # map (\<lambda>i. f (Suc i)) [0..<n]" for f :: "nat \<Rightarrow> bool"
    by (simp add: upt_conv_Cons map_Suc_upt [symmetric] del: upt_Suc)
  show ?case
  proof (cases ok)
    case True
    then have "\<forall>l \<in> set limits. j + 1 \<le> l_burst l" using one(1) by fastforce
    with Suc.IH [OF one(2) [OF True]] Suc.prems(2) True one(1)
    show ?thesis unfolding shift by (simp add: step split_beta add.assoc)
  next
    case False
    then obtain l where l: "l \<in> set limits" "l_burst l \<le> j" using one(1) by force
    then have no: "(\<forall>l \<in> set limits. j + int i < l_burst l) = False" for i by force
    from False Suc.IH [OF one(3) [OF False] Suc.prems(2,3)] show ?thesis
      unfolding shift no by (simp add: step split_beta del: of_nat_Suc)
  qed
qed simp

end

text \<open>C34: A fresh limiter is not stingy: of \<open>n\<close> equal requests at one instant it admits exactly the first
  \<open>m\<close>, where \<open>m\<close> is the smallest burst of its rules.\<close>

theorem fresh_burst_admitted:
  assumes "limits = active_limits (rate_candidates perIP ipBurst perRoute routeBurst global globalBurst route trusted)"
    and "\<And>l. l \<in> set limits \<Longrightarrow> l_burst l \<le> 2 ^ 53"
  shows "fst (allow_run fl64 pick limits (new_limiter t) (replicate n (t, r)))
    = map (\<lambda>i. \<forall>l \<in> set limits. int i < l_burst l) [0..<n]"
proof -
  have "keys_apart limits" by (simp add: assms(1) keys_apart_candidates)
  moreover have "spent limits t r 0 (new_limiter t)" by (auto simp: spent_def new_limiter_def)
  moreover have "0 \<le> l_burst l" if "l \<in> set limits" for l
    using active_limits_candidates that assms(1) by fastforce
  ultimately show ?thesis using f64.fresh_run [of limits t r 0 "new_limiter t" pick n] assms(2) by simp
qed

lemma fresh_burst_admitted_witness:
  "fst (allow_run fl64 (\<lambda>_. []) (active_limits (rate_candidates 60 3 600 0 0 0 ''/api'' [])) (new_limiter 5)
     (replicate 5 (5, plain_request ''192.0.2.1:9'' Map.empty))) = [True, True, True, False, False]"
  by (subst fresh_burst_admitted [OF refl]) (auto simp: rate_candidates_def upt_rec)

end
