(* ===== verification/ServerRate.thy ===== *)
theory ServerRate
  imports Serving RateBound "HOL-Library.Sublist"
begin

text \<open>
  The rate limits of a running server: what the limiter of RateLimit guarantees, seen through \<open>serve\<close> of
  \<open>core/run.go\<close>.  A run of the server over a sequence of requests is, for the global limiter, a run over the same
  sequence, and for the limiter of a route a run over those requests that the mux sends to it.
\<close>

section \<open>Runs of the server\<close>

type_synonym event = "time \<times> (redis_error + bool) \<times> request"

definition ev_time :: "event \<Rightarrow> time" where "ev_time ev = fst ev"

definition ev_request :: "event \<Rightarrow> request" where "ev_request ev = snd (snd ev)"

fun serve_run :: "world \<Rightarrow> server \<Rightarrow> limiters \<Rightarrow> event list \<Rightarrow> outcome list \<times> limiters" where
  "serve_run w sv ls [] = ([], ls)"
| "serve_run w sv ls ((now, redis, r) # evs) =
     (case serve w redis now sv ls r of
        (out, ls') \<Rightarrow> (case serve_run w sv ls' evs of (outs, ls'') \<Rightarrow> (out # outs, ls'')))"

definition stamped :: "event list \<Rightarrow> (time \<times> request) list" where
  "stamped evs = map (\<lambda>ev. (ev_time ev, ev_request ev)) evs"

lemma ev_simps [simp]: "ev_time (now, redis, r) = now" "ev_request (now, redis, r) = r"
  by (simp_all add: ev_time_def ev_request_def)

lemma stamped_simps [simp]:
  "stamped [] = []" "stamped ((now, redis, r) # evs) = (now, r) # stamped evs"
  by (simp_all add: stamped_def ev_time_def ev_request_def)

lemma stamped_times [simp]: "map fst (stamped evs) = map ev_time evs"
  by (simp add: stamped_def)

lemma serve_run_length: "serve_run w sv ls evs = (outs, ls') \<Longrightarrow> length outs = length evs"
  by (induction evs arbitrary: ls outs) (auto split: prod.splits)

section \<open>The global limiter\<close>

text \<open>A request that got past the middleware of the server.\<close>

fun served :: "outcome \<Rightarrow> bool" where
  "served (Answered p) = False"
| "served (Endpoint e r) = True"
| "served (Proxied rt r) = True"
| "served (Redirected location) = True"
| "served Unmatched = True"

definition global_limits :: "server \<Rightarrow> ILimit list" where
  "global_limits sv = local_limits (sec_GlobalRateLimit (sv_security sv)) (sec_GlobalRateBurst (sv_security sv)) ''leoxy:global''"

lemma serve_mux_global: "serve_mux w now sv ls r = (out, ls') \<Longrightarrow> ls_global ls' = ls_global ls"
  by (auto simp: serve_mux_def Let_def split: sum.splits option.splits endpoint.splits prod.splits verdict.splits)

lemma serve_global: "serve w redis now sv ls r = (out, ls') \<Longrightarrow> ls_global ls' = snd (global_limit w redis now sv ls r)"
  by (auto simp: serve_def global_limit_def serve_protected_def Let_def dest!: serve_mux_global
      split: prod.splits verdict.splits if_splits)

text \<open>Which limiter decides about a request: the local one when no Redis is configured, or when Redis failed and the server may
  fail open; otherwise what Redis answered.\<close>

definition redis_used :: "server \<Rightarrow> bool" where
  "redis_used sv \<longleftrightarrow> trim_space (sec_RedisAddr (sv_security sv)) \<noteq> []"

definition local_event :: "server \<Rightarrow> event \<Rightarrow> bool" where
  "local_event sv ev \<longleftrightarrow>
     \<not> redis_used sv \<or> (case fst (snd ev) of Inl e \<Rightarrow> sec_RedisFailOpen (sv_security sv) | Inr allowed \<Rightarrow> False)"

definition redis_granted :: "server \<Rightarrow> event \<Rightarrow> bool" where
  "redis_granted sv ev \<longleftrightarrow> redis_used sv \<and> fst (snd ev) = Inr True"

lemma serve_decided:
  assumes "global_limits sv \<noteq> []" "0 < sec_GlobalRateLimit (sv_security sv)" "serve w redis now sv ls r = (out, ls')"
  shows "if local_event sv (now, redis, r)
    then \<exists>ok. allow (wd_rnd w) (wd_pick w) (global_limits sv) (ls_global ls) now r = (ok, ls_global ls') \<and> (served out \<longrightarrow> ok)
    else ls_global ls' = ls_global ls \<and> (served out \<longrightarrow> redis_granted sv (now, redis, r))"
proof -
  obtain v lm where g: "global_limit w redis now sv ls r = (v, lm)" by fastforce
  have lm: "ls_global ls' = lm" using serve_global [OF assms(3)] g by simp
  have passed: "v = Pass r" if "served out"
  proof -
    have "out \<noteq> Answered p" for p using that by auto
    from serve_served [OF assms(3) this] g show ?thesis by auto
  qed
  obtain ok lm' where a: "allow (wd_rnd w) (wd_pick w) (global_limits sv) (ls_global ls) now r = (ok, lm')" by fastforce
  show ?thesis
  proof (cases "local_event sv (now, redis, r)")
    case True
    then have "(v, lm) = (if \<not> ok then Reject rate_limited else Pass r, lm')"
      using assms(1,2) a g
      by (auto simp: global_limit_def RedisTokenBucketRateLimit_def RateLimit_def global_limits_def local_event_def redis_used_def
          Let_def split: sum.splits if_splits)
    with True a lm passed show ?thesis by (auto split: if_splits)
  next
    case False
    then have "lm = ls_global ls \<and> (v = Pass r \<longrightarrow> redis = Inr True)"
      using assms(2) g
      by (auto simp: global_limit_def RedisTokenBucketRateLimit_def local_event_def redis_used_def Let_def split: sum.splits if_splits)
    with False lm passed show ?thesis by (auto simp: redis_granted_def local_event_def)
  qed
qed

lemma serve_run_decided:
  assumes "global_limits sv \<noteq> []" "0 < sec_GlobalRateLimit (sv_security sv)" "serve_run w sv ls evs = (outs, ls')"
  shows "\<exists>oks. allow_run (wd_rnd w) (wd_pick w) (global_limits sv) (ls_global ls) (stamped (filter (local_event sv) evs)) = (oks, ls_global ls') \<and>
    length (filter (\<lambda>(ev, out). served out \<and> \<not> redis_granted sv ev) (zip evs outs)) \<le> length (filter (\<lambda>ok. ok) oks) \<and>
    (\<forall>(ev, out) \<in> set (zip evs outs). served out \<longrightarrow> local_event sv ev \<or> redis_granted sv ev)"
  using assms(3)
proof (induction evs arbitrary: ls outs)
  case (Cons ev evs)
  obtain now redis r where ev: "ev = (now, redis, r)" by (cases ev)
  obtain out ls1 outs1 where s: "serve w redis now sv ls r = (out, ls1)" "serve_run w sv ls1 evs = (outs1, ls')" "outs = out # outs1"
    using Cons.prems by (auto simp: ev split: prod.splits)
  note one = serve_decided [OF assms(1,2) s(1), folded ev]
  from Cons.IH [OF s(2)] obtain oks where oks:
    "allow_run (wd_rnd w) (wd_pick w) (global_limits sv) (ls_global ls1) (stamped (filter (local_event sv) evs)) = (oks, ls_global ls')"
    "length (filter (\<lambda>(ev, out). served out \<and> \<not> redis_granted sv ev) (zip evs outs1)) \<le> length (filter (\<lambda>ok. ok) oks)"
    "\<forall>(ev, out) \<in> set (zip evs outs1). served out \<longrightarrow> local_event sv ev \<or> redis_granted sv ev" by blast
  show ?case
  proof (cases "local_event sv ev")
    case True
    with one obtain ok where "allow (wd_rnd w) (wd_pick w) (global_limits sv) (ls_global ls) now r = (ok, ls_global ls1)" "served out \<longrightarrow> ok"
      by auto
    with True oks s(3) show ?thesis by (intro exI [of _ "ok # oks"]) (auto simp: ev)
  next
    case False
    with one oks s(3) show ?thesis by (intro exI [of _ oks]) auto
  qed
qed simp

lemma admitted_constant: "(\<And>r. l_key l r = k) \<Longrightarrow> length reqs = length oks \<Longrightarrow> admitted l k reqs oks = length (filter (\<lambda>ok. ok) oks)"
  by (induction reqs oks rule: list_induct2') auto

lemma allow_run_length: "allow_run rnd pick limits lm reqs = (oks, lm') \<Longrightarrow> length oks = length reqs"
  by (induction reqs arbitrary: lm oks) (auto split: prod.splits)

lemma sorted_subseq: "subseq xs ys \<Longrightarrow> sorted ys \<Longrightarrow> sorted (xs :: int list)"
proof (induction rule: list_emb.induct)
  case (list_emb_Cons2 x y xs ys)
  moreover from this have "set xs \<subseteq> set ys" by (auto elim: list_emb_set)
  ultimately show ?case by auto
qed simp_all

lemma last_subseq:
  assumes "subseq xs ys" "sorted (t # ys :: int list)"
  shows "last (t # xs) \<le> last (t # ys)"
proof (cases "t # ys" rule: rev_cases)
  case (snoc zs z)
  have "last (t # xs) \<in> set (t # xs)" by (rule last_in_set) simp
  with assms(1) have "last (t # xs) \<in> set (t # ys)" by (auto elim: list_emb_set)
  with assms(2) show ?thesis unfolding snoc by (auto simp: sorted_append)
qed simp

text \<open>C3: The whole server keeps its global limit.  Over any window of any run in which the clock readings do not go back, whatever
  the requests ask for and whatever Redis answers, the requests that get past the middleware without Redis having granted
  them (all of them when no Redis is configured, those the server let through because Redis failed otherwise) number at
  most the configured burst plus what the configured rate refills, up to the rounding of float64 (for a burst of at most
  \<open>10 ^ 8\<close>); and a server with Redis that must fail closed lets nothing through that Redis did not grant.\<close>

theorem server_rate_bound:
  assumes "start so parse ca pprof cfg = Inr sv"
    and "rate = sec_GlobalRateLimit (cfg_Security cfg)" "0 < rate"
    and "burst = (if sec_GlobalRateBurst (cfg_Security cfg) \<le> 0 then rate else sec_GlobalRateBurst (cfg_Security cfg))" "burst \<le> 10 ^ 8"
    and "wd_rnd w = fl64" "ls_global ls0 = new_limiter t0" "sorted (t0 # map ev_time earlier @ t # map ev_time window)"
    and "serve_run w sv ls0 earlier = (outs0, ls)" "serve_run w sv ls window = (outs, ls')"
  shows "within_rate rate burst (last (t # map ev_time window) - t)
      (length (filter (\<lambda>(ev, out). served out \<and> \<not> redis_granted sv ev) (zip window outs))) \<and>
    (redis_used sv \<and> \<not> sec_RedisFailOpen (cfg_Security cfg) \<longrightarrow>
      (\<forall>(ev, out) \<in> set (zip window outs). served out \<longrightarrow> redis_granted sv ev))"
proof -
  have sec: "sv_security sv = cfg_Security cfg" using start_Inr [OF assms(1)] by simp
  let ?limits = "global_limits sv" and ?l = "\<lparr>l_rate = rate, l_burst = burst, l_key = (\<lambda>r. ''global'')\<rparr>"
  let ?local = "\<lambda>evs. stamped (filter (local_event sv) evs)"
  have limits: "?limits = [?l]"
    using assms(3) by (auto simp: global_limits_def local_limits_def rate_candidates_def sec assms(2,4))
  have apart: "keys_apart ?limits" unfolding global_limits_def local_limits_def by (rule keys_apart_candidates)
  have pos: "?limits \<noteq> []" "0 < sec_GlobalRateLimit (sv_security sv)" using assms(2,3) by (simp_all add: limits sec)
  obtain oks0 where before: "allow_run fl64 (wd_pick w) ?limits (new_limiter t0) (?local earlier) = (oks0, ls_global ls)"
    using serve_run_decided [OF pos assms(9)] assms(6,7) by auto
  obtain oks where run: "allow_run fl64 (wd_pick w) ?limits (ls_global ls) (?local window) = (oks, ls_global ls')"
    and count: "length (filter (\<lambda>(ev, out). served out \<and> \<not> redis_granted sv ev) (zip window outs)) \<le> length (filter (\<lambda>ok. ok) oks)"
    and all: "\<forall>(ev, out) \<in> set (zip window outs). served out \<longrightarrow> local_event sv ev \<or> redis_granted sv ev"
    using serve_run_decided [OF pos assms(10)] assms(6) by auto
  let ?rs = "snd ` set (?local earlier @ ?local window)"
  have "card (run_keys ?limits ?rs) \<le> card {[], ''global''}"
    by (rule card_mono) (auto simp: run_keys_def limits)
  then have few: "card (run_keys ?limits ?rs) < maxBuckets" by (simp add: maxBuckets_def)
  have sub: "subseq (map fst (?local evs)) (map ev_time evs)" for evs by (simp add: subseq_map)
  have "subseq (t0 # map fst (?local earlier) @ t # map fst (?local window)) (t0 # map ev_time earlier @ t # map ev_time window)"
    using sub by (intro list_emb_append_mono subseq_Cons2) blast+
  note times = sorted_subseq [OF this assms(8)]
  have "within_rate rate burst (last (t # map fst (?local window)) - t) (admitted ?l ''global'' (?local window) oks)"
    using limiter_within_rate [OF apart _ _ _ few order_refl times before run, of ?l] assms(5) by (simp add: limits)
  moreover have "admitted ?l ''global'' (?local window) oks = length (filter (\<lambda>ok. ok) oks)"
    using allow_run_length [OF run] by (intro admitted_constant) simp_all
  moreover have "sorted (t # map ev_time window)" using assms(8) by (simp add: sorted_append)
  from last_subseq [OF sub this] have "last (t # map fst (?local window)) - t \<le> last (t # map ev_time window) - t" by simp
  ultimately have "within_rate rate burst (last (t # map ev_time window) - t)
      (length (filter (\<lambda>(ev, out). served out \<and> \<not> redis_granted sv ev) (zip window outs)))"
    using within_rate_longer [OF within_rate_fewer [OF _ count assms(5)] _ assms(3)] by simp
  moreover have "\<not> local_event sv ev" if "redis_used sv" "\<not> sec_RedisFailOpen (cfg_Security cfg)" for ev
    using that by (simp add: local_event_def sec split: sum.split)
  ultimately show ?thesis using all by blast
qed

section \<open>The limiter of a route\<close>

text \<open>The mux has all patterns of a route or none, so that a prefix belongs to one route.\<close>

definition whole_routes :: "endpoint mux \<Rightarrow> bool" where
  "whole_routes m \<longleftrightarrow> (\<forall>q rt. (q, EpRoute rt) \<in> set m \<longrightarrow> set (route_patterns rt) \<subseteq> set m)"

lemma register_all_whole:
  "register_all so parse global dt us m st hs = Inr (m', st', hs') \<Longrightarrow> whole_routes m \<Longrightarrow> whole_routes m'"
proof (induction us arbitrary: m st hs)
  case (Cons u us)
  show ?case
  proof (cases "is_stream u")
    case True
    with Cons show ?thesis by (auto split: sum.splits)
  next
    case http: False
    with Cons.prems obtain r where r: "make_route parse global dt u = Inr r" by (auto split: sum.splits)
    show ?thesis
    proof (cases r)
      case None
      with Cons http r show ?thesis by simp
    next
      case (Some rt)
      obtain m1 hs1 where m1: "mux_handle_all (route_patterns rt) m = Inr m1" and rest: "register_all so parse global dt us m1 st hs1 = Inr (m', st', hs')"
        using Cons.prems(1) http r Some by (auto split: sum.splits)
      have "m1 = m @ route_patterns rt" using m1 by (simp add: mux_handle_all_Inr)
      moreover have "rt' = rt" if "(q, EpRoute rt') \<in> set (route_patterns rt)" for q rt'
        using that by (auto simp: route_patterns_def split: if_splits)
      ultimately have "whole_routes m1" using Cons.prems(2) unfolding whole_routes_def by fastforce
      from Cons.IH [OF rest this] show ?thesis .
    qed
  qed
qed simp

lemma start_whole:
  assumes "start so parse ca pprof cfg = Inr sv"
  shows "whole_routes (sv_mux sv)"
proof -
  obtain trusted m0 m1 st hs where parts: "mux_handle_all (builtin_early pprof) [] = Inr m0"
    "register_all so parse (cfg_Security cfg) trusted (cfg_Upstream cfg) m0 [] [] = Inr (m1, st, hs)"
    "mux_handle ''/health/ready'' EpReady m1 = Inr (sv_mux sv)"
    using assms unfolding start_def Let_def by (auto split: if_splits sum.splits prod.splits)
  have "m0 = builtin_early pprof" using parts(1) by (simp add: mux_handle_all_Inr)
  then have "whole_routes m0" by (auto simp: whole_routes_def builtin_early_def)
  from register_all_whole [OF parts(2) this] parts(3) show ?thesis by (auto simp: mux_handle_Inr whole_routes_def)
qed

lemma same_prefix:
  assumes "start so parse ca pprof cfg = Inr sv" "(q, EpRoute rt) \<in> set (sv_mux sv)" "(q', EpRoute rt') \<in> set (sv_mux sv)"
    and "rt_prefix rt = rt_prefix rt'"
  shows "rt = rt'"
proof -
  have "(rt_prefix x, EpRoute x) \<in> set (route_patterns x)" for x by (simp add: route_patterns_def)
  then have in_mux: "(rt_prefix rt, EpRoute rt) \<in> set (sv_mux sv)" "(rt_prefix rt, EpRoute rt') \<in> set (sv_mux sv)"
    using start_whole [OF assms(1)] assms(2-4) unfolding whole_routes_def by (blast, metis subsetD)
  have "distinct (map (pattern_of \<circ> fst) (sv_mux sv))" using start_Inr [OF assms(1)] by (simp add: mux_keys_def comp_def case_prod_unfold)
  from distinct_map [THEN iffD1, OF this] in_mux have "EpRoute rt = EpRoute rt'" unfolding inj_on_def by fastforce
  then show ?thesis by simp
qed

text \<open>Where a request goes: the route the mux gives it to, with the pattern set.\<close>

lemma serve_mux_route:
  assumes "serve_mux w now sv ls r = (out, ls')"
  shows "(\<exists>q rt. mux_target (sv_mux sv) r = Inr (Some (q, EpRoute rt)) \<and>
      serve_route w now rt (ls_route ls (rt_prefix rt)) (r\<lparr>r_pattern := q\<rparr>) = (out, ls_route ls' (rt_prefix rt)) \<and>
      (\<forall>k. k \<noteq> rt_prefix rt \<longrightarrow> ls_route ls' k = ls_route ls k)) \<or>
    (ls_route ls' = ls_route ls \<and> (\<forall>rt r'. out \<noteq> Proxied rt r'))"
proof (cases "mux_target (sv_mux sv) r")
  case (Inr t)
  show ?thesis
  proof (cases t)
    case (Some qe)
    obtain q e where t: "t = Some (q, e)" using Some by (cases qe) simp
    show ?thesis
    proof (cases e)
      case (EpRoute rt)
      with assms Inr t show ?thesis by (auto simp: serve_mux_def Let_def split: prod.splits)
    qed (use assms Inr t in \<open>auto simp: serve_mux_def Let_def split: verdict.splits\<close>)
  qed (use assms Inr in \<open>auto simp: serve_mux_def\<close>)
qed (use assms in \<open>auto simp: serve_mux_def\<close>)

lemma serve_route_reached:
  assumes "serve w redis now sv ls r = (out, ls')"
  shows "(\<exists>q rt. (q, EpRoute rt) \<in> set (sv_mux sv) \<and>
      serve_route w now rt (ls_route ls (rt_prefix rt)) (r\<lparr>r_pattern := q\<rparr>) = (out, ls_route ls' (rt_prefix rt)) \<and>
      (\<forall>k. k \<noteq> rt_prefix rt \<longrightarrow> ls_route ls' k = ls_route ls k)) \<or>
    (ls_route ls' = ls_route ls \<and> (\<forall>rt r'. out \<noteq> Proxied rt r'))"
proof (cases "\<exists>p. out = Answered p \<and> ls_route ls' = ls_route ls")
  case False
  obtain v lm where g: "global_limit w redis now sv ls r = (v, lm)" by fastforce
  have "\<exists>ls0. serve_mux w now sv ls0 r = (out, ls') \<and> ls_route ls0 = ls_route ls"
  proof (cases v)
    case (Pass r1)
    with g global.pass_same [of w redis now sv ls r r1] have r1: "r1 = r" by (simp add: global_stage_def)
    have "access (wd_sha w) (wd_jwt w) (sv_access sv) r = Pass r2 \<Longrightarrow> r2 = r" for r2 by (rule access_same)
    with assms g Pass r1 False show ?thesis
      by (intro exI [of _ "ls\<lparr>ls_global := lm\<rparr>"])
        (auto simp: serve_def global_limit_def serve_protected_def Let_def split: if_splits verdict.splits)
  qed (use assms g False in \<open>auto simp: serve_def global_limit_def Let_def\<close>)
  then obtain ls0 where ls0: "serve_mux w now sv ls0 r = (out, ls')" "ls_route ls0 = ls_route ls" by blast
  from serve_mux_route [OF ls0(1)] show ?thesis unfolding ls0(2) using mux_target_Some by metis
qed auto

lemma serve_route_allow:
  assumes "rt_limits rt \<noteq> []" "serve_route w now rt lm r = (out, lm')"
  shows "\<exists>ok. allow (wd_rnd w) (wd_pick w) (rt_limits rt) lm now r = (ok, lm') \<and> ((\<exists>rt' r'. out = Proxied rt' r') \<longrightarrow> ok) \<and>
    (\<forall>rt' r'. out = Proxied rt' r' \<longrightarrow> rt' = rt)"
  using assms by (auto simp: serve_route_def RateLimit_def split: prod.splits if_splits verdict.splits)

text \<open>The requests of a run that one route's limiter sees.\<close>

definition proxied_by :: "route \<Rightarrow> outcome \<Rightarrow> bool" where
  "proxied_by rt out \<longleftrightarrow> (case out of Proxied rt' r' \<Rightarrow> rt' = rt | _ \<Rightarrow> False)"

definition proxied_count :: "route \<Rightarrow> (request \<Rightarrow> string) \<Rightarrow> string \<Rightarrow> event list \<Rightarrow> outcome list \<Rightarrow> nat" where
  "proxied_count rt key k evs outs = length (filter (\<lambda>(ev, out). proxied_by rt out \<and> key (ev_request ev) = k) (zip evs outs))"

lemma proxied_count_simps [simp]:
  "proxied_count rt key k [] outs = 0"
  "proxied_count rt key k (ev # evs) (out # outs) =
     (if proxied_by rt out \<and> key (ev_request ev) = k then 1 else 0) + proxied_count rt key k evs outs"
  by (simp_all add: proxied_count_def)

definition patterned :: "event list \<Rightarrow> request set" where
  "patterned evs = (\<Union>ev \<in> set evs. range (\<lambda>q. ev_request ev\<lparr>r_pattern := q\<rparr>))"

definition pattern_free :: "(request \<Rightarrow> string) \<Rightarrow> bool" where
  "pattern_free key \<longleftrightarrow> (\<forall>r q. key (r\<lparr>r_pattern := q\<rparr>) = key r)"

lemma patterned_append: "patterned (evs @ evs') = patterned evs \<union> patterned evs'"
  by (simp add: patterned_def)

lemma patterned_keys: "pattern_free key \<Longrightarrow> key ` patterned evs \<subseteq> key ` ev_request ` set evs"
  by (simp add: patterned_def pattern_free_def image_UN image_image UN_subset_iff)

lemma GetClientIP_pattern: "GetClientIP (r\<lparr>r_pattern := q\<rparr>) trusted = GetClientIP r trusted"
proof -
  have "remote_host (r\<lparr>r_pattern := q\<rparr>) = remote_host r" by (simp add: remote_host_def split: option.split)
  then show ?thesis by (simp add: GetClientIP_def Let_def cong: option.case_cong if_cong)
qed

lemma serve_run_route:
  assumes "start so parse ca pprof cfg = Inr sv" "(p, EpRoute rt) \<in> set (sv_mux sv)" "rt_limits rt \<noteq> []" "pattern_free (l_key l)"
    and "serve_run w sv ls evs = (outs, ls')"
  shows "\<exists>calls oks. allow_run (wd_rnd w) (wd_pick w) (rt_limits rt) (ls_route ls (rt_prefix rt)) calls = (oks, ls_route ls' (rt_prefix rt)) \<and>
    subseq (map fst calls) (map ev_time evs) \<and> snd ` set calls \<subseteq> patterned evs \<and>
    proxied_count rt (l_key l) k evs outs \<le> admitted l k calls oks"
  using assms(5)
proof (induction evs arbitrary: ls outs)
  case Nil
  then show ?case by (intro exI [of _ "[]"]) simp
next
  case (Cons ev evs)
  obtain now redis r where ev: "ev = (now, redis, r)" by (cases ev)
  obtain out ls1 outs1 where s: "serve w redis now sv ls r = (out, ls1)" "serve_run w sv ls1 evs = (outs1, ls')" "outs = out # outs1"
    using Cons.prems by (auto simp: ev split: prod.splits)
  obtain calls oks where rest: "allow_run (wd_rnd w) (wd_pick w) (rt_limits rt) (ls_route ls1 (rt_prefix rt)) calls = (oks, ls_route ls' (rt_prefix rt))"
    "subseq (map fst calls) (map ev_time evs)" "snd ` set calls \<subseteq> patterned evs" "proxied_count rt (l_key l) k evs outs1 \<le> admitted l k calls oks"
    using Cons.IH [OF s(2)] by blast
  have more: "patterned evs \<subseteq> patterned (ev # evs)" by (auto simp: patterned_def)
  have skip: ?case if "ls_route ls1 (rt_prefix rt) = ls_route ls (rt_prefix rt)" "\<not> proxied_by rt out"
    using rest that more by (intro exI [of _ calls] exI [of _ oks]) (auto simp: s(3))
  show ?case
  proof (cases "\<exists>q. serve_route w now rt (ls_route ls (rt_prefix rt)) (r\<lparr>r_pattern := q\<rparr>) = (out, ls_route ls1 (rt_prefix rt))")
    case True
    then obtain q where q: "serve_route w now rt (ls_route ls (rt_prefix rt)) (r\<lparr>r_pattern := q\<rparr>) = (out, ls_route ls1 (rt_prefix rt))" ..
    obtain ok where ok: "allow (wd_rnd w) (wd_pick w) (rt_limits rt) (ls_route ls (rt_prefix rt)) now (r\<lparr>r_pattern := q\<rparr>) = (ok, ls_route ls1 (rt_prefix rt))"
      "(\<exists>rt' r'. out = Proxied rt' r') \<longrightarrow> ok" using serve_route_allow [OF assms(3) q] by blast
    have "proxied_by rt out \<longrightarrow> ok" using ok(2) by (auto simp: proxied_by_def split: outcome.splits)
    moreover have "l_key l (r\<lparr>r_pattern := q\<rparr>) = l_key l r" using assms(4) by (simp add: pattern_free_def)
    moreover have "r\<lparr>r_pattern := q\<rparr> \<in> patterned (ev # evs)" by (auto simp: patterned_def ev)
    ultimately show ?thesis using rest ok(1) more
      by (intro exI [of _ "(now, r\<lparr>r_pattern := q\<rparr>) # calls"] exI [of _ "ok # oks"]) (auto simp: s(3) ev)
  next
    case no: False
    from serve_route_reached [OF s(1)] show ?thesis
    proof (elim disjE exE conjE)
      fix q rt'
      assume r': "(q, EpRoute rt') \<in> set (sv_mux sv)" "\<forall>k. k \<noteq> rt_prefix rt' \<longrightarrow> ls_route ls1 k = ls_route ls k"
        "serve_route w now rt' (ls_route ls (rt_prefix rt')) (r\<lparr>r_pattern := q\<rparr>) = (out, ls_route ls1 (rt_prefix rt'))"
      then have "rt' \<noteq> rt" using no by blast
      then have "rt_prefix rt \<noteq> rt_prefix rt'" using same_prefix [OF assms(1,2) r'(1)] by blast
      moreover have "\<not> proxied_by rt out"
        using r'(3) \<open>rt' \<noteq> rt\<close> by (auto simp: proxied_by_def serve_route_def split: outcome.splits prod.splits verdict.splits)
      ultimately show ?thesis using r'(2) skip by simp
    next
      assume "ls_route ls1 = ls_route ls" "\<forall>rt r'. out \<noteq> Proxied rt r'"
      then show ?thesis using skip by (auto simp: proxied_by_def split: outcome.splits)
    qed
  qed
qed

text \<open>C4: Every route keeps its limits for every client.  Over any window of a run of the server in which the clock readings do
  not go back and whose requests, wherever they go, have over the whole run fewer than \<open>maxBuckets\<close> distinct bucket keys
  under the rules of the route (so that no bucket of its limiter is evicted), the requests of one bucket (a client's network, or the whole
  route) that are proxied by the route number at most the burst of the rule (at most \<open>10 ^ 8\<close>) plus what its rate refills,
  up to the rounding of float64.\<close>

theorem route_rate_bound:
  assumes "start so parse ca pprof cfg = Inr sv" "(p, EpRoute rt) \<in> set (sv_mux sv)" "l \<in> set (rt_limits rt)" "l_burst l \<le> 10 ^ 8"
    and "wd_rnd w = fl64" "ls_route ls0 (rt_prefix rt) = new_limiter t0"
    and "card (run_keys (rt_limits rt) (ev_request ` set (earlier @ window))) < maxBuckets"
    and "sorted (t0 # map ev_time earlier @ t # map ev_time window)"
    and "serve_run w sv ls0 earlier = (outs0, ls)" "serve_run w sv ls window = (outs, ls')"
  shows "within_rate (l_rate l) (l_burst l) (last (t # map ev_time window) - t) (proxied_count rt (l_key l) (l_key l r) window outs)"
proof -
  obtain u where "make_route parse (cfg_Security cfg) (sv_trusted sv) u = Inr (Some rt)" using route_origin [OF assms(1,2)] by metis
  then obtain a b c d e f where limits: "rt_limits rt = active_limits (rate_candidates a b c d e f (rt_prefix rt) (rt_trusted rt))"
    by (auto simp: make_route_def Let_def split: if_splits sum.splits prod.splits)
  have free: "pattern_free (l_key x)" if "x \<in> set (rt_limits rt)" for x
    using that unfolding limits rate_candidates_def pattern_free_def
    by (auto simp: GetClientIP_pattern split: if_splits)
  have none: "rt_limits rt \<noteq> []" using assms(3) by auto
  obtain calls0 oks0 where before: "allow_run fl64 (wd_pick w) (rt_limits rt) (new_limiter t0) calls0 = (oks0, ls_route ls (rt_prefix rt))"
    "subseq (map fst calls0) (map ev_time earlier)" "snd ` set calls0 \<subseteq> patterned earlier"
    using serve_run_route [OF assms(1,2) none free [OF assms(3)] assms(9)] assms(5,6) by metis
  obtain calls oks where run: "allow_run fl64 (wd_pick w) (rt_limits rt) (ls_route ls (rt_prefix rt)) calls = (oks, ls_route ls' (rt_prefix rt))"
    "subseq (map fst calls) (map ev_time window)" "snd ` set calls \<subseteq> patterned window"
    "proxied_count rt (l_key l) (l_key l r) window outs \<le> admitted l (l_key l r) calls oks"
    using serve_run_route [OF assms(1,2) none free [OF assms(3)] assms(10)] assms(5) by metis
  let ?rs = "snd ` set (calls0 @ calls)"
  have "l_key x ` ?rs \<subseteq> l_key x ` ev_request ` set (earlier @ window)" if "x \<in> set (rt_limits rt)" for x
  proof -
    have "?rs \<subseteq> patterned (earlier @ window)" using before(3) run(3) by (simp add: patterned_append image_Un) blast
    then show ?thesis by (rule subset_trans [OF image_mono patterned_keys [OF free [OF that]]])
  qed
  then have "run_keys (rt_limits rt) ?rs \<subseteq> run_keys (rt_limits rt) (ev_request ` set (earlier @ window))"
    unfolding run_keys_def by (intro insert_mono UN_mono order_refl)
  from card_mono [OF finite_run_keys [OF finite_imageI [OF finite_set]] this] assms(7)
  have few: "card (run_keys (rt_limits rt) ?rs) < maxBuckets" by (rule le_less_trans)
  have "subseq (t0 # map fst calls0 @ t # map fst calls) (t0 # map ev_time earlier @ t # map ev_time window)"
    using before(2) run(2) by (simp add: list_emb_append_mono)
  from sorted_subseq [OF this assms(8)] have times: "sorted (t0 # map fst calls0 @ t # map fst calls)" .
  have apart: "keys_apart (rt_limits rt)" unfolding limits by (rule keys_apart_candidates)
  have "within_rate (l_rate l) (l_burst l) (last (t # map fst calls) - t) (admitted l (l_key l r) calls oks)"
    by (rule limiter_within_rate [OF apart assms(3,4) _ few order_refl times before(1) run(1)]) simp
  moreover have "sorted (t # map ev_time window)" using assms(8) by (simp add: sorted_append)
  from last_subseq [OF run(2) this] have "last (t # map fst calls) - t \<le> last (t # map ev_time window) - t" by simp
  moreover have "0 < l_rate l" using apart assms(3) by (simp add: keys_apart_def)
  ultimately show ?thesis using run(4) assms(4) by (meson within_rate_fewer within_rate_longer)
qed

section \<open>A server with limits\<close>

definition limited_config :: ServerConfig where
  "limited_config = zero_config\<lparr>cfg_Security := zero_security\<lparr>sec_GlobalRateLimit := 120, sec_GlobalRateBurst := 3\<rparr>,
     cfg_Upstream := [example_upstream\<lparr>up_Security := zero_security\<lparr>sec_RateLimit := 60, sec_RateLimitBurst := 1\<rparr>\<rparr>]\<rparr>"

definition f64_world :: world where
  "f64_world = example_world\<lparr>wd_rnd := fl64\<rparr>"

definition two_requests :: "event list" where
  "two_requests = [(0, Inr True, with_key ''/x'' ''''), (second, Inr True, with_key ''/x'' '''')]"

lemma limited_started:
  "\<exists>sv p rt l. start all_sockets one_target (\<lambda>_. None) False limited_config = Inr sv \<and> (p, EpRoute rt) \<in> set (sv_mux sv) \<and>
     rt_limits rt = [l] \<and> l_rate l = 60 \<and> l_burst l = 1"
proof -
  have "case start all_sockets one_target (\<lambda>_. None) False limited_config of Inl e \<Rightarrow> False
    | Inr sv \<Rightarrow> list_ex (\<lambda>(p, e). case e of EpRoute rt \<Rightarrow> (case rt_limits rt of [l] \<Rightarrow> l_rate l = 60 \<and> l_burst l = 1 | _ \<Rightarrow> False) | _ \<Rightarrow> False) (sv_mux sv)"
    by code_simp
  then obtain sv pe where sv: "start all_sockets one_target (\<lambda>_. None) False limited_config = Inr sv" "pe \<in> set (sv_mux sv)"
    "case pe of (p, e) \<Rightarrow> case e of EpRoute rt \<Rightarrow> (case rt_limits rt of [l] \<Rightarrow> l_rate l = 60 \<and> l_burst l = 1 | _ \<Rightarrow> False) | _ \<Rightarrow> False"
    unfolding list_ex_iff by (cases "start all_sockets one_target (\<lambda>_. None) False limited_config") auto
  then obtain p rt where rt: "pe = (p, EpRoute rt)" "case rt_limits rt of [l] \<Rightarrow> l_rate l = 60 \<and> l_burst l = 1 | _ \<Rightarrow> False"
    by (cases pe) (auto split: endpoint.splits)
  then obtain l where "rt_limits rt = [l]" "l_rate l = 60" "l_burst l = 1" by (auto split: list.splits)
  with sv rt(1) show ?thesis by blast
qed

lemma two_requests_sorted: "sorted (0 # map ev_time [] @ 0 # map ev_time two_requests)" "last (0 # map ev_time two_requests) - 0 = second"
  by (simp_all add: two_requests_def second_def)

text \<open>Two requests without Redis, and the same ones with a Redis that fails for the first and grants the second.\<close>

definition redis_config :: ServerConfig where
  "redis_config = limited_config\<lparr>cfg_Security := (cfg_Security limited_config)\<lparr>sec_RedisAddr := ''localhost:6379'', sec_RedisFailOpen := True\<rparr>\<rparr>"

definition redis_requests :: "event list" where
  "redis_requests = [(0, Inl ReadError, with_key ''/x'' ''''), (second, Inr True, with_key ''/x'' '''')]"

lemma redis_started:
  "\<exists>sv. start all_sockets one_target (\<lambda>_. None) False redis_config = Inr sv"
proof -
  have "case start all_sockets one_target (\<lambda>_. None) False redis_config of Inl e \<Rightarrow> False | Inr sv \<Rightarrow> True" by code_simp
  then show ?thesis by (auto split: sum.splits)
qed

lemma none_granted:
  "(\<And>ev. \<not> redis_granted sv ev) \<Longrightarrow> length outs = length evs \<Longrightarrow>
     length (filter (\<lambda>(ev, out). served out \<and> \<not> redis_granted sv ev) (zip evs outs)) = length (filter served outs)"
  by (induction evs outs rule: list_induct2') auto

lemma server_rate_bound_witness:
  "(\<exists>sv outs ls'. start all_sockets one_target (\<lambda>_. None) False limited_config = Inr sv \<and>
     serve_run f64_world sv no_limiters two_requests = (outs, ls') \<and> length outs = 2 \<and> within_rate 120 3 second (length (filter served outs))) \<and>
   (\<exists>sv outs ls'. start all_sockets one_target (\<lambda>_. None) False redis_config = Inr sv \<and> redis_used sv \<and>
     serve_run f64_world sv no_limiters redis_requests = (outs, ls') \<and>
     within_rate 120 3 second (length (filter (\<lambda>(ev, out). served out \<and> \<not> redis_granted sv ev) (zip redis_requests outs))))"
  (is "?plain \<and> ?redis")
proof
  have sec: "sec_RedisAddr (cfg_Security limited_config) = ''''" "sec_GlobalRateLimit (cfg_Security limited_config) = 120"
    "sec_GlobalRateBurst (cfg_Security limited_config) = 3" "sec_GlobalRateLimit (cfg_Security redis_config) = 120"
    "sec_GlobalRateBurst (cfg_Security redis_config) = 3" "sec_RedisAddr (cfg_Security redis_config) = ''localhost:6379''"
    by (simp_all add: limited_config_def zero_security_def redis_config_def)
  have world: "wd_rnd f64_world = fl64" "ls_global no_limiters = new_limiter 0" by (simp_all add: f64_world_def no_limiters_def)
  obtain sv where sv: "start all_sockets one_target (\<lambda>_. None) False limited_config = Inr sv" using limited_started by blast
  obtain outs ls' where run: "serve_run f64_world sv no_limiters two_requests = (outs, ls')" by fastforce
  have len: "length outs = length two_requests" using serve_run_length [OF run] .
  have bound: "within_rate 120 3 (last (0 # map ev_time two_requests) - 0)
      (length (filter (\<lambda>(ev, out). served out \<and> \<not> redis_granted sv ev) (zip two_requests outs)))"
    using server_rate_bound [OF sv _ _ _ _ world two_requests_sorted(1) _ run] by (simp add: sec)
  have "\<not> redis_granted sv ev" for ev
    using start_Inr [OF sv] by (simp add: redis_granted_def redis_used_def sec go_eval)
  note bound [unfolded none_granted [OF this len] two_requests_sorted(2)]
  moreover have "length outs = 2" using len by (simp add: two_requests_def)
  ultimately show ?plain using sv run by blast
  obtain sv2 where sv2: "start all_sockets one_target (\<lambda>_. None) False redis_config = Inr sv2" using redis_started by blast
  obtain outs2 ls2 where run2: "serve_run f64_world sv2 no_limiters redis_requests = (outs2, ls2)" by fastforce
  have sorted2: "sorted (0 # map ev_time [] @ 0 # map ev_time redis_requests)" "last (0 # map ev_time redis_requests) - 0 = second"
    by (simp_all add: redis_requests_def second_def)
  have "within_rate 120 3 (last (0 # map ev_time redis_requests) - 0)
      (length (filter (\<lambda>(ev, out). served out \<and> \<not> redis_granted sv2 ev) (zip redis_requests outs2)))"
    using server_rate_bound [OF sv2 _ _ _ _ world sorted2(1) _ run2] by (simp add: sec)
  note this [unfolded sorted2(2)]
  moreover have "trim_space ''localhost:6379'' \<noteq> []" by code_simp
  then have "redis_used sv2" using start_Inr [OF sv2] by (simp add: redis_used_def sec)
  ultimately show ?redis using sv2 run2 by blast
qed

lemma route_rate_bound_witness:
  "\<exists>sv p rt l outs ls'. start all_sockets one_target (\<lambda>_. None) False limited_config = Inr sv \<and> (p, EpRoute rt) \<in> set (sv_mux sv) \<and>
     l \<in> set (rt_limits rt) \<and> serve_run f64_world sv no_limiters two_requests = (outs, ls') \<and>
     within_rate 60 1 second (proxied_count rt (l_key l) (l_key l (with_key ''/x'' '''')) two_requests outs)"
proof -
  obtain sv p rt l where sv: "start all_sockets one_target (\<lambda>_. None) False limited_config = Inr sv" "(p, EpRoute rt) \<in> set (sv_mux sv)"
    and l: "rt_limits rt = [l]" "l_rate l = 60" "l_burst l = 1"
    using limited_started by blast
  obtain outs ls' where run: "serve_run f64_world sv no_limiters two_requests = (outs, ls')" by fastforce
  have "ev_request ` set ([] @ two_requests) = {with_key ''/x'' ''''}" by (simp add: two_requests_def)
  then have "card (run_keys (rt_limits rt) (ev_request ` set ([] @ two_requests))) < maxBuckets"
    unfolding run_keys_def by (simp add: l(1) maxBuckets_def card_insert_if)
  have "within_rate (l_rate l) (l_burst l) (last (0 # map ev_time two_requests) - 0)
      (proxied_count rt (l_key l) (l_key l (with_key ''/x'' '''')) two_requests outs)"
    by (rule route_rate_bound [OF sv _ _ _ _ \<open>card _ < maxBuckets\<close> two_requests_sorted(1) _ run])
      (simp_all add: l f64_world_def no_limiters_def)
  moreover have "l \<in> set (rt_limits rt)" by (simp add: l(1))
  ultimately show ?thesis unfolding two_requests_sorted(2) l(2,3) using sv run by blast
qed

end
