(* ===== verification/ScriptBound.thy ===== *)
theory ScriptBound
  imports RateBound RedisLimit
begin

text \<open>
  What the Redis script guarantees in the arithmetic it really uses.  Lua numbers are float64: the time, the elapsed
  seconds, the refill and the payment are all rounded, and, unlike the local limiter, a refused call writes its rounded
  balance back.
\<close>

section \<open>Rounded time\<close>

context float_arith
begin

lemma script_now_mono: "m \<le> n \<Longrightarrow> script_now rnd m \<le> script_now rnd n"
proof -
  assume mn: "m \<le> n"
  have frac: "0 \<le> rnd (of_int (k mod 1000000) / 1000000)" "rnd (of_int (k mod 1000000) / 1000000) \<le> 1" for k :: int
    using rnd_mono [of "of_int (k mod 1000000) / 1000000" 1] by (auto intro!: rnd_nonneg)
  have "of_int (m div 1000000) + rnd (of_int (m mod 1000000) / 1000000)
      \<le> of_int (n div 1000000) + rnd (of_int (n mod 1000000) / 1000000)"
  proof (cases "m div 1000000 = n div 1000000")
    case True
    have "m = m div 1000000 * 1000000 + m mod 1000000" "n = n div 1000000 * 1000000 + n mod 1000000" by simp_all
    with True mn have "m mod 1000000 \<le> n mod 1000000" by linarith
    then have "(of_int (m mod 1000000) :: real) / 1000000 \<le> of_int (n mod 1000000) / 1000000"
      by (intro divide_right_mono) simp_all
    from rnd_mono [OF this] True show ?thesis by simp
  next
    case False
    with zdiv_mono1 [OF mn, of 1000000] have "m div 1000000 + 1 \<le> n div 1000000" by linarith
    then have "(of_int (m div 1000000 + 1) :: real) \<le> of_int (n div 1000000)" by (simp only: of_int_le_iff)
    with frac(2) [of m] frac(1) [of n] show ?thesis by simp
  qed
  then show ?thesis unfolding script_now_def by (rule rnd_mono)
qed

lemma script_now_err:
  assumes "0 \<le> m" "m < 2 ^ 53"
  shows "\<bar>script_now rnd m - of_int m / 1000000\<bar> \<le> 1 / 500000"
proof -
  define q where "q = (of_int (m div 1000000) :: real)"
  define f where "f = (of_int (m mod 1000000) / 1000000 :: real)"
  have "of_int m = (of_int (1000000 * (m div 1000000) + m mod 1000000) :: real)" by simp
  then have "(of_int m :: real) = 1000000 * of_int (m div 1000000) + of_int (m mod 1000000)"
    by (metis of_int_add of_int_mult of_int_numeral)
  then have m: "of_int m / 1000000 = q + f" by (simp add: q_def f_def add_divide_distrib)
  have f: "0 \<le> f" "f \<le> 1" by (auto simp: f_def)
  have q0: "0 \<le> q" using assms(1) by (simp add: q_def pos_imp_zdiv_nonneg_iff)
  have "(of_int m :: real) < of_int (2 ^ 53)" using assms(2) by (simp only: of_int_less_iff)
  then have q: "q \<le> 2 ^ 53 / 1000000" using m f by simp
  have "\<bar>f\<bar> * ulp \<le> 1 * (1 / 2 ^ 53)" using f ulp_nonneg ulp_small by (intro mult_mono) auto
  then have e1: "\<bar>rnd f - f\<bar> \<le> 1 / 2 ^ 53" using rnd_err [of f] by linarith
  have "0 \<le> rnd f" "rnd f \<le> 1" using rnd_nonneg [OF f(1)] rnd_mono [OF f(2)] by simp_all
  then have "\<bar>q + rnd f\<bar> \<le> 2 ^ 53 / 1000000 + 2" using q q0 by simp
  then have "\<bar>q + rnd f\<bar> * ulp \<le> (2 ^ 53 / 1000000 + 2) * (1 / 2 ^ 53)" using ulp_nonneg ulp_small by (intro mult_mono) auto
  then have "\<bar>rnd (q + rnd f) - (q + rnd f)\<bar> \<le> (2 ^ 53 / 1000000 + 2) * (1 / 2 ^ 53)" using rnd_err [of "q + rnd f"] by linarith
  with e1 have "\<bar>rnd (q + rnd f) - (q + f)\<bar> \<le> (2 ^ 53 / 1000000 + 2) * (1 / 2 ^ 53) + 1 / 2 ^ 53" by linarith
  also have "\<dots> \<le> 1 / 500000" by simp
  finally have "\<bar>rnd (q + rnd f) - (q + f)\<bar> \<le> 1 / 500000" .
  then show ?thesis unfolding script_now_def m q_def [symmetric] f_def [symmetric] .
qed

end

section \<open>One call\<close>

text \<open>The tokens a key could spend at the rounded time \<open>t\<close> if refills were never rounded down.\<close>

definition script_flow :: "real \<Rightarrow> int \<Rightarrow> real" where
  "script_flow u rate = drift u * (of_int rate / 60)"

definition float_level :: "real \<Rightarrow> int \<Rightarrow> int \<Rightarrow> real \<Rightarrow> script_bucket option \<Rightarrow> real" where
  "float_level u rate burst t ob =
     (case ob of None \<Rightarrow> of_int burst
      | Some b \<Rightarrow> min (of_int burst) (sb_tokens b + (t - sb_updated b) * script_flow u rate))"

lemma script_ok_later: "script_ok rate burst t ob \<Longrightarrow> t \<le> t' \<Longrightarrow> script_ok rate burst t' ob"
  by (auto simp: script_ok_def split: option.splits)

lemma float_level_le: "float_level u rate burst t ob \<le> of_int burst"
  by (simp add: float_level_def split: option.splits)

context float_arith
begin

lemma script_flow_ge: "0 < rate \<Longrightarrow> of_int rate / 60 \<le> script_flow ulp rate"
  using mult_right_mono [OF drift_ge(2), of "of_int rate / 60"] by (simp add: script_flow_def)

lemma script_flow_nonneg: "0 < rate \<Longrightarrow> 0 \<le> script_flow ulp rate"
proof -
  assume "0 < rate"
  then have "0 \<le> (of_int rate / 60 :: real)" by simp
  with script_flow_ge [OF \<open>0 < rate\<close>] show ?thesis by linarith
qed

lemma float_level_nonneg:
  "0 < rate \<Longrightarrow> 0 < burst \<Longrightarrow> script_ok rate burst t ob \<Longrightarrow> 0 \<le> float_level ulp rate burst t ob"
  using script_flow_nonneg by (auto simp: float_level_def script_ok_def split: option.splits)

lemma float_level_live:
  assumes "0 < rate" "script_ok rate burst t ob"
  shows "float_level ulp rate burst t (script_live t ob) = float_level ulp rate burst t ob"
proof (cases ob)
  case (Some b)
  show ?thesis
  proof (cases "sb_expires b \<le> t")
    case True
    have late: "of_int burst * 60 / of_int rate \<le> t - sb_updated b" "0 \<le> sb_tokens b" "0 \<le> t - sb_updated b"
      using assms(2) True by (simp_all add: Some script_ok_def)
    have "of_int burst = of_int burst * 60 / of_int rate * (of_int rate / 60 :: real)" using assms(1) by simp
    also have "\<dots> \<le> (t - sb_updated b) * (of_int rate / 60)" using late(1) assms(1) by (intro mult_right_mono) simp_all
    also have "\<dots> \<le> (t - sb_updated b) * script_flow ulp rate" using script_flow_ge [OF assms(1)] late(3) by (rule mult_left_mono)
    finally show ?thesis using True late(2) by (simp add: Some script_live_def float_level_def)
  qed (simp add: Some script_live_def)
qed (simp add: script_live_def)

text \<open>What a refill adds.\<close>

lemma script_gain:
  assumes "0 < rate" "0 \<le> d"
  shows "0 \<le> rnd (rnd d * rnd (of_int rate / 60))" "rnd (rnd d * rnd (of_int rate / 60)) \<le> d * script_flow ulp rate"
proof -
  let ?p = "of_int rate / 60 :: real"
  have p: "0 \<le> ?p" using assms(1) by simp
  have nn: "0 \<le> rnd d * rnd ?p" using assms(2) p by (intro mult_nonneg_nonneg rnd_nonneg)
  then show "0 \<le> rnd (rnd d * rnd ?p)" by (rule rnd_nonneg)
  have "rnd (rnd d * rnd ?p) \<le> rnd d * rnd ?p * (1 + ulp)" by (rule rnd_upper [OF nn])
  also have "\<dots> \<le> (d * (1 + ulp)) * (?p * (1 + ulp)) * (1 + ulp)"
    using assms(2) p ulp_nonneg by (intro mult_right_mono mult_mono rnd_upper rnd_nonneg) auto
  also have "\<dots> = (1 + ulp) ^ 3 * (d * ?p)" by (simp add: power3_eq_cube)
  also have "\<dots> \<le> drift ulp * (d * ?p)"
  proof (rule mult_right_mono)
    have "(1 + ulp) ^ 3 \<le> (1 + ulp) ^ 6" using ulp_nonneg by (intro power_increasing) simp_all
    with drift_ge(1) show "(1 + ulp) ^ 3 \<le> drift ulp" by linarith
    show "0 \<le> d * ?p" using assms(2) p by (rule mult_nonneg_nonneg)
  qed
  finally show "rnd (rnd d * rnd ?p) \<le> d * script_flow ulp rate" unfolding script_flow_def by (simp only: mult.left_commute)
qed

lemma script_expiry_ge:
  assumes "0 < rate" "0 < burst"
  shows "of_int burst * 60 / of_int rate \<le> script_expiry rnd rate burst"
proof -
  let ?a = "of_int burst * 120 :: real"
  have half: "1 / 2 \<le> (1 - ulp) * (1 - ulp)"
    using mult_mono [of "3 / 4" "1 - ulp" "3 / 4" "1 - ulp"] ulp_small by simp
  have "of_int burst * 60 / of_int rate = ?a / of_int rate * (1 / 2)" by simp
  also have "\<dots> \<le> ?a / of_int rate * ((1 - ulp) * (1 - ulp))" using half assms by (intro mult_left_mono) simp_all
  also have "\<dots> = ?a * (1 - ulp) / of_int rate * (1 - ulp)" by simp
  also have "\<dots> \<le> rnd ?a / of_int rate * (1 - ulp)"
    using assms ulp_lt_1 by (intro mult_right_mono divide_right_mono rnd_lower) simp_all
  also have "\<dots> \<le> rnd (rnd ?a / of_int rate)" using assms by (intro rnd_lower divide_nonneg_pos rnd_nonneg) simp_all
  also have "\<dots> \<le> script_expiry rnd rate burst" by (simp add: script_expiry_def) linarith
  finally show ?thesis .
qed

text \<open>The balance a call works with, against the level: rounding may raise it by less than a part in \<open>2 ^ 53\<close> of the
  burst, and of one token when there is none to spend.\<close>

lemma script_balance:
  fixes tk g y :: real
  assumes "1 \<le> burst" "0 \<le> tk + g" "tk + g \<le> y"
  defines "x \<equiv> min (of_int burst) (rnd (tk + g))"
  shows "x \<le> min (of_int burst) y + ulp * of_int burst" "x < 1 \<Longrightarrow> x \<le> min (of_int burst) y + ulp" "0 \<le> x"
proof -
  let ?B = "of_int burst :: real"
  have B: "1 \<le> ?B" using assms(1) by simp
  have nn: "0 \<le> ulp * ?B" using ulp_nonneg B by simp
  have up: "rnd (tk + g) \<le> tk + g + ulp * (tk + g)" using rnd_upper [OF assms(2)] by (simp add: algebra_simps)
  show "0 \<le> x" using rnd_nonneg [OF assms(2)] B by (simp add: x_def)
  show "x \<le> min ?B y + ulp * ?B"
  proof (cases "tk + g \<le> ?B")
    case True
    then have "ulp * (tk + g) \<le> ulp * ?B" using ulp_nonneg by (rule mult_left_mono)
    with up True nn assms(3) show ?thesis by (simp add: x_def min_def)
  next
    case False
    then have "?B \<le> y" using assms(3) by simp
    then have "min ?B y = ?B" by simp
    with nn show ?thesis by (simp add: x_def)
  qed
  assume less: "x < 1"
  then have "rnd (tk + g) < 1" using B by (simp add: x_def min_def split: if_splits)
  then have one: "tk + g \<le> 1" using rnd_ge_1 [of "tk + g"] by linarith
  then have "ulp * (tk + g) \<le> ulp * 1" using ulp_nonneg by (rule mult_left_mono)
  with up one B assms(3) ulp_nonneg show "x \<le> min ?B y + ulp" by (simp add: x_def min_def)
qed

lemma script_float_step:
  assumes "0 < rate" "0 < burst" "burst \<le> 10 ^ 8" "script_ok rate burst (script_now rnd m) ob"
    and "bucket_script rnd rate burst m ob = (ok, ob')"
  shows "script_ok rate burst (script_now rnd m) ob' \<and>
    float_level ulp rate burst (script_now rnd m) ob' + (if ok then 1 - 2 * ulp * of_int burst else - ulp)
      \<le> float_level ulp rate burst (script_now rnd m) ob"
proof -
  let ?t = "script_now rnd m" and ?B = "of_int burst :: real"
  let ?live = "script_live ?t ob"
  define tk where "tk = (case ?live of Some b \<Rightarrow> sb_tokens b | None \<Rightarrow> ?B)"
  define up where "up = (case ?live of Some b \<Rightarrow> sb_updated b | None \<Rightarrow> ?t)"
  define g where "g = rnd (rnd (?t - up) * rnd (of_int rate / 60))"
  define x where "x = min ?B (rnd (tk + g))"
  have tk: "0 \<le> tk" "tk \<le> ?B" and up: "up \<le> ?t"
    using assms(2,4) by (auto simp: tk_def up_def script_live_def script_ok_def split: option.splits if_splits)
  have lev: "float_level ulp rate burst ?t ob = min ?B (tk + (?t - up) * script_flow ulp rate)"
    unfolding float_level_live [OF assms(1,4), symmetric] by (simp add: float_level_def tk_def up_def split: option.splits)
  have d: "0 \<le> ?t - up" using up by simp
  note g = script_gain [OF assms(1) d, folded g_def]
  have b1: "1 \<le> burst" using assms(2) by simp
  have sum: "0 \<le> tk + g" "tk + g \<le> tk + (?t - up) * script_flow ulp rate" using tk g by auto
  note x = script_balance [OF b1 sum, folded x_def lev]
  have xB: "x \<le> ?B" by (simp add: x_def)
  have mx: "max 0 (rnd (?t - up)) = rnd (?t - up)" using rnd_nonneg [OF d] by simp
  have res: "ok = (1 \<le> x)" "ob' = Some \<lparr>sb_tokens = (if 1 \<le> x then rnd (x - 1) else x), sb_updated = ?t,
      sb_expires = ?t + script_expiry rnd rate burst\<rparr>"
    using assms(5) unfolding bucket_script_def Let_def tk_def [symmetric] up_def [symmetric] mx g_def [symmetric] x_def [symmetric]
    by auto
  have "rnd (x - 1) \<le> rnd ?B" using xB by (intro rnd_mono) simp
  then have pB: "rnd (x - 1) \<le> ?B" using rnd_of_int [of burst] assms(2,3) by simp
  show ?thesis
  proof (cases "1 \<le> x")
    case True
    then have "rnd (x - 1) \<le> (x - 1) * (1 + ulp)" by (intro rnd_upper) simp
    also have "\<dots> \<le> x - 1 + ulp * ?B" using mult_left_mono [OF xB ulp_nonneg] ulp_nonneg by (simp add: algebra_simps)
    finally have "rnd (x - 1) \<le> float_level ulp rate burst ?t ob - 1 + 2 * ulp * ?B" using x(1) by simp
    then show ?thesis
      using True pB rnd_nonneg [of "x - 1"] script_expiry_ge [OF assms(1,2)]
      by (simp add: res script_ok_def float_level_def)
  next
    case False
    then show ?thesis using x(2,3) xB script_expiry_ge [OF assms(1,2)] by (simp add: res script_ok_def float_level_def)
  qed
qed

section \<open>A run\<close>

lemma script_float_run:
  assumes "0 < rate" "0 < burst" "burst \<le> 10 ^ 8"
    and "script_ok rate burst (script_now rnd m) ob" "sorted (m # ms)" "script_run rnd rate burst ob ms = (oks, ob')"
  shows "script_ok rate burst (script_now rnd (last (m # ms))) ob' \<and>
    float_level ulp rate burst (script_now rnd (last (m # ms))) ob' + real (length (filter id oks)) * (1 - 2 * ulp * of_int burst)
      \<le> float_level ulp rate burst (script_now rnd m) ob
        + (script_now rnd (last (m # ms)) - script_now rnd m) * script_flow ulp rate + ulp * real (length ms)"
  using assms(4-)
proof (induction ms arbitrary: m ob oks)
  case (Cons q ms)
  obtain ok ob1 where one: "bucket_script rnd rate burst q ob = (ok, ob1)" by fastforce
  obtain oks1 where rest: "script_run rnd rate burst ob1 ms = (oks1, ob')" and oks: "oks = ok # oks1"
    using Cons.prems(3) one by (auto split: prod.splits)
  have t: "script_now rnd m \<le> script_now rnd q" using Cons.prems(2) by (intro script_now_mono) simp
  note step = script_float_step [OF assms(1-3) script_ok_later [OF Cons.prems(1) t] one]
  have "sorted (q # ms)" using Cons.prems(2) by simp
  note more = Cons.IH [OF conjunct1 [OF step] this rest]
  let ?f = "script_flow ulp rate" and ?z = "script_now rnd (last (q # ms))"
  have wait: "float_level ulp rate burst (script_now rnd q) ob \<le> float_level ulp rate burst (script_now rnd m) ob
      + (script_now rnd q - script_now rnd m) * ?f"
  proof -
    have nn: "0 \<le> (script_now rnd q - script_now rnd m) * ?f" using t script_flow_nonneg [OF assms(1)] by simp
    show ?thesis
    proof (cases ob)
      case (Some b)
      have "(script_now rnd q - sb_updated b) * ?f = (script_now rnd q - script_now rnd m) * ?f + (script_now rnd m - sb_updated b) * ?f"
        by (rule split_interval [symmetric])
      with nn show ?thesis unfolding float_level_def Some option.case by linarith
    qed (use nn in \<open>simp add: float_level_def\<close>)
  qed
  have sp: "(?z - script_now rnd q) * ?f + (script_now rnd q - script_now rnd m) * ?f = (?z - script_now rnd m) * ?f"
    by (rule split_interval)
  have cnt: "real (length (filter id oks)) * (1 - 2 * ulp * of_int burst) + (if ok then 0 else - ulp) =
      (if ok then 1 - 2 * ulp * of_int burst else - ulp) + real (length (filter id oks1)) * (1 - 2 * ulp * of_int burst)"
    by (simp add: oks distrib_right)
  have le: "last (m # q # ms) = last (q # ms)" "ulp * real (length (q # ms)) = ulp + ulp * real (length ms)"
    by (simp_all add: algebra_simps)
  show ?case unfolding le
  proof (intro conjI conjunct1 [OF more])
    note sum = sp cnt conjunct2 [OF more] conjunct2 [OF step] wait ulp_nonneg
    show "float_level ulp rate burst ?z ob' + real (length (filter id oks)) * (1 - 2 * ulp * of_int burst)
        \<le> float_level ulp rate burst (script_now rnd m) ob + (?z - script_now rnd m) * ?f + (ulp + ulp * real (length ms))"
    proof (cases ok)
      case True
      note sum [unfolded if_P [OF True]]
      then show ?thesis by linarith
    next
      case False
      note sum [unfolded if_not_P [OF False]]
      then show ?thesis by linarith
    qed
  qed
qed (use ulp_nonneg in simp)

lemma script_float_window:
  assumes "0 < rate" "0 < burst" "burst \<le> 10 ^ 8" "sorted (earlier @ m # ms)"
    and "script_run rnd rate burst None (earlier @ m # ms) = (oks, ob)"
  shows "real (length (filter id (drop (length earlier) oks))) * (1 - 2 * ulp * of_int burst)
    \<le> of_int burst + (script_now rnd (last (m # ms)) - script_now rnd m) * script_flow ulp rate + ulp * real (length (m # ms))"
proof -
  obtain a o1 where a: "script_run rnd rate burst None earlier = (a, o1)" by fastforce
  obtain b where b: "script_run rnd rate burst o1 (m # ms) = (b, ob)" and oks: "oks = a @ b"
    using assms(5) by (auto simp: script_run_append a simp del: script_run.simps split: prod.splits)
  have la: "length a = length earlier" using script_run_length [of rnd rate burst None earlier] by (simp add: a)
  have o1: "script_ok rate burst (script_now rnd m) o1"
  proof (cases earlier)
    case Nil
    with a show ?thesis by (simp add: script_ok_def)
  next
    case (Cons e es)
    have "script_ok rate burst (script_now rnd (last (e # earlier))) o1"
      using script_float_run [OF assms(1-3) _ _ a, of e] assms(4) by (auto simp: Cons script_ok_def sorted_append)
    moreover have "last (e # earlier) \<le> m" using assms(4) last_in_set [of earlier] by (auto simp: Cons sorted_append)
    ultimately show ?thesis using script_ok_later script_now_mono by blast
  qed
  have "sorted (m # m # ms)" using assms(4) by (simp add: sorted_append)
  note main = script_float_run [OF assms(1-3) o1 this b]
  have "0 \<le> float_level ulp rate burst (script_now rnd (last (m # m # ms))) ob"
    using float_level_nonneg [OF assms(1,2) conjunct1 [OF main]] .
  moreover have "drop (length earlier) oks = b" by (simp add: oks la)
  moreover have "last (m # m # ms) = last (m # ms)" by simp
  ultimately show ?thesis using main float_level_le [of ulp rate burst "script_now rnd m" o1] by (simp only:) linarith
qed

end

section \<open>The guarantee\<close>

text \<open>C14: The Redis script, in the float64 arithmetic it runs in: over any window of a run of one key in which the clock of
  Redis does not go back, the requests it admits number at most the burst plus what the rate refills in the window.
  Rounding adds one part in \<open>2 ^ 49\<close> to the rate, \<open>2 ^ 52\<close> over the burst to the count, four microseconds to the window,
  and one request in \<open>2 ^ 53\<close> calls; letting idle keys expire gives nothing away.\<close>

theorem script_rate_bound:
  assumes "0 < rate" "0 < burst" "burst \<le> 10 ^ 8"
    and "sorted (earlier @ m # ms)" "0 \<le> m" "last (m # ms) < 2 ^ 53"
    and "script_run fl64 rate burst None (earlier @ m # ms) = (oks, ob)"
  shows "real (length (filter id (drop (length earlier) oks))) * (1 - of_int burst / 2 ^ 52)
    \<le> of_int burst + (1 + 1 / 2 ^ 49) * (of_int rate / 60) * (of_int (last (m # ms) - m) / 1000000 + 1 / 250000)
      + real (length (m # ms)) / 2 ^ 53"
proof -
  let ?z = "last (m # ms)"
  have mz: "m \<le> ?z" using assms(4) by (cases ms rule: rev_cases) (auto simp: sorted_append)
  have m: "m < 2 ^ 53" "0 \<le> ?z" using mz assms(5,6) by simp_all
  have "script_now fl64 ?z - script_now fl64 m \<le> of_int (?z - m) / 1000000 + 1 / 250000"
    using f64.script_now_err [OF m(2) assms(6)] f64.script_now_err [OF assms(5) m(1)]
    unfolding of_int_diff diff_divide_distrib by linarith
  moreover have "0 \<le> script_now fl64 ?z - script_now fl64 m" using f64.script_now_mono [OF mz] by simp
  moreover have "script_flow (1 / 2 ^ 53) rate \<le> (1 + 1 / 2 ^ 49) * (of_int rate / 60)"
    unfolding script_flow_def using drift_f64 assms(1) by (intro mult_right_mono) simp_all
  ultimately have "(script_now fl64 ?z - script_now fl64 m) * script_flow (1 / 2 ^ 53) rate
      \<le> (of_int (?z - m) / 1000000 + 1 / 250000) * ((1 + 1 / 2 ^ 49) * (of_int rate / 60))"
    using mz f64.script_flow_nonneg [OF assms(1)] by (intro mult_mono) simp_all
  then have gain: "(script_now fl64 ?z - script_now fl64 m) * script_flow (1 / 2 ^ 53) rate
      \<le> (1 + 1 / 2 ^ 49) * (of_int rate / 60) * (of_int (?z - m) / 1000000 + 1 / 250000)" by (simp only: mult.commute)
  have "1 - 2 * (1 / 2 ^ 53) * of_int burst = (1 - of_int burst / 2 ^ 52 :: real)"
    "1 / 2 ^ 53 * real (length (m # ms)) = real (length (m # ms)) / 2 ^ 53" by simp_all
  from f64.script_float_window [OF assms(1-4,7), unfolded this] gain show ?thesis by linarith
qed

lemma script_rate_bound_witness:
  "\<exists>oks ob. script_run fl64 60 2 None ([0] @ [1000000, 2000000, 2000000]) = (oks, ob) \<and>
     real (length (filter id (drop 1 oks))) * (1 - 2 / 2 ^ 52) \<le> 2 + (1 + 1 / 2 ^ 49) * (1 + 1 / 250000) + 3 / 2 ^ 53"
proof -
  obtain oks ob where r: "script_run fl64 60 2 None ([0] @ 1000000 # [2000000, 2000000]) = (oks, ob)" by fastforce
  from script_rate_bound [OF _ _ _ _ _ _ r] show ?thesis using r by (intro exI [of _ oks] exI [of _ ob]) simp
qed

text \<open>The condition on the clock is needed: when it goes back the script stores the earlier time, and the time between is
  refilled a second time.  Here one token a second is admitted twice at the tenth second.\<close>

lemma clock_back_refills:
  "fst (script_run exact 60 1 None [10000000, 9000000, 10000000]) = [True, False, True]"
  by (simp add: bucket_script_def script_live_def script_now_def script_expiry_def exact_def)

end
