(* ===== verification/TokenBucket.thy ===== *)
theory TokenBucket
  imports RateBound RedisLimit
begin

text \<open>
  What a token bucket is, and that the two limiters are one: the script Redis runs and the local limiter that stands in
  for it take the decisions of the same abstract bucket, request by request.  The float64 arithmetic of both is idealised
  here (\<open>exact\<close>); RateBound bounds what rounding can add.  Times are whole microseconds, the unit of the script.
\<close>

section \<open>The abstract bucket\<close>

record token_bucket =
  tb_tokens :: real
  tb_at :: int

text \<open>Tokens per microsecond, for a rate per minute.\<close>

definition per_micro :: "int \<Rightarrow> real" where
  "per_micro rate = of_int rate / 60 / 1000000"

definition tb_level :: "int \<Rightarrow> int \<Rightarrow> token_bucket \<Rightarrow> int \<Rightarrow> real" where
  "tb_level rate burst b m = min (of_int burst) (tb_tokens b + of_int (m - tb_at b) * per_micro rate)"

definition tb_take :: "int \<Rightarrow> int \<Rightarrow> int \<Rightarrow> request \<Rightarrow> token_bucket \<Rightarrow> bool \<times> token_bucket" where
  "tb_take rate burst m r b =
     (let x = tb_level rate burst b m in (1 \<le> x, \<lparr>tb_tokens = (if 1 \<le> x then x - 1 else x), tb_at = m\<rparr>))"

definition tb_full :: "int \<Rightarrow> int \<Rightarrow> token_bucket" where
  "tb_full burst m = \<lparr>tb_tokens = of_int burst, tb_at = m\<rparr>"

fun decisions :: "(int \<Rightarrow> request \<Rightarrow> 's \<Rightarrow> bool \<times> 's) \<Rightarrow> 's \<Rightarrow> (int \<times> request) list \<Rightarrow> bool list" where
  "decisions draw s [] = []"
| "decisions draw s ((m, r) # reqs) = (case draw m r s of (adm, s') \<Rightarrow> adm # decisions draw s' reqs)"

section \<open>The interface\<close>

text \<open>The limits a bucket is used with: both positive, and refilled within the range of a Duration.\<close>

definition sane :: "int \<Rightarrow> int \<Rightarrow> bool" where
  "sane rate burst \<longleftrightarrow> 0 < rate \<and> 0 < burst \<and> burst \<le> 10 ^ 8"

locale bucket =
  fixes rate burst :: int and level :: "'s \<Rightarrow> int \<Rightarrow> real" and fit :: "'s \<Rightarrow> int \<Rightarrow> bool"
    and draw :: "int \<Rightarrow> request \<Rightarrow> 's \<Rightarrow> bool \<times> 's"
  assumes later: "fit s m \<Longrightarrow> m \<le> m' \<Longrightarrow>
      fit s m' \<and> level s m' = min (of_int burst) (level s m + of_int (m' - m) * per_micro rate)"
    and taken: "fit s m \<Longrightarrow> draw m r s = (adm, s') \<Longrightarrow>
      fit s' m \<and> (adm \<longleftrightarrow> 1 \<le> level s m) \<and> level s' m = level s m - (if adm then 1 else 0)"

text \<open>Two buckets that start level stay level, so they decide alike.\<close>

locale two_buckets = a: bucket rate burst level fit draw + b: bucket rate burst level' fit' draw'
  for rate burst :: int and level :: "'s \<Rightarrow> int \<Rightarrow> real" and fit draw
    and level' :: "'t \<Rightarrow> int \<Rightarrow> real" and fit' draw'
begin

lemma same_decisions:
  assumes "fit s m" "fit' t m" "level s m = level' t m" "sorted (m # map fst reqs)"
  shows "decisions draw s reqs = decisions draw' t reqs"
  using assms
proof (induction reqs arbitrary: m s t)
  case (Cons mr reqs)
  obtain n r where mr: "mr = (n, r)" by fastforce
  obtain adm s' adm' t' where draw: "draw n r s = (adm, s')" "draw' n r t = (adm', t')" by fastforce
  have n: "m \<le> n" "sorted (n # map fst reqs)" using Cons.prems(4) by (simp_all add: mr)
  note later = a.later [OF Cons.prems(1) n(1)] b.later [OF Cons.prems(2) n(1)]
  with Cons.prems(3) have lev: "level s n = level' t n" by simp
  note step = a.taken [OF conjunct1 [OF later(1)] draw(1)] b.taken [OF conjunct1 [OF later(2)] draw(2)]
  then have "adm = adm'" "level s' n = level' t' n" using lev by auto
  with Cons.IH [of s' n t'] step n(2) show ?case by (simp add: mr draw)
qed simp

end

section \<open>The abstract bucket is one\<close>

lemma min_min_add: "0 \<le> d \<Longrightarrow> min b (min b x + d) = min b (x + d :: real)"
  by (simp add: min_def)

lemma per_micro_pos: "sane rate burst \<Longrightarrow> 0 < per_micro rate"
  by (simp add: sane_def per_micro_def)

definition tb_fit :: "int \<Rightarrow> int \<Rightarrow> token_bucket \<Rightarrow> int \<Rightarrow> bool" where
  "tb_fit rate burst b m \<longleftrightarrow> sane rate burst \<and> tb_at b \<le> m"

interpretation spec: bucket rate burst "tb_level rate burst" "tb_fit rate burst" "tb_take rate burst" for rate burst
proof
  fix s :: token_bucket and m m' :: int
  assume fit: "tb_fit rate burst s m" and le: "m \<le> m'"
  have d: "0 \<le> of_int (m' - m) * per_micro rate" using fit le per_micro_pos [of rate burst] by (simp add: tb_fit_def)
  have "tb_tokens s + of_int (m' - tb_at s) * per_micro rate
      = tb_tokens s + of_int (m - tb_at s) * per_micro rate + of_int (m' - m) * per_micro rate" by (simp add: algebra_simps)
  then have "tb_level rate burst s m' = min (of_int burst) (tb_level rate burst s m + of_int (m' - m) * per_micro rate)"
    by (simp only: tb_level_def min_min_add [OF d])
  with fit le show "tb_fit rate burst s m' \<and>
      tb_level rate burst s m' = min (of_int burst) (tb_level rate burst s m + of_int (m' - m) * per_micro rate)"
    by (simp add: tb_fit_def)
next
  fix s s' :: token_bucket and m :: int and r adm
  assume "tb_fit rate burst s m" "tb_take rate burst m r s = (adm, s')"
  then show "tb_fit rate burst s' m \<and> (adm \<longleftrightarrow> 1 \<le> tb_level rate burst s m) \<and>
      tb_level rate burst s' m = tb_level rate burst s m - (if adm then 1 else 0)"
    by (auto simp: tb_take_def Let_def tb_fit_def tb_level_def)
qed

section \<open>The script is one\<close>

definition script_fit :: "int \<Rightarrow> int \<Rightarrow> script_bucket option \<Rightarrow> int \<Rightarrow> bool" where
  "script_fit rate burst ob m \<longleftrightarrow> sane rate burst \<and> script_ok rate burst (micros_time m) ob"

definition script_take :: "int \<Rightarrow> int \<Rightarrow> int \<Rightarrow> request \<Rightarrow> script_bucket option \<Rightarrow> bool \<times> script_bucket option" where
  "script_take rate burst m r ob = bucket_script exact rate burst m ob"

lemma micros_time_diff: "(micros_time m' - micros_time m) * (of_int rate / 60) = of_int (m' - m) * per_micro rate"
  by (simp add: micros_time_def per_micro_def field_simps)

interpretation script: bucket rate burst "\<lambda>ob m. script_level rate burst (micros_time m) ob" "script_fit rate burst" "script_take rate burst"
  for rate burst
proof
  fix s :: "script_bucket option" and m m' :: int
  assume fit: "script_fit rate burst s m" and le: "m \<le> m'"
  have d: "0 \<le> of_int (m' - m) * per_micro rate" using fit le per_micro_pos [of rate burst] by (simp add: script_fit_def)
  have t: "micros_time m \<le> micros_time m'" using le by (simp add: micros_time_def)
  show "script_fit rate burst s m' \<and> script_level rate burst (micros_time m') s =
      min (of_int burst) (script_level rate burst (micros_time m) s + of_int (m' - m) * per_micro rate)"
  proof (cases s)
    case (Some b)
    have "(micros_time m' - sb_updated b) * (of_int rate / 60) =
        of_int (m' - m) * per_micro rate + (micros_time m - sb_updated b) * (of_int rate / 60)"
      unfolding micros_time_diff [symmetric] by (rule split_interval [symmetric])
    then have "sb_tokens b + (micros_time m' - sb_updated b) * (of_int rate / 60) =
        sb_tokens b + (micros_time m - sb_updated b) * (of_int rate / 60) + of_int (m' - m) * per_micro rate" by linarith
    then have "script_level rate burst (micros_time m') s =
        min (of_int burst) (script_level rate burst (micros_time m) s + of_int (m' - m) * per_micro rate)"
      by (simp only: Some script_level_def option.case min_min_add [OF d])
    with fit t show ?thesis by (auto simp: Some script_fit_def script_ok_def)
  qed (use fit d in \<open>simp add: script_level_def script_fit_def script_ok_def\<close>)
next
  fix s s' :: "script_bucket option" and m :: int and r adm
  assume fit: "script_fit rate burst s m" and draw: "script_take rate burst m r s = (adm, s')"
  have pos: "0 < rate" "0 < burst" and ok: "script_ok rate burst (micros_time m) s" using fit by (simp_all add: script_fit_def sane_def)
  have script: "bucket_script exact rate burst m s = (adm, s')" using draw by (simp add: script_take_def)
  note step = bucket_script_step [OF pos ok script]
  have "adm \<longleftrightarrow> 1 \<le> script_level rate burst (micros_time m) s" by (rule bucket_script_decides [OF pos ok script])
  with step fit show "script_fit rate burst s' m \<and> (adm \<longleftrightarrow> 1 \<le> script_level rate burst (micros_time m) s) \<and>
      script_level rate burst (micros_time m) s' = script_level rate burst (micros_time m) s - (if adm then 1 else 0)"
    by (auto simp: script_fit_def)
qed

section \<open>The local limiter is one\<close>

definition the_limit :: "int \<Rightarrow> int \<Rightarrow> ILimit" where
  "the_limit rate burst = \<lparr>l_rate = rate, l_burst = burst, l_key = (\<lambda>r. ''global'')\<rparr>"

lemma the_limit_simps [simp]:
  "l_rate (the_limit rate burst) = rate" "l_burst (the_limit rate burst) = burst" "l_key (the_limit rate burst) r = ''global''"
  by (simp_all add: the_limit_def)

lemma local_limits_sane: "sane rate burst \<Longrightarrow> local_limits rate burst key = [the_limit rate burst]"
  by (simp add: sane_def local_limits_def rate_candidates_def the_limit_def)

lemma capacity_exact [simp]: "capacity exact l = of_int (l_burst l)"
  by (simp add: capacity_def exact_def)

lemma flow_exact: "flow 0 (the_limit rate burst) * of_int (1000 * m' - 1000 * m) = of_int (m' - m) * per_micro rate"
  by (simp add: flow_def drift_def ideal_rate_def per_micro_def field_simps)

text \<open>A refill gives exactly the level: a wait too long for a Duration fills the bucket as well.\<close>

lemma refill_exact:
  assumes "sane (l_rate l) (l_burst l)" "bucket_ok exact l now (Some b)"
  shows "refill exact now l b = level exact 0 l now (Some b)"
proof -
  let ?r = "of_int (l_rate l) :: real" and ?d = "now - b_updated b"
  have d: "0 \<le> ?d" and r: "1 \<le> ?r" "0 \<le> b_tokens b" "of_int (l_burst l) \<le> (10 ^ 8 :: real)"
    using assms by (auto simp: bucket_ok_def sane_def)
  have per: "per_second exact l = ?r / 60" by (simp add: per_second_def exact_def)
  have lev: "level exact 0 l now (Some b) = min (of_int (l_burst l)) (b_tokens b + of_int ?d / 1000000000 * (?r / 60))"
    by (simp add: level_def flow_def drift_def ideal_rate_def mult.commute)
  have ref: "refill exact now l b = min (of_int (l_burst l)) (b_tokens b + dur_seconds exact (time_sub now (b_updated b)) * (?r / 60))"
    by (simp add: refill_def per exact_def)
  show ?thesis
  proof (cases "?d < 2 ^ 63")
    case True
    with d have "time_sub now (b_updated b) = ?d" by (simp add: time_sub_exact)
    then show ?thesis unfolding ref lev by (simp only: dur_seconds_exact)
  next
    case False
    with d have t: "time_sub now (b_updated b) = 2 ^ 63 - 1" by (simp add: time_sub_def)
    have "dur_seconds exact (2 ^ 63 - 1) = of_int (2 ^ 63 - 1) / 1000000000" by (rule dur_seconds_exact)
    then have long: "10 ^ 8 * 60 \<le> dur_seconds exact (2 ^ 63 - 1)" by simp
    from False have "2 ^ 63 \<le> ?d" by simp
    then have "of_int (2 ^ 63) \<le> (of_int ?d :: real)" by (simp only: of_int_le_iff)
    then have wait: "10 ^ 8 * 60 \<le> of_int ?d / (1000000000 :: real)" by simp
    have full: "of_int (l_burst l) \<le> b_tokens b + x * (?r / 60)" if "10 ^ 8 * 60 \<le> x" for x
    proof -
      have "10 ^ 8 * 60 * (1 / 60) \<le> x * (?r / 60)" using that r(1) by (intro mult_mono) simp_all
      with r show ?thesis by simp
    qed
    show ?thesis unfolding ref lev t min_absorb1 [OF full [OF long]] min_absorb1 [OF full [OF wait]] by (rule refl)
  qed
qed

lemma level_later:
  assumes "0 < l_rate l" "t \<le> t'"
  shows "level exact 0 l t' ob = min (of_int (l_burst l)) (level exact 0 l t ob + flow 0 l * of_int (t' - t))"
proof -
  have d: "0 \<le> flow 0 l * of_int (t' - t)" using assms by (simp add: flow_def drift_def ideal_rate_def)
  show ?thesis
  proof (cases ob)
    case (Some b)
    have "b_tokens b + flow 0 l * of_int (t' - b_updated b) = b_tokens b + flow 0 l * of_int (t - b_updated b) + flow 0 l * of_int (t' - t)"
      by (simp add: algebra_simps)
    then show ?thesis by (simp only: Some level_def option.case capacity_exact min_min_add [OF d])
  qed (use d in \<open>simp add: level_def\<close>)
qed

text \<open>What is swept is full, so sweeping does not change the level.\<close>

lemma level_sweep_exact:
  assumes "sane (l_rate l) (l_burst l)" "bucket_ok exact l now (lm_state lm k)"
  shows "level exact 0 l now (lm_state (sweep_limiter now lm) k) = level exact 0 l now (lm_state lm k)"
  using sweep_limiter_cases [of now lm k]
proof (elim disjE conjE exE)
  fix b
  assume none: "lm_state (sweep_limiter now lm) k = None" and b: "lm_state lm k = Some b" and late: "time_after now (b_fullAt b)"
  have pos: "0 < l_rate l" "0 < l_burst l" using assms(1) by (simp_all add: sane_def)
  have "of_int (l_burst l) / (of_int (l_rate l) / 60) \<le> 10 ^ 8 / (1 / (60 :: real))"
    using assms(1) by (intro frac_le) (simp_all add: sane_def)
  then have small: "capacity exact l / per_second exact l * (1 + 0) ^ 3 * 1000000000 < 2 ^ 63"
    by (simp add: per_second_def exact_def [of "_ / _"] exact_def [of "of_int _"])
  have "capacity exact l \<le> b_tokens b + drift 0 * ideal_rate l * (of_int (now - b_updated b) / 1000000000)"
    using assms(2) b late by (intro ideal.swept_is_full [OF pos small]) (auto simp: bucket_ok_def)
  then show ?thesis by (simp add: none b level_def flow_def)
qed simp

text \<open>One call, with room in the map.\<close>

lemma allow_one:
  assumes "map_len (lm_state (sweep_limiter now lm)) < maxBuckets" "k = l_key l r"
  shows "allow rnd pick [l] lm now r =
    (case pay rnd now l (current rnd now l k (lm_state (sweep_limiter now lm))) of
       None \<Rightarrow> (False, sweep_limiter now lm)
     | Some b \<Rightarrow> (True, sweep_limiter now lm\<lparr>lm_state := (lm_state (sweep_limiter now lm))(k \<mapsto> b, [] \<mapsto> zero_bucket, [] \<mapsto> zero_bucket)\<rparr>))"
  by (simp add: allow_def Let_def charge_calm [OF assms(1)] assms(2) pad3_def numeral_eq_Suc split: option.splits)

definition local_level :: "int \<Rightarrow> int \<Rightarrow> limiter \<Rightarrow> int \<Rightarrow> real" where
  "local_level rate burst lm m = level exact 0 (the_limit rate burst) (1000 * m) (lm_state lm ''global'')"

definition local_fit :: "int \<Rightarrow> int \<Rightarrow> limiter \<Rightarrow> int \<Rightarrow> bool" where
  "local_fit rate burst lm m \<longleftrightarrow>
     sane rate burst \<and> bucket_ok exact (the_limit rate burst) (1000 * m) (lm_state lm ''global'') \<and> dom (lm_state lm) \<subseteq> {''global'', []}"

definition local_take :: "((string \<rightharpoonup> bucket) \<Rightarrow> string) \<Rightarrow> int \<Rightarrow> int \<Rightarrow> int \<Rightarrow> request \<Rightarrow> limiter \<Rightarrow> bool \<times> limiter" where
  "local_take pick rate burst m r lm = allow exact pick (local_limits rate burst '''') lm (1000 * m) r"

lemma refill_current:
  fixes rate burst :: int
  defines "l \<equiv> the_limit rate burst"
  assumes "sane rate burst" "bucket_ok exact l now (s k)"
  shows "refill exact now l (current exact now l k s) = level exact 0 l now (s k)"
proof (cases "s k")
  case None
  moreover have "dur_seconds exact (time_sub now now) = 0" by (simp add: dur_seconds_exact time_sub_def)
  ultimately show ?thesis by (simp add: l_def level_def current_def refill_def exact_def)
next
  case (Some b)
  with refill_exact [of l now b] assms show ?thesis by (simp add: current_def)
qed

lemma local_call:
  assumes "local_fit rate burst lm m" "local_take pick rate burst m r lm = (adm, lm')"
  shows "local_fit rate burst lm' m \<and> (adm \<longleftrightarrow> 1 \<le> local_level rate burst lm m) \<and>
    local_level rate burst lm' m = local_level rate burst lm m - (if adm then 1 else 0)"
proof -
  let ?l = "the_limit rate burst" and ?k = "''global''" and ?now = "1000 * m"
  let ?s = "lm_state (sweep_limiter ?now lm)"
  define x where "x = local_level rate burst lm m"
  have sane: "sane rate burst" and ok: "bucket_ok exact ?l ?now (lm_state lm ?k)" and dom: "dom (lm_state lm) \<subseteq> {?k, []}"
    using assms(1) by (simp_all add: local_fit_def)
  have lev: "level exact 0 ?l ?now (?s ?k) = x"
    using level_sweep_exact [of ?l ?now lm ?k] sane ok by (simp add: x_def local_level_def)
  have sdom: "dom ?s \<subseteq> {?k, []}" using dom sweep_limiter_sub by blast
  have "card (dom ?s) \<le> card {?k, []}" using sdom by (intro card_mono) simp_all
  then have room: "map_len ?s < maxBuckets" by (simp add: map_len_def maxBuckets_def)
  have s_ok: "bucket_ok exact ?l ?now (?s ?k)" using ok sweep_limiter_cases [of ?now lm ?k] by (auto simp: bucket_ok_def)
  let ?c = "current exact ?now ?l ?k ?s"
  have "refill exact ?now ?l ?c = x" using refill_current [where s = ?s and k = ?k, OF sane s_ok] lev by simp
  then have pay: "pay exact ?now ?l ?c = (if x < 1 then None
      else Some \<lparr>b_tokens = x - 1, b_updated = ?now, b_fullAt = ?now + fill_time exact ?l (x - 1)\<rparr>)"
    by (simp add: pay_def Let_def exact_def)
  have call: "allow exact pick [?l] lm ?now r = (adm, lm')"
    using assms(2) by (simp add: local_take_def local_limits_sane [OF sane])
  note one = allow_one [OF room, of ?k ?l r exact pick, unfolded pay, simplified, unfolded call]
  have x: "x \<le> of_int burst" by (simp add: x_def local_level_def level_def split: option.splits)
  show ?thesis
  proof (cases "x < 1")
    case True
    with one have "adm = False" "lm' = sweep_limiter ?now lm" by simp_all
    moreover from this lev have "local_level rate burst lm' m = x" by (simp add: local_level_def)
    ultimately show ?thesis using True s_ok sdom sane unfolding x_def [symmetric] by (simp add: local_fit_def)
  next
    case False
    with one have "adm = True"
      "lm' = sweep_limiter ?now lm\<lparr>lm_state := ?s(?k \<mapsto> \<lparr>b_tokens = x - 1, b_updated = ?now, b_fullAt = ?now + fill_time exact ?l (x - 1)\<rparr>, [] \<mapsto> zero_bucket)\<rparr>"
      by simp_all
    moreover from this x have "local_level rate burst lm' m = x - 1" by (simp add: local_level_def level_def)
    ultimately show ?thesis using False x sdom sane unfolding x_def [symmetric] by (auto simp: local_fit_def bucket_ok_def)
  qed
qed

interpretation local: bucket rate burst "local_level rate burst" "local_fit rate burst" "local_take pick rate burst"
  for rate burst pick
proof
  fix s :: limiter and m m' :: int
  assume fit: "local_fit rate burst s m" and le: "m \<le> m'"
  then have "0 < l_rate (the_limit rate burst)" "1000 * m \<le> 1000 * m'" by (simp_all add: local_fit_def sane_def)
  from level_later [OF this, of "lm_state s ''global''"] fit le show "local_fit rate burst s m' \<and>
      local_level rate burst s m' = min (of_int burst) (local_level rate burst s m + of_int (m' - m) * per_micro rate)"
    unfolding local_level_def flow_exact by (auto simp: local_fit_def intro: bucket_ok_later)
qed (rule local_call)

section \<open>They decide alike\<close>

interpretation script_spec: two_buckets rate burst "\<lambda>ob m. script_level rate burst (micros_time m) ob" "script_fit rate burst"
  "script_take rate burst" "tb_level rate burst" "tb_fit rate burst" "tb_take rate burst" for rate burst
  by unfold_locales

interpretation local_spec: two_buckets rate burst "local_level rate burst" "local_fit rate burst" "local_take pick rate burst"
  "tb_level rate burst" "tb_fit rate burst" "tb_take rate burst" for rate burst pick
  by unfold_locales

lemma script_run_decisions: "fst (script_run exact rate burst ob (map fst reqs)) = decisions (script_take rate burst) ob reqs"
proof (induction reqs arbitrary: ob)
  case (Cons mr reqs)
  then show ?case by (cases mr) (simp add: script_take_def case_prod_unfold)
qed simp

lemma allow_run_decisions:
  "fst (allow_run exact pick (local_limits rate burst key) lm (map (\<lambda>(m, r). (1000 * m, r)) reqs)) = decisions (local_take pick rate burst) lm reqs"
proof (induction reqs arbitrary: lm)
  case (Cons mr reqs)
  have key: "local_limits rate burst key = local_limits rate burst ''''" by (simp add: local_limits_def rate_candidates_def)
  show ?case using Cons.IH unfolding key by (cases mr) (simp add: local_take_def case_prod_unfold)
qed simp

text \<open>C15: The Redis script and the local limiter that replaces it when Redis fails are the same token bucket: over any
  sequence of requests at the same non-decreasing times, both start full and take, request by request, the decisions
  of the abstract bucket (in exact arithmetic).\<close>

theorem limiters_agree:
  assumes "0 < rate" "0 < burst" "burst \<le> 10 ^ 8" "sorted (m # map fst reqs)"
  shows "fst (script_run exact rate burst None (map fst reqs)) = decisions (tb_take rate burst) (tb_full burst m) reqs \<and>
    fst (allow_run exact pick (local_limits rate burst key) (new_limiter t0) (map (\<lambda>(m, r). (1000 * m, r)) reqs)) =
      decisions (tb_take rate burst) (tb_full burst m) reqs"
proof -
  have sane: "sane rate burst" using assms(1-3) by (simp add: sane_def)
  have spec: "tb_fit rate burst (tb_full burst m) m" "tb_level rate burst (tb_full burst m) m = of_int burst"
    using sane by (simp_all add: tb_fit_def tb_full_def tb_level_def)
  have script: "script_fit rate burst None m" "script_level rate burst (micros_time m) None = of_int burst"
    using sane by (simp_all add: script_fit_def script_ok_def script_level_def)
  have local: "local_fit rate burst (new_limiter t0) m" "local_level rate burst (new_limiter t0) m = of_int burst"
    using sane by (simp_all add: local_fit_def local_level_def new_limiter_def bucket_ok_def level_def)
  show ?thesis unfolding script_run_decisions allow_run_decisions
    using script_spec.same_decisions [OF script(1) spec(1) _ assms(4)] local_spec.same_decisions [OF local(1) spec(1) _ assms(4)]
      spec(2) script(2) local(2) by simp
qed

lemma limiters_agree_witness:
  "fst (script_run exact 60 1 None [0, 500000, 1000000]) = [True, False, True] \<and>
   fst (allow_run exact (\<lambda>_. []) (local_limits 60 1 ''k'') (new_limiter 0)
     (map (\<lambda>(m, r). (1000 * m, r)) [(0, plain_request ''a'' Map.empty), (500000, plain_request ''b'' Map.empty), (1000000, plain_request ''a'' Map.empty)]))
     = [True, False, True]"
  using limiters_agree [of 60 1 0 "[(0, plain_request ''a'' Map.empty), (500000, plain_request ''b'' Map.empty), (1000000, plain_request ''a'' Map.empty)]"
      "\<lambda>_. []" "''k''" 0]
  by (simp add: tb_take_def tb_full_def tb_level_def per_micro_def Let_def)

end
