(* ===== verification/Balancer.thy ===== *)
theory Balancer
  imports LoadBalancer
begin

text \<open>
  The load balancer of a route over the requests it serves: \<open>NewLoadBalancedProxy\<close> of
  \<open>app/internal/http_server/proxy/load_balancer.go\<close>.  The reverse proxy rewrites a request, sends it through the
  transport and answers with what comes back or with its error handler; the counter and the cooldowns live on from one
  request to the next.  Requests are taken one after the other.
\<close>

section \<open>The proxy of a route\<close>

record balancer =
  bl_next :: "64 word"
  bl_health :: target_health

definition new_balancer :: balancer where
  "new_balancer = \<lparr>bl_next = 0, bl_health = newTargetHealth\<rparr>"

text \<open>A request as the reverse proxy sees it: the incoming one, the outgoing header it starts from, whether there is a body,
  the clock while a target is picked, and what the transport meets.\<close>

record lb_request =
  lq_request :: request
  lq_header :: header
  lq_hasBody :: bool
  lq_clock :: "nat \<Rightarrow> time"
  lq_env :: rt_env

datatype proxied = Answered response | Dropped

record lb_result =
  lr_outcome :: proxied
  lr_tried :: "url list"

text \<open>None is the panic of \<open>pickTarget\<close> on a counter past \<open>2 ^ 63\<close>.\<close>

definition ServeProxy ::
  "url list \<Rightarrow> ipnet list \<Rightarrow> bool \<Rightarrow> lb_request \<Rightarrow> balancer \<Rightarrow> (lb_result \<times> balancer) option" where
  "ServeProxy targets trusted forwardIP q b =
     (case Rewrite (lq_clock q) targets trusted forwardIP (lq_request q) (lq_header q) (bl_next b) (bl_health b) of
        None \<Rightarrow> None
      | Some (out, c, h) \<Rightarrow>
          (case RoundTrip (lq_env q) targets (r_method (lq_request q)) (lq_hasBody q) (out_url out) h of
             (res, s) \<Rightarrow>
               Some
                 (\<lparr>lr_outcome =
                     (case res of
                        Resp p \<Rightarrow> Answered p
                      | Fail e \<Rightarrow> (case ErrorHandler e of None \<Rightarrow> Dropped | Some p \<Rightarrow> Answered p)),
                   lr_tried = rs_tried s\<rparr>,
                  \<lparr>bl_next = c, bl_health = rs_health s\<rparr>)))"

fun serve_all :: "url list \<Rightarrow> ipnet list \<Rightarrow> bool \<Rightarrow> lb_request list \<Rightarrow> balancer \<Rightarrow> balancer option" where
  "serve_all targets trusted forwardIP [] b = Some b"
| "serve_all targets trusted forwardIP (q # qs) b =
     (case ServeProxy targets trusted forwardIP q b of
        None \<Rightarrow> None
      | Some (_, b') \<Rightarrow> serve_all targets trusted forwardIP qs b')"

section \<open>What picking leaves behind\<close>

lemma pick_loop_safe:
  "targets \<noteq> [] \<Longrightarrow> unat c + n < 2 ^ 63 \<Longrightarrow>
     \<exists>t c' h'. pick_loop clock targets i n c h = Some (t, c', h') \<and> t \<in> set targets \<and> unat c' \<le> unat c + n + 1 \<and> h' \<subseteq>\<^sub>m h"
proof (induction n arbitrary: i c h)
  case 0
  then show ?case using unat_step [of c 0] by (cases "unat c + 1 < 2 ^ 63") (auto simp: target_at_small unat_word_ariths)
next
  case (Suc n)
  let ?t = "targets ! (unat c mod length targets)"
  have at: "target_at targets c = Some ?t" using Suc.prems by (intro target_at_small) simp_all
  obtain d h1 where d: "isDown (clock i) (targetKey ?t) h = (d, h1)" by fastforce
  have sub: "h1 \<subseteq>\<^sub>m h" using isDown_sub [OF d] by (auto simp: map_le_def)
  have step: "unat (c + 1) = unat c + 1" using Suc.prems unat_step by blast
  obtain t c' h' where "pick_loop clock targets (Suc i) n (c + 1) h1 = Some (t, c', h')" "t \<in> set targets"
    "unat c' \<le> unat c + Suc n + 1" "h' \<subseteq>\<^sub>m h1"
    using Suc.IH [of "c + 1" "Suc i" h1] Suc.prems step by auto
  then show ?case using at d sub step Suc.prems(1) by (cases d) (auto intro: map_le_trans)
qed

section \<open>Cooldowns\<close>

definition attempt_failed :: "rt_env \<Rightarrow> url list \<Rightarrow> string \<Rightarrow> bool" where
  "attempt_failed env tried key \<longleftrightarrow> (\<exists>j < length tried. targetKey (tried ! j) = key \<and> (\<exists>e. re_base env j (tried ! j) = Fail e))"

lemma attempt_failed_append: "attempt_failed env tried key \<Longrightarrow> attempt_failed env (tried @ ds) key"
  unfolding attempt_failed_def by (metis length_append nth_append trans_less_add1)

definition cooling :: "rt_env \<Rightarrow> url list \<Rightarrow> target_health \<Rightarrow> target_health \<Rightarrow> bool" where
  "cooling env tried h h' \<longleftrightarrow> (\<forall>key v. h' key = Some v \<longrightarrow>
     h key = Some v \<or> attempt_failed env tried key \<and> (\<exists>k. v = re_clock env k + targetCooldown))"

lemma map_leD: "h \<subseteq>\<^sub>m g \<Longrightarrow> h k = Some v \<Longrightarrow> g k = Some v"
  by (metis domI map_le_def)

lemma cooling_refl: "h' \<subseteq>\<^sub>m h \<Longrightarrow> cooling env tried h h'"
  by (simp add: cooling_def map_leD)

lemma cooling_le: "cooling env tried h h' \<Longrightarrow> h \<subseteq>\<^sub>m g \<Longrightarrow> cooling env tried g h'"
  unfolding cooling_def by (meson map_leD)

lemma cooling_mark:
  assumes "cooling env tried (markDown (re_clock env k) key h) h'" "attempt_failed env tried key"
  shows "cooling env tried h h'"
  unfolding cooling_def
proof (intro allI impI)
  fix l v assume "h' l = Some v"
  then have "markDown (re_clock env k) key h l = Some v \<or> attempt_failed env tried l \<and> (\<exists>k. v = re_clock env k + targetCooldown)"
    using assms(1) unfolding cooling_def by blast
  then show "h l = Some v \<or> attempt_failed env tried l \<and> (\<exists>k. v = re_clock env k + targetCooldown)"
    using assms(2) by (cases "l = key") (auto simp: markDown_def)
qed

lemma targetKey_path [simp]: "targetKey (retarget u t) = targetKey t"
  by (simp add: targetKey_def)

lemma retry_loop_cooling:
  "retry_loop env u ts n k err s = (res, s') \<Longrightarrow> n = length (rs_tried s) \<Longrightarrow>
     (\<exists>ds. rs_tried s' = rs_tried s @ ds) \<and> cooling env (rs_tried s') (rs_health s) (rs_health s')"
proof (induction ts arbitrary: n k err s)
  case (Cons t ts)
  from Cons.prems(1) show ?case
  proof (cases rule: retry_loop_turn)
    case (Skipped k' h)
    from Cons.IH [OF Skipped(2)] Cons.prems(2) Skipped(1) show ?thesis by (auto intro: cooling_le)
  next
    case (Ended h)
    then show ?thesis by (simp add: cooling_refl)
  next
    case (Failed h k' e)
    from Cons.IH [OF Failed(4)] Cons.prems(2) obtain ds
      where ds: "rs_tried s' = rs_tried s @ retarget u t # ds"
        and c: "cooling env (rs_tried s') (markDown (re_clock env k') (targetKey t) h) (rs_health s')" by auto
    have "attempt_failed env (rs_tried s') (targetKey t)"
      using Failed(3) Cons.prems(2) unfolding ds attempt_failed_def by (intro exI [of _ n]) simp
    from cooling_le [OF cooling_mark [OF c this] Failed(2)] ds show ?thesis by simp
  qed
qed (simp add: cooling_refl)

lemma round_trip_cooling:
  assumes "RoundTrip env targets meth has_body u h = (res, s)"
  shows "cooling env (rs_tried s) h (rs_health s)"
proof (cases "re_base env 0 u")
  case (Resp p)
  with assms show ?thesis by (auto simp: RoundTrip_def intro: cooling_refl)
next
  case (Fail e)
  let ?h = "if \<not> re_ctxEnded env 0 \<and> rt_retryable env meth has_body then markDown (re_clock env 0) (targetKey u) h else h"
  consider "s = \<lparr>rs_health = ?h, rs_tried = [u]\<rparr>" | "retry_loop env u targets 1 1 e \<lparr>rs_health = ?h, rs_tried = [u]\<rparr> = (res, s)"
    using assms Fail by (auto simp: RoundTrip_def Let_def split: if_splits)
  then have "(\<exists>ds. rs_tried s = u # ds) \<and> cooling env (rs_tried s) ?h (rs_health s)"
  proof cases
    case 1
    then show ?thesis by (simp add: cooling_refl)
  next
    case 2
    from retry_loop_cooling [OF 2] show ?thesis by simp
  qed
  then obtain ds where ds: "rs_tried s = u # ds" and c: "cooling env (rs_tried s) ?h (rs_health s)" by blast
  have "attempt_failed env (rs_tried s) (targetKey u)"
    using Fail unfolding ds attempt_failed_def by (intro exI [of _ 0]) simp
  with c show ?thesis by (cases "\<not> re_ctxEnded env 0 \<and> rt_retryable env meth has_body") (simp_all add: cooling_mark)
qed

section \<open>Runs of the proxy\<close>

lemma serve_all_append:
  "serve_all targets trusted forwardIP (qs @ ps) b =
     (case serve_all targets trusted forwardIP qs b of None \<Rightarrow> None | Some b' \<Rightarrow> serve_all targets trusted forwardIP ps b')"
  by (induction qs arbitrary: b) (auto split: option.split)

definition outcome_from :: "attempt \<Rightarrow> proxied" where
  "outcome_from res =
     (case res of Resp p \<Rightarrow> Answered p | Fail e \<Rightarrow> (case ErrorHandler e of None \<Rightarrow> Dropped | Some p \<Rightarrow> Answered p))"

lemma serve_proxy_works:
  assumes "targets \<noteq> []" "unat (bl_next b) + length targets < 2 ^ 63"
  obtains t u h c res s where "t \<in> set targets" "ur_scheme u = ur_scheme t" "ur_host u = ur_host t" "h \<subseteq>\<^sub>m bl_health b"
    "RoundTrip (lq_env q) targets (r_method (lq_request q)) (lq_hasBody q) u h = (res, s)"
    "unat c \<le> unat (bl_next b) + length targets + 1"
    "ServeProxy targets trusted forwardIP q b =
       Some (\<lparr>lr_outcome = outcome_from res, lr_tried = rs_tried s\<rparr>, \<lparr>bl_next = c, bl_health = rs_health s\<rparr>)"
proof -
  obtain t c h where p: "pickTarget (lq_clock q) targets (bl_next b) (bl_health b) = Some (t, c, h)" "t \<in> set targets"
    "unat c \<le> unat (bl_next b) + length targets + 1" "h \<subseteq>\<^sub>m bl_health b"
    unfolding pickTarget_def using pick_loop_safe [OF assms] by blast
  define out where "out = (SetURL t (lq_request q) (lq_header q))
    \<lparr>out_header := rewrite_header trusted forwardIP (lq_request q) (lq_header q)\<rparr>"
  have u: "ur_scheme (out_url out) = ur_scheme t" "ur_host (out_url out) = ur_host t"
    by (simp_all add: out_def SetURL_def)
  obtain res s where r: "RoundTrip (lq_env q) targets (r_method (lq_request q)) (lq_hasBody q) (out_url out) h = (res, s)" by fastforce
  show thesis
    by (rule that [OF p(2) u p(4) r p(3)]) (simp add: ServeProxy_def Rewrite_def p(1) out_def [symmetric] r outcome_from_def)
qed

text \<open>The cooldown of a target, as it ends at \<open>v\<close>, goes back to a request of the run that tried that target and failed.\<close>

definition failed_before :: "url list \<Rightarrow> ipnet list \<Rightarrow> bool \<Rightarrow> lb_request list \<Rightarrow> string \<Rightarrow> time \<Rightarrow> bool" where
  "failed_before targets trusted forwardIP qs key v \<longleftrightarrow>
     (\<exists>pre q post b r b' k. qs = pre @ q # post \<and> serve_all targets trusted forwardIP pre new_balancer = Some b \<and>
        ServeProxy targets trusted forwardIP q b = Some (r, b') \<and> attempt_failed (lq_env q) (lr_tried r) key \<and>
        v = re_clock (lq_env q) k + targetCooldown)"

lemma failed_before_snoc: "failed_before targets trusted forwardIP qs key v \<Longrightarrow> failed_before targets trusted forwardIP (qs @ [q]) key v"
  unfolding failed_before_def by (metis append.assoc append_Cons)

lemma serve_all_run:
  assumes "targets \<noteq> []" "(length qs + 1) * (length targets + 1) < 2 ^ 63"
  shows "\<exists>b. serve_all targets trusted forwardIP qs new_balancer = Some b \<and> unat (bl_next b) \<le> length qs * (length targets + 1) \<and>
    (\<forall>key v. bl_health b key = Some v \<longrightarrow> failed_before targets trusted forwardIP qs key v)"
  using assms(2)
proof (induction qs rule: rev_induct)
  case (snoc q qs)
  then obtain b where b: "serve_all targets trusted forwardIP qs new_balancer = Some b" "unat (bl_next b) \<le> length qs * (length targets + 1)"
    "\<forall>key v. bl_health b key = Some v \<longrightarrow> failed_before targets trusted forwardIP qs key v" by auto
  have "unat (bl_next b) + length targets < 2 ^ 63" using b(2) snoc.prems by simp
  then obtain t u h c res s where r: "h \<subseteq>\<^sub>m bl_health b"
    "RoundTrip (lq_env q) targets (r_method (lq_request q)) (lq_hasBody q) u h = (res, s)"
    "unat c \<le> unat (bl_next b) + length targets + 1"
    "ServeProxy targets trusted forwardIP q b =
       Some (\<lparr>lr_outcome = outcome_from res, lr_tried = rs_tried s\<rparr>, \<lparr>bl_next = c, bl_health = rs_health s\<rparr>)"
    by (rule serve_proxy_works [OF assms(1), where q = q]) blast
  have "failed_before targets trusted forwardIP (qs @ [q]) key v" if cool: "rs_health s key = Some v" for key v
  proof (cases "h key = Some v")
    case True
    with map_leD [OF r(1)] b(3) failed_before_snoc show ?thesis by simp
  next
    case False
    then obtain k where "attempt_failed (lq_env q) (rs_tried s) key" "v = re_clock (lq_env q) k + targetCooldown"
      using round_trip_cooling [OF r(2)] cool unfolding cooling_def by blast
    with b(1) r(4) show ?thesis
      unfolding failed_before_def
      by (intro exI [of _ qs] exI [of _ q] exI [of _ "[]"] exI [of _ b] exI [of _ k] exI) auto
  qed
  with b(1,2) r(3,4) show ?case by (simp add: serve_all_append)
qed (simp add: new_balancer_def newTargetHealth_def)

text \<open>C19: A failing upstream costs its clients nothing while another one works, and a failed target is not forgotten: whatever
  the proxy of a route has served before, an idempotent request gets the answer of an upstream, never the proxy's own
  502 or 504, as long as some target answers and every failure of that target in the run lies more than the ten
  seconds of the cooldown back.\<close>

theorem recovered_target_answers:
  assumes "(length qs + 1) * (length targets + 1) < 2 ^ 63" "t \<in> set targets" "\<forall>x \<in> set targets. http_scheme x"
    and "rt_retryable (lq_env q) (r_method (lq_request q)) (lq_hasBody q)" "answers (lq_env q) t"
    and "\<And>k. \<not> body_fails (lq_env q) k" "\<And>n. \<not> re_ctxEnded (lq_env q) n"
    and "\<And>v k. failed_before targets trusted forwardIP qs (targetKey t) v \<Longrightarrow> v < re_clock (lq_env q) k"
  shows "\<exists>b r b' p n d. serve_all targets trusted forwardIP qs new_balancer = Some b \<and>
    ServeProxy targets trusted forwardIP q b = Some (r, b') \<and> lr_outcome r = Answered p \<and> re_base (lq_env q) n d = Resp p"
proof -
  have ne: "targets \<noteq> []" using assms(2) by auto
  obtain b where b: "serve_all targets trusted forwardIP qs new_balancer = Some b" "unat (bl_next b) \<le> length qs * (length targets + 1)"
    "\<forall>key v. bl_health b key = Some v \<longrightarrow> failed_before targets trusted forwardIP qs key v"
    using serve_all_run [OF ne assms(1)] by blast
  have "unat (bl_next b) + length targets < 2 ^ 63" using b(2) assms(1) by simp
  then obtain t' u h c res s where r: "t' \<in> set targets" "ur_scheme u = ur_scheme t'" "ur_host u = ur_host t'" "h \<subseteq>\<^sub>m bl_health b"
    "RoundTrip (lq_env q) targets (r_method (lq_request q)) (lq_hasBody q) u h = (res, s)"
    "ServeProxy targets trusted forwardIP q b =
       Some (\<lparr>lr_outcome = outcome_from res, lr_tried = rs_tried s\<rparr>, \<lparr>bl_next = c, bl_health = rs_health s\<rparr>)"
    by (rule serve_proxy_works [OF ne, where q = q]) blast
  have up: "stays_up (lq_env q) t h"
    using map_leD [OF r(4)] b(3) assms(8) by (simp add: stays_up_def)
  have "\<exists>p. res = Resp p"
  proof (cases "ur_host t = ur_host u \<and> ur_scheme t = ur_scheme u")
    case True
    then obtain p where "re_base (lq_env q) 0 u = Resp p" using assms(5) unfolding answers_def by metis
    with r(5) have "res = Resp p" by (simp add: RoundTrip_def)
    then show ?thesis by simp
  next
    case False
    then have "\<exists>p s. RoundTrip (lq_env q) targets (r_method (lq_request q)) (lq_hasBody q) u h = (Resp p, s)"
      using failover_succeeds [OF assms(4) r(1) _ _ assms(2,3) _ assms(5) up assms(6,7)] r(2,3) by metis
    with r(5) show ?thesis by auto
  qed
  then obtain p where p: "res = Resp p" by blast
  have "\<exists>n d. re_base (lq_env q) n d = Resp p" using round_trip_last [OF r(5)] p by (auto simp: last_attempt_def)
  with b(1) r(6) p show ?thesis by (auto simp: outcome_from_def)
qed

text \<open>Two targets: everything fails in the first request, the second one comes 20 seconds later and finds the second target
  working.\<close>

definition two_targets :: "url list" where
  "two_targets = [\<lparr>ur_scheme = ''http'', ur_host = ''a'', ur_path = ''/v1''\<rparr>, \<lparr>ur_scheme = ''http'', ur_host = ''b'', ur_path = ''/v2''\<rparr>]"

definition get_at :: "time \<Rightarrow> (url \<Rightarrow> attempt) \<Rightarrow> lb_request" where
  "get_at now answer =
     \<lparr>lq_request = plain_request ''192.0.2.1:5'' Map.empty, lq_header = Map.empty, lq_hasBody = False, lq_clock = (\<lambda>_. now),
      lq_env = \<lparr>re_base = (\<lambda>_. answer), re_ctxEnded = (\<lambda>_. False), re_clock = (\<lambda>_. now), re_getBody = None\<rparr>\<rparr>"

lemma recovered_target_answers_witness:
  "\<exists>b r b' p. serve_all two_targets [] True [get_at 0 (\<lambda>_. Fail Timeout)] new_balancer = Some b \<and>
     ServeProxy two_targets [] True (get_at (20 * second) (\<lambda>u. if ur_host u = ''b'' then Resp not_found else Fail Timeout)) b = Some (r, b') \<and>
     lr_outcome r = Answered p \<and> p = not_found"
proof -
  let ?q = "get_at (20 * second) (\<lambda>u. if ur_host u = ''b'' then Resp not_found else Fail Timeout)"
  let ?b = "\<lparr>ur_scheme = ''http'', ur_host = ''b'', ur_path = ''/v2''\<rparr>"
  have "v < re_clock (lq_env ?q) k" if "failed_before two_targets [] True [get_at 0 (\<lambda>_. Fail Timeout)] (targetKey ?b) v" for v k
    using that by (auto simp: failed_before_def Cons_eq_append_conv get_at_def targetCooldown_def second_def)
  then have "\<exists>b r b' p n d. serve_all two_targets [] True [get_at 0 (\<lambda>_. Fail Timeout)] new_balancer = Some b \<and>
    ServeProxy two_targets [] True ?q b = Some (r, b') \<and> lr_outcome r = Answered p \<and> re_base (lq_env ?q) n d = Resp p"
    by (intro recovered_target_answers [where t = ?b])
      (auto simp: two_targets_def http_scheme_def rt_retryable_def RetryableMethod_def get_at_def plain_request_def answers_def body_fails_def)
  then show ?thesis by (auto simp: get_at_def split: if_splits)
qed

section \<open>Paths of the targets\<close>

text \<open>A retry goes to the next target's host with the path built for the first one: the base path of the next target is
  not used.\<close>

lemma retry_keeps_first_path:
  "map_option (\<lambda>(r, b). lr_tried r) (ServeProxy two_targets [] True (get_at 0 (\<lambda>_. Fail Timeout)) new_balancer) =
     Some [\<lparr>ur_scheme = ''http'', ur_host = ''a'', ur_path = ''/v1/''\<rparr>, \<lparr>ur_scheme = ''http'', ur_host = ''b'', ur_path = ''/v1/''\<rparr>]"
  by code_simp

end
