(* ===== verification/TcpProxy.thy ===== *)
theory TcpProxy
  imports StreamPolicy
begin

text \<open>
  \<open>app/internal/http_server/TCP/tcp_index.go\<close>: the TCP proxy.  \<open>RunTCPProxy\<close> is an accept loop and
  one goroutine per admitted connection; they share the policy (under its mutex) and a buffered
  channel whose length counts the connections being proxied.  The state below is that of the loop
  and of the goroutines, every function is one atomic section of the code, and \<open>tcp_step\<close>
  interleaves them.  \<open>copyTCP\<close> is modelled as a function of what the two sockets answer.
\<close>

section \<open>The accept loop\<close>

definition maxTCPConnections :: nat where "maxTCPConnections = 1024"

text \<open>
  A connection's goroutine holds a channel slot while it proxies; its deferred function first
  takes the slot back and then releases the host at the policy.
\<close>

datatype conn_phase = Proxying | SlotFreed

datatype tcp_pc = Accepting | Admitted nat string | Returned

record tcp_state =
  t_pc :: tcp_pc
  t_policy :: stream_policy
  t_slots :: nat
  t_conns :: "nat \<rightharpoonup> conn_phase \<times> string"
  t_closed :: "nat set"
  t_delay :: duration
  t_done :: bool
  t_listening :: bool

definition tcp_init :: "stream_policy \<Rightarrow> tcp_state" where
  "tcp_init p = \<lparr>t_pc = Accepting, t_policy = p, t_slots = 0, t_conns = Map.empty, t_closed = {},
     t_delay = 0, t_done = False, t_listening = True\<rparr>"

text \<open>The delay after a failed accept.\<close>

definition backoff :: "duration \<Rightarrow> duration" where
  "backoff delay =
     (let d = (if delay = 0 then 5 * millisecond else delay * 2)
      in if second < d then second else d)"

definition accept_failed :: "bool \<Rightarrow> tcp_state \<Rightarrow> tcp_state" where
  "accept_failed is_closed s =
     (if is_closed then s\<lparr>t_pc := Returned, t_listening := False\<rparr>
      else if t_done s then s\<lparr>t_pc := Returned, t_listening := False\<rparr>
      else s\<lparr>t_delay := backoff (t_delay s)\<rparr>)"

text \<open>A client was accepted: reset the delay and ask the policy.\<close>

definition accept_client :: "nat \<Rightarrow> string \<Rightarrow> tcp_state \<Rightarrow> tcp_state" where
  "accept_client c addr s =
     (case acquire (t_policy s) addr of
        (None, p) \<Rightarrow> s\<lparr>t_delay := 0, t_policy := p, t_closed := insert c (t_closed s)\<rparr>
      | (Some host, p) \<Rightarrow> s\<lparr>t_delay := 0, t_policy := p, t_pc := Admitted c host\<rparr>)"

text \<open>The select on the channel: take a slot and start the goroutine, or give the host back.\<close>

definition take_channel_slot :: "nat \<Rightarrow> string \<Rightarrow> tcp_state \<Rightarrow> tcp_state" where
  "take_channel_slot c host s =
     (if t_slots s < maxTCPConnections then
        s\<lparr>t_pc := Accepting, t_slots := Suc (t_slots s), t_conns := (t_conns s)(c \<mapsto> (Proxying, host))\<rparr>
      else
        s\<lparr>t_pc := Accepting, t_policy := release (t_policy s) host, t_closed := insert c (t_closed s)\<rparr>)"

text \<open>The goroutine ends: \<open>proxyTCPConnection\<close> has closed the client, then the deferred function.\<close>

definition free_slot :: "nat \<Rightarrow> string \<Rightarrow> tcp_state \<Rightarrow> tcp_state" where
  "free_slot c host s =
     s\<lparr>t_slots := t_slots s - 1, t_conns := (t_conns s)(c \<mapsto> (SlotFreed, host)), t_closed := insert c (t_closed s)\<rparr>"

definition release_host :: "nat \<Rightarrow> string \<Rightarrow> tcp_state \<Rightarrow> tcp_state" where
  "release_host c host s =
     s\<lparr>t_policy := release (t_policy s) host, t_conns := (t_conns s)(c := None)\<rparr>"

text \<open>Shutdown: the caller closes \<open>done\<close>; the watchdog goroutine then closes the listener.\<close>

definition shut_down :: "tcp_state \<Rightarrow> tcp_state" where
  "shut_down s = s\<lparr>t_done := True\<rparr>"

definition close_listener :: "tcp_state \<Rightarrow> tcp_state" where
  "close_listener s = s\<lparr>t_listening := False\<rparr>"

inductive tcp_step :: "tcp_state \<Rightarrow> tcp_state \<Rightarrow> bool" where
  Accept: "t_pc s = Accepting \<Longrightarrow> t_listening s \<Longrightarrow> t_conns s c = None \<Longrightarrow> c \<notin> t_closed s \<Longrightarrow>
     tcp_step s (accept_client c addr s)"
| AcceptError: "t_pc s = Accepting \<Longrightarrow> (is_closed \<longleftrightarrow> \<not> t_listening s) \<Longrightarrow> tcp_step s (accept_failed is_closed s)"
| Slot: "t_pc s = Admitted c host \<Longrightarrow> t_conns s c = None \<Longrightarrow> tcp_step s (take_channel_slot c host s)"
| Finish: "t_conns s c = Some (Proxying, host) \<Longrightarrow> tcp_step s (free_slot c host s)"
| Release: "t_conns s c = Some (SlotFreed, host) \<Longrightarrow> tcp_step s (release_host c host s)"
| Shutdown: "tcp_step s (shut_down s)"
| CloseListener: "t_done s \<Longrightarrow> tcp_step s (close_listener s)"

inductive tcp_reachable :: "stream_policy \<Rightarrow> tcp_state \<Rightarrow> bool" for p where
  Init: "tcp_reachable p (tcp_init p)"
| Step: "tcp_reachable p s \<Longrightarrow> tcp_step s s' \<Longrightarrow> tcp_reachable p s'"

inductive_cases tcp_stepE: "tcp_step s s'"

text \<open>An executable run of one step per event, for concrete scenarios.\<close>

datatype tcp_event = EvAccept nat string | EvError | EvSlot | EvFinish nat | EvRelease nat | EvShutdown | EvCloseListener

fun tcp_exec :: "tcp_state \<Rightarrow> tcp_event \<Rightarrow> tcp_state option" where
  "tcp_exec s (EvAccept c addr) =
     (if t_pc s = Accepting \<and> t_listening s \<and> t_conns s c = None \<and> c \<notin> t_closed s
      then Some (accept_client c addr s) else None)"
| "tcp_exec s EvError =
     (if t_pc s = Accepting then Some (accept_failed (\<not> t_listening s) s) else None)"
| "tcp_exec s EvSlot =
     (case t_pc s of
        Admitted c host \<Rightarrow> if t_conns s c = None then Some (take_channel_slot c host s) else None
      | _ \<Rightarrow> None)"
| "tcp_exec s (EvFinish c) =
     (case t_conns s c of Some (Proxying, host) \<Rightarrow> Some (free_slot c host s) | _ \<Rightarrow> None)"
| "tcp_exec s (EvRelease c) =
     (case t_conns s c of Some (SlotFreed, host) \<Rightarrow> Some (release_host c host s) | _ \<Rightarrow> None)"
| "tcp_exec s EvShutdown = Some (shut_down s)"
| "tcp_exec s EvCloseListener = (if t_done s then Some (close_listener s) else None)"

fun tcp_run :: "tcp_state \<Rightarrow> tcp_event list \<Rightarrow> tcp_state option" where
  "tcp_run s [] = Some s"
| "tcp_run s (e # es) = (case tcp_exec s e of None \<Rightarrow> None | Some s' \<Rightarrow> tcp_run s' es)"

lemma tcp_exec_step: "tcp_exec s e = Some s' \<Longrightarrow> tcp_step s s'"
  by (cases e) (auto intro: tcp_step.intros split: if_splits option.splits tcp_pc.splits conn_phase.splits)

lemma tcp_run_reachable: "tcp_reachable p s \<Longrightarrow> tcp_run s es = Some s' \<Longrightarrow> tcp_reachable p s'"
  by (induction es arbitrary: s) (auto split: option.splits dest: tcp_exec_step intro: tcp_reachable.Step)

subsection \<open>The invariant\<close>

text \<open>What the proxy holds at the policy: its connections, and the admission in flight.\<close>

definition in_flight :: "tcp_pc \<Rightarrow> string \<Rightarrow> nat" where
  "in_flight pc h = (case pc of Admitted _ host \<Rightarrow> if host = h then 1 else 0 | _ \<Rightarrow> 0)"

definition tcp_own :: "tcp_state \<Rightarrow> string \<Rightarrow> nat" where
  "tcp_own s h = map_count (\<lambda>v. snd v = h) (t_conns s) + in_flight (t_pc s) h"

definition tcp_inv :: "tcp_state \<Rightarrow> bool" where
  "tcp_inv s \<longleftrightarrow>
     finite (dom (t_conns s)) \<and>
     t_slots s = map_count (\<lambda>v. fst v = Proxying) (t_conns s) \<and>
     t_slots s \<le> maxTCPConnections \<and>
     sp.in_step (t_policy s) (tcp_own s)"

lemma tcp_inv_init: "policy_ok p \<Longrightarrow> (\<And>h. held p h = 0) \<Longrightarrow> tcp_inv (tcp_init p)"
  by (auto simp: tcp_inv_def tcp_init_def sp.in_step_def tcp_own_def in_flight_def fun_eq_iff)

lemma in_step_cong: "sp.in_step p own \<Longrightarrow> (\<And>h. own h = own' h) \<Longrightarrow> sp.in_step p own'"
  by (metis ext)

lemma accept_client_inv [step_inv]:
  assumes "tcp_inv s" "t_pc s = Accepting"
  shows "tcp_inv (accept_client c addr s)"
proof (cases "acquire (t_policy s) addr")
  case (Pair r p)
  have inv: "sp.in_step (t_policy s) (tcp_own s)" using assms(1) by (simp add: tcp_inv_def)
  show ?thesis
  proof (cases r)
    case None
    with Pair have "p = t_policy s" using acquire_None by blast
    with Pair None assms show ?thesis
      by (simp add: accept_client_def tcp_inv_def tcp_own_def [abs_def])
  next
    case (Some h)
    with Pair inv have "sp.in_step p ((tcp_own s)(h := Suc (tcp_own s h)))"
      by (simp add: sp.in_step_take)
    then have "sp.in_step p (tcp_own (accept_client c addr s))"
      by (rule in_step_cong) (use Pair Some assms(2) in \<open>auto simp: accept_client_def tcp_own_def in_flight_def\<close>)
    with Pair Some assms show ?thesis by (simp add: accept_client_def tcp_inv_def)
  qed
qed

lemma take_channel_slot_inv [step_inv]:
  assumes "tcp_inv s" "t_pc s = Admitted c host" "t_conns s c = None"
  shows "tcp_inv (take_channel_slot c host s)"
proof (cases "t_slots s < maxTCPConnections")
  case True
  have "sp.in_step (t_policy s) (tcp_own (take_channel_slot c host s))"
    by (rule in_step_cong [of _ "tcp_own s"])
      (use assms True in \<open>auto simp: tcp_inv_def take_channel_slot_def tcp_own_def in_flight_def map_count_new\<close>)
  with assms True show ?thesis by (simp add: tcp_inv_def take_channel_slot_def map_count_new)
next
  case False
  have "sp.in_step (release (t_policy s) host) ((tcp_own s)(host := tcp_own s host - 1))"
    using assms(1) by (simp only: tcp_inv_def sp.in_step_give)
  then have "sp.in_step (release (t_policy s) host) (tcp_own (take_channel_slot c host s))"
    by (rule in_step_cong) (use assms False in \<open>auto simp: take_channel_slot_def tcp_own_def in_flight_def\<close>)
  with assms False show ?thesis by (simp add: tcp_inv_def take_channel_slot_def)
qed

lemma free_slot_inv [step_inv]:
  assumes "tcp_inv s" "t_conns s c = Some (Proxying, host)"
  shows "tcp_inv (free_slot c host s)"
proof -
  have fin: "finite (dom (t_conns s))" using assms by (simp add: tcp_inv_def)
  have "map_count (\<lambda>v. fst v = Proxying) (t_conns s)
      = Suc (map_count (\<lambda>v. fst v = Proxying) ((t_conns s)(c \<mapsto> (SlotFreed, host))))"
    using map_count_old [OF fin assms(2), of "\<lambda>v. fst v = Proxying" "(SlotFreed, host)"] by simp
  moreover have "tcp_own (free_slot c host s) = tcp_own s"
    using fin assms(2) by (auto simp: fun_eq_iff tcp_own_def free_slot_def map_count_same)
  ultimately show ?thesis using assms by (auto simp: tcp_inv_def free_slot_def)
qed

lemma release_host_inv [step_inv]:
  assumes "tcp_inv s" "t_conns s c = Some (SlotFreed, host)"
  shows "tcp_inv (release_host c host s)"
proof -
  have fin: "finite (dom (t_conns s))" using assms by (simp add: tcp_inv_def)
  note del = map_count_del [OF fin assms(2)]
  have "sp.in_step (release (t_policy s) host) ((tcp_own s)(host := tcp_own s host - 1))"
    using assms(1) by (simp only: tcp_inv_def sp.in_step_give)
  then have "sp.in_step (release (t_policy s) host) (tcp_own (release_host c host s))"
    by (rule in_step_cong) (auto simp: tcp_own_def release_host_def del [of "\<lambda>v. snd v = _"])
  with assms fin del [of "\<lambda>v. fst v = Proxying"] show ?thesis
    by (simp add: tcp_inv_def release_host_def)
qed

lemma accept_failed_inv [step_inv]: "tcp_inv s \<Longrightarrow> t_pc s = Accepting \<Longrightarrow> tcp_inv (accept_failed b s)"
  by (auto simp: tcp_inv_def accept_failed_def tcp_own_def [abs_def] in_flight_def)

lemma shut_down_inv [step_inv]: "tcp_inv s \<Longrightarrow> tcp_inv (shut_down s)"
  by (simp add: tcp_inv_def shut_down_def tcp_own_def [abs_def])

lemma close_listener_inv [step_inv]: "tcp_inv s \<Longrightarrow> tcp_inv (close_listener s)"
  by (simp add: tcp_inv_def close_listener_def tcp_own_def [abs_def])

lemma tcp_step_inv: "tcp_step s s' \<Longrightarrow> tcp_inv s \<Longrightarrow> tcp_inv s'"
  by (erule tcp_stepE) (simp_all add: step_inv)

lemma tcp_step_quota: "tcp_step s s' \<Longrightarrow> quota (t_policy s') = quota (t_policy s)"
  by (erule tcp_stepE)
    (auto simp: accept_client_def accept_failed_def take_channel_slot_def free_slot_def release_host_def
      shut_down_def close_listener_def release_quota acquire_quota dest: acquire_quota split: prod.splits option.splits)

lemma tcp_reachable_inv:
  "tcp_reachable p s \<Longrightarrow> policy_ok p \<Longrightarrow> (\<And>h. held p h = 0) \<Longrightarrow> tcp_inv s \<and> quota (t_policy s) = quota p"
proof (induction rule: tcp_reachable.induct)
  case Init
  then show ?case using tcp_inv_init by (simp add: tcp_init_def)
next
  case (Step s s')
  then show ?case using tcp_step_inv tcp_step_quota by metis
qed

subsection \<open>Consecutive accept failures\<close>

lemma backoff_iter: "(backoff ^^ Suc n) 0 = min second (5 * millisecond * 2 ^ n)"
proof (induction n)
  case (Suc n)
  have "(backoff ^^ Suc (Suc n)) 0 = backoff (min second (5 * millisecond * 2 ^ n))"
    using Suc.IH by (simp only: funpow.simps comp_apply)
  also have "\<dots> = min second (5 * millisecond * 2 ^ Suc n)"
    by (auto simp: backoff_def second_def millisecond_def min_def Let_def)
  finally show ?case .
qed (simp add: backoff_def second_def millisecond_def)

section \<open>Copying one direction\<close>

text \<open>
  The sockets answer the calls: \<open>reads\<close> is the sequence of results of \<open>source.Read\<close> (the bytes read and
  whether an error came with them), \<open>W i\<close> the result of the \<open>i\<close>-th \<open>destination.Write\<close> (how many
  bytes it was ready to take, and whether it failed).  A Write never takes more than it is given.
  The result is the trace of calls the loop makes.
\<close>

datatype copy_action = ExtendDeadlines | Written string

type_synonym write_script = "nat \<Rightarrow> nat \<times> bool"

text \<open>The inner loop: the calls made, the next write index, and whether all of \<open>data\<close> went out.\<close>

function write_all :: "write_script \<Rightarrow> nat \<Rightarrow> string \<Rightarrow> copy_action list \<times> nat \<times> bool" where
  "write_all W i data =
     (if data = [] then ([], i, True)
      else
        (case W i of
           (n, failed) \<Rightarrow>
             let writeCount = min n (length data) in
             if failed \<or> writeCount = 0 then ([Written (take writeCount data)], Suc i, False)
             else
               (case write_all W (Suc i) (drop writeCount data) of
                  (acts, j, ok) \<Rightarrow> (Written (take writeCount data) # acts, j, ok))))"
  by pat_completeness auto
termination
  by (relation "measure (\<lambda>(W, i, data). length data)") auto

declare write_all.simps [simp del]

fun copyTCP :: "write_script \<Rightarrow> nat \<Rightarrow> (string \<times> bool) list \<Rightarrow> copy_action list" where
  "copyTCP W i [] = []"
| "copyTCP W i ((chunk, readErr) # reads) =
     (if chunk \<noteq> [] then
        (case write_all W i chunk of
           (acts, j, ok) \<Rightarrow>
             if \<not> ok then ExtendDeadlines # acts
             else if readErr then ExtendDeadlines # acts
             else ExtendDeadlines # acts @ copyTCP W j reads)
      else if readErr then [] else copyTCP W i reads)"

fun delivered :: "copy_action list \<Rightarrow> string" where
  "delivered [] = []"
| "delivered (ExtendDeadlines # acts) = delivered acts"
| "delivered (Written d # acts) = d @ delivered acts"

text \<open>What the source handed over before its first error, errors included.\<close>

fun received :: "(string \<times> bool) list \<Rightarrow> string" where
  "received [] = []"
| "received ((chunk, readErr) # reads) = chunk @ (if readErr then [] else received reads)"

lemma delivered_append [simp]: "delivered (xs @ ys) = delivered xs @ delivered ys"
  by (induction xs rule: delivered.induct) auto

lemma write_all_delivered:
  "write_all W i data = (acts, j, ok) \<Longrightarrow>
   (\<exists>rest. data = delivered acts @ rest \<and> (ok \<longrightarrow> rest = []))"
proof (induction W i data arbitrary: acts j ok rule: write_all.induct)
  case (1 W i data)
  show ?case
  proof (cases "data = []")
    case True
    with "1.prems" show ?thesis by (auto simp: write_all.simps)
  next
    case False
    obtain n failed where w: "W i = (n, failed)" by fastforce
    define m where "m = min n (length data)"
    show ?thesis
    proof (cases "failed \<or> m = 0")
      case True
      with "1.prems" False w show ?thesis
        by (auto simp: write_all.simps [of W i data] m_def [symmetric] intro!: exI [of _ "drop m data"])
    next
      case more: False
      obtain acts' j' ok' where rec: "write_all W (Suc i) (drop m data) = (acts', j', ok')"
        using prod_cases3 by blast
      with "1.IH" [OF False w [symmetric] m_def] more obtain rest
        where "drop m data = delivered acts' @ rest" "ok' \<longrightarrow> rest = []" by auto
      moreover from rec "1.prems" False w more have "acts = Written (take m data) # acts'" "ok = ok'"
        by (auto simp: write_all.simps [of W i data] m_def [symmetric])
      ultimately show ?thesis by (metis append_assoc append_take_drop_id delivered.simps(3))
    qed
  qed
qed

lemma write_all_ok:
  "(\<And>k. \<not> snd (W k) \<and> 0 < fst (W k)) \<Longrightarrow> fst (snd (write_all W i data)) \<ge> i \<and> snd (snd (write_all W i data))"
proof (induction W i data rule: write_all.induct)
  case (1 W i data)
  show ?case
  proof (cases "data = []")
    case True
    then show ?thesis by (simp add: write_all.simps)
  next
    case False
    obtain n failed where w: "W i = (n, failed)" by fastforce
    with "1.prems" [of i] have ok: "\<not> failed" "0 < n" by auto
    define m where "m = min n (length data)"
    have "\<not> (failed \<or> m = 0)" using ok False by (simp add: m_def)
    with "1.IH" [OF False w [symmetric] m_def] "1.prems"
    have "i \<le> fst (snd (write_all W (Suc i) (drop m data)))" "snd (snd (write_all W (Suc i) (drop m data)))"
      by fastforce+
    with False w \<open>\<not> (failed \<or> m = 0)\<close> show ?thesis
      by (auto simp: write_all.simps [of W i data] m_def [symmetric] split: prod.splits)
  qed
qed

section \<open>Properties\<close>

lemma tcp_reachable_new:
  "NewStreamPolicy allow deny maxPerIP = Inr p \<Longrightarrow> tcp_reachable p s \<Longrightarrow> tcp_inv s \<and> quota (t_policy s) = quota p"
  using NewStreamPolicy_ok tcp_reachable_inv by metis

text \<open>The policy's own count is the number of live connections of the host plus the admission in flight.\<close>

lemma tcp_inv_held: "tcp_inv s \<Longrightarrow> held (t_policy s) h = map_count (\<lambda>v. snd v = h) (t_conns s) + in_flight (t_pc s) h"
  by (simp add: tcp_inv_def sp.in_step_def tcp_own_def)

text \<open>C7: In every reachable state the proxy serves at most \<open>maxTCPConnections\<close> connections at once and,
  when a limit is configured, no client host has more than \<open>maxPerIP\<close> of them.\<close>

theorem tcp_admission_bounds:
  assumes "NewStreamPolicy allow deny maxPerIP = Inr p" "tcp_reachable p s"
  shows "map_count (\<lambda>v. fst v = Proxying) (t_conns s) \<le> maxTCPConnections \<and>
    (0 < maxPerIP \<longrightarrow> int (map_count (\<lambda>v. snd v = h) (t_conns s)) \<le> maxPerIP)"
proof -
  note inv = tcp_reachable_new [OF assms]
  have "int (held (t_policy s) h) \<le> maxPerIP" if "0 < maxPerIP"
    using inv that by (intro held_maxPerIP [OF assms(1)]) (auto simp: tcp_inv_def sp.in_step_def)
  with inv show ?thesis by (fastforce simp: tcp_inv_held tcp_inv_def)
qed

lemma tcp_admission_bounds_witness:
  "\<exists>p s. NewStreamPolicy [] [] 1 = Inr p \<and> tcp_reachable p s \<and> t_slots s = 1 \<and> 1 \<in> t_closed s \<and>
     map_count (\<lambda>v. fst v = Proxying) (t_conns s) \<le> maxTCPConnections \<and>
     int (map_count (\<lambda>v. snd v = ''10.0.0.1'') (t_conns s)) \<le> 1"
proof -
  let ?p = "\<lparr>sp_allow = [], sp_deny = [], sp_maxPerIP = 1, sp_active = Map.empty\<rparr>"
  have new: "NewStreamPolicy [] [] 1 = Inr ?p" by (simp add: NewStreamPolicy_def)
  have "map_option (\<lambda>s. (t_slots s, 1 \<in> t_closed s))
     (tcp_run (tcp_init ?p) [EvAccept 0 ''10.0.0.1:50'', EvSlot, EvAccept 1 ''10.0.0.1:51'']) = Some (1, True)"
    by code_simp
  then obtain s where run: "tcp_run (tcp_init ?p) [EvAccept 0 ''10.0.0.1:50'', EvSlot, EvAccept 1 ''10.0.0.1:51''] = Some s"
    and s: "t_slots s = 1" "1 \<in> t_closed s" by (auto simp del: tcp_run.simps)
  have reach: "tcp_reachable ?p s" by (rule tcp_run_reachable [OF tcp_reachable.Init run])
  show ?thesis using new reach s tcp_admission_bounds [OF new reach, of "''10.0.0.1''"] by fastforce
qed

text \<open>Slots and quota never leak: in every reachable state the policy counts for each host exactly
  its live connections and the admission in flight, and the channel exactly the connections being
  proxied; so an idle proxy holds nothing.\<close>

theorem tcp_no_leak:
  assumes "NewStreamPolicy allow deny maxPerIP = Inr p" "tcp_reachable p s"
  shows "held (t_policy s) h = map_count (\<lambda>v. snd v = h) (t_conns s) + in_flight (t_pc s) h \<and>
    t_slots s = map_count (\<lambda>v. fst v = Proxying) (t_conns s)"
  using tcp_reachable_new [OF assms] tcp_inv_held by (simp add: tcp_inv_def)

lemma tcp_no_leak_witness:
  "\<exists>p s. tcp_reachable p s \<and> t_slots s = 0 \<and>
     held (t_policy s) ''10.0.0.1'' = map_count (\<lambda>v. snd v = ''10.0.0.1'') (t_conns s) + in_flight (t_pc s) ''10.0.0.1'' \<and>
     held (t_policy s) ''10.0.0.1'' = 1"
proof -
  let ?p = "\<lparr>sp_allow = [], sp_deny = [], sp_maxPerIP = 0, sp_active = Map.empty\<rparr>"
  let ?es = "[EvAccept 0 ''10.0.0.1:50'', EvSlot, EvFinish 0]"
  have new: "NewStreamPolicy [] [] 0 = Inr ?p" by (simp add: NewStreamPolicy_def)
  have "map_option (\<lambda>s. (t_slots s, held (t_policy s) ''10.0.0.1'')) (tcp_run (tcp_init ?p) ?es) = Some (0, 1)"
    by code_simp
  then obtain s where run: "tcp_run (tcp_init ?p) ?es = Some s" and s: "t_slots s = 0" "held (t_policy s) ''10.0.0.1'' = 1"
    by (auto simp del: tcp_run.simps)
  have reach: "tcp_reachable ?p s" by (rule tcp_run_reachable [OF tcp_reachable.Init run])
  show ?thesis using reach s tcp_no_leak [OF new reach, of "''10.0.0.1''"] by blast
qed

text \<open>While accepts keep failing, the loop waits 5 ms, 10 ms, 20 ms and so on, capped at one second,
  and goes on accepting.\<close>

theorem accept_backoff:
  assumes "t_pc s = Accepting" "\<not> t_done s" "t_delay s = 0"
  shows "t_delay ((accept_failed False ^^ Suc n) s) = min second (5 * millisecond * 2 ^ n) \<and>
    t_pc ((accept_failed False ^^ Suc n) s) = Accepting"
proof -
  have "(accept_failed False ^^ m) s = s\<lparr>t_delay := (backoff ^^ m) 0\<rparr>" for m
    using assms by (induction m) (simp_all add: accept_failed_def)
  with assms show ?thesis by (simp only: backoff_iter) simp
qed

lemma accept_backoff_witness:
  "t_delay ((accept_failed False ^^ Suc 7) (tcp_init \<lparr>sp_allow = [], sp_deny = [], sp_maxPerIP = 0, sp_active = Map.empty\<rparr>))
     = 640 * millisecond"
  using accept_backoff [of "tcp_init \<lparr>sp_allow = [], sp_deny = [], sp_maxPerIP = 0, sp_active = Map.empty\<rparr>" 7]
  by (simp add: tcp_init_def go_eval)

lemma copyTCP_prefix: "\<exists>rest. received reads = delivered (copyTCP W i reads) @ rest"
proof (induction reads arbitrary: i)
  case (Cons r reads)
  obtain chunk e where r: "r = (chunk, e)" by fastforce
  obtain acts j ok where w: "write_all W i chunk = (acts, j, ok)" using prod_cases3 by blast
  from write_all_delivered [OF w] obtain rest where d: "chunk = delivered acts @ rest" "ok \<longrightarrow> rest = []" by blast
  obtain r1 r2 where ih: "received reads = delivered (copyTCP W j reads) @ r1" "received reads = delivered (copyTCP W i reads) @ r2"
    using Cons.IH by blast
  show ?case
  proof (cases "chunk = [] \<or> e \<or> \<not> ok")
    case True
    consider "chunk = []" | "chunk \<noteq> []" "e \<or> \<not> ok" using True by blast
    then show ?thesis
    proof cases
      case 2
      then have "copyTCP W i (r # reads) = ExtendDeadlines # acts" by (auto simp: r w)
      moreover have "received (r # reads) = delivered acts @ rest @ (if e then [] else received reads)"
        using d(1) by (simp add: r)
      ultimately show ?thesis by simp
    qed (use ih(2) in \<open>auto simp: r\<close>)
  next
    case False
    then have "copyTCP W i (r # reads) = ExtendDeadlines # acts @ copyTCP W j reads" by (simp add: r w)
    moreover have "received (r # reads) = delivered acts @ received reads" using False d by (simp add: r)
    ultimately show ?thesis using ih(1) by simp
  qed
qed simp

lemma copyTCP_all: "(\<And>k. \<not> snd (W k) \<and> 0 < fst (W k)) \<Longrightarrow> delivered (copyTCP W i reads) = received reads"
proof (induction reads arbitrary: i)
  case (Cons r reads)
  obtain chunk e where r: "r = (chunk, e)" by fastforce
  obtain acts j ok where w: "write_all W i chunk = (acts, j, ok)" using prod_cases3 by blast
  have ok: "ok" using write_all_ok [of W i chunk] Cons.prems w by simp
  from write_all_delivered [OF w] ok have d: "chunk = delivered acts" by auto
  have ih: "delivered (copyTCP W j reads) = received reads" for j by (rule Cons.IH [OF Cons.prems])
  show ?case using ih ok by (cases "chunk = []") (simp_all add: r w d [symmetric])
qed simp

text \<open>C40: One direction of a connection is copied in order: what reaches the destination is always a
  prefix of what the source delivered, and all of it when the destination accepts every write.\<close>

theorem copyTCP_delivers:
  "(\<exists>rest. received reads = delivered (copyTCP W i reads) @ rest) \<and>
   ((\<forall>k. \<not> snd (W k) \<and> 0 < fst (W k)) \<longrightarrow> delivered (copyTCP W i reads) = received reads)"
  using copyTCP_prefix copyTCP_all by blast

lemma copyTCP_delivers_witness:
  "delivered (copyTCP (\<lambda>k. (2, False)) 0 [(''hello'', False), ('' world'', True)]) = ''hello world''"
  using copyTCP_delivers [of "[(''hello'', False), ('' world'', True)]" "\<lambda>k. (2, False)" 0] by simp

end
