(* ===== verification/TcpConn.thy ===== *)
theory TcpConn
  imports TcpProxy
begin

text \<open>
  \<open>proxyTCPConnection\<close> of \<open>app/internal/http_server/TCP/tcp_index.go\<close>: the life of one admitted connection.
  The handler dials, starts one goroutine per direction and waits for both; each goroutine copies, then
  half-closes the connection it wrote to; the deferred closes run last, the upstream's first.  What a
  direction copies is \<open>copyTCP\<close> of the theory TcpProxy.
\<close>

section \<open>The connection\<close>

definition tcpIdleTimeout :: duration where "tcpIdleTimeout = 5 * minute"

datatype copy_pc = Waiting | Copying | Copied | HalfClosed

datatype conn_pc = Dialing | Joining | UpstreamClosed | DialFailed | Closed

record tcp_conn =
  k_pc :: conn_pc
  k_up :: copy_pc
  k_down :: copy_pc
  k_client_closes :: nat
  k_upstream_closes :: nat
  k_client_fin :: bool
  k_upstream_fin :: bool
  k_deadline :: time

definition conn_init :: tcp_conn where
  "conn_init = \<lparr>k_pc = Dialing, k_up = Waiting, k_down = Waiting, k_client_closes = 0, k_upstream_closes = 0,
     k_client_fin = False, k_upstream_fin = False, k_deadline = 0\<rparr>"

text \<open>The dial, with its time; then the two goroutines are started.\<close>

definition dialed :: "bool \<Rightarrow> time \<Rightarrow> tcp_conn \<Rightarrow> tcp_conn" where
  "dialed ok now k =
     (if \<not> ok then k\<lparr>k_pc := DialFailed\<rparr>
      else k\<lparr>k_pc := Joining, k_up := Copying, k_down := Copying, k_deadline := now + tcpIdleTimeout\<rparr>)"

text \<open>A goroutine's copy ends; then it half-closes its destination.\<close>

definition up_copied :: "tcp_conn \<Rightarrow> tcp_conn" where "up_copied k = k\<lparr>k_up := Copied\<rparr>"

definition down_copied :: "tcp_conn \<Rightarrow> tcp_conn" where "down_copied k = k\<lparr>k_down := Copied\<rparr>"

definition up_fin :: "tcp_conn \<Rightarrow> tcp_conn" where "up_fin k = k\<lparr>k_up := HalfClosed, k_upstream_fin := True\<rparr>"

definition down_fin :: "tcp_conn \<Rightarrow> tcp_conn" where "down_fin k = k\<lparr>k_down := HalfClosed, k_client_fin := True\<rparr>"

text \<open>The deferred closes.\<close>

definition close_upstream :: "tcp_conn \<Rightarrow> tcp_conn" where
  "close_upstream k = k\<lparr>k_pc := UpstreamClosed, k_upstream_closes := Suc (k_upstream_closes k)\<rparr>"

definition close_client :: "tcp_conn \<Rightarrow> tcp_conn" where
  "close_client k = k\<lparr>k_pc := Closed, k_client_closes := Suc (k_client_closes k)\<rparr>"

inductive conn_step :: "tcp_conn \<Rightarrow> tcp_conn \<Rightarrow> bool" where
  Dial: "k_pc k = Dialing \<Longrightarrow> conn_step k (dialed ok now k)"
| UpCopied: "k_up k = Copying \<Longrightarrow> conn_step k (up_copied k)"
| DownCopied: "k_down k = Copying \<Longrightarrow> conn_step k (down_copied k)"
| UpFin: "k_up k = Copied \<Longrightarrow> conn_step k (up_fin k)"
| DownFin: "k_down k = Copied \<Longrightarrow> conn_step k (down_fin k)"
| Joined: "k_pc k = Joining \<Longrightarrow> k_up k = HalfClosed \<Longrightarrow> k_down k = HalfClosed \<Longrightarrow> conn_step k (close_upstream k)"
| CloseClient: "k_pc k = UpstreamClosed \<or> k_pc k = DialFailed \<Longrightarrow> conn_step k (close_client k)"

inductive conn_reachable :: "tcp_conn \<Rightarrow> bool" where
  Init: "conn_reachable conn_init"
| Step: "conn_reachable k \<Longrightarrow> conn_step k k' \<Longrightarrow> conn_reachable k'"

inductive_cases conn_stepE: "conn_step k k'"

lemmas conn_ops = dialed_def up_copied_def down_copied_def up_fin_def down_fin_def close_upstream_def close_client_def

section \<open>Invariant and progress\<close>

definition conn_inv :: "tcp_conn \<Rightarrow> bool" where
  "conn_inv k \<longleftrightarrow>
     (case k_pc k of
        Dialing \<Rightarrow> k_up k = Waiting \<and> k_down k = Waiting \<and> k_client_closes k = 0 \<and> k_upstream_closes k = 0
      | Joining \<Rightarrow> k_up k \<noteq> Waiting \<and> k_down k \<noteq> Waiting \<and> k_client_closes k = 0 \<and> k_upstream_closes k = 0
      | UpstreamClosed \<Rightarrow> k_up k = HalfClosed \<and> k_down k = HalfClosed \<and> k_client_closes k = 0 \<and> k_upstream_closes k = 1
      | DialFailed \<Rightarrow> k_up k = Waiting \<and> k_down k = Waiting \<and> k_client_closes k = 0 \<and> k_upstream_closes k = 0
      | Closed \<Rightarrow> k_client_closes k = 1 \<and>
          (k_up k = HalfClosed \<and> k_down k = HalfClosed \<and> k_upstream_closes k = 1 \<or>
           k_up k = Waiting \<and> k_down k = Waiting \<and> k_upstream_closes k = 0)) \<and>
     (k_upstream_fin k \<longleftrightarrow> k_up k = HalfClosed) \<and> (k_client_fin k \<longleftrightarrow> k_down k = HalfClosed)"

lemma conn_inv_reachable: "conn_reachable k \<Longrightarrow> conn_inv k"
proof (induction rule: conn_reachable.induct)
  case Init
  show ?case by (simp add: conn_inv_def conn_init_def)
next
  case (Step k k')
  from Step.hyps(2) Step.IH show ?case
    by (cases rule: conn_step.cases) (auto simp: conn_inv_def conn_ops split: conn_pc.splits)
qed

fun copy_left :: "copy_pc \<Rightarrow> nat" where
  "copy_left Waiting = 0" | "copy_left Copying = 2" | "copy_left Copied = 1" | "copy_left HalfClosed = 0"

fun pc_left :: "conn_pc \<Rightarrow> nat" where
  "pc_left Dialing = 7" | "pc_left Joining = 2" | "pc_left UpstreamClosed = 1" | "pc_left DialFailed = 1" | "pc_left Closed = 0"

definition steps_left :: "tcp_conn \<Rightarrow> nat" where
  "steps_left k = pc_left (k_pc k) + copy_left (k_up k) + copy_left (k_down k)"

lemma step_decreases: "conn_inv k \<Longrightarrow> conn_step k k' \<Longrightarrow> steps_left k' < steps_left k"
  by (erule conn_stepE) (auto simp: steps_left_def conn_ops conn_inv_def split: conn_pc.splits)

lemma progress: "conn_inv k \<Longrightarrow> k_pc k \<noteq> Closed \<Longrightarrow> \<exists>k'. conn_step k k'"
proof (cases "k_pc k")
  case Joining
  assume "conn_inv k"
  with Joining show ?thesis
    by (cases "k_up k"; cases "k_down k") (auto simp: conn_inv_def intro: conn_step.intros)
qed (auto intro: conn_step.intros)

inductive conn_path :: "nat \<Rightarrow> tcp_conn \<Rightarrow> tcp_conn \<Rightarrow> bool" where
  None: "conn_path 0 k k"
| More: "conn_path n k k' \<Longrightarrow> conn_step k' k'' \<Longrightarrow> conn_path (Suc n) k k''"

lemma conn_path_reachable: "conn_path n conn_init k \<Longrightarrow> conn_reachable k"
  by (induction n conn_init k rule: conn_path.induct) (auto intro: conn_reachable.intros)

lemma conn_path_length: "conn_path n conn_init k \<Longrightarrow> n + steps_left k \<le> 7"
proof (induction n conn_init k rule: conn_path.induct)
  case None
  show ?case by (simp add: steps_left_def conn_init_def)
next
  case (More n k' k'')
  then have "steps_left k'' < steps_left k'"
    using step_decreases conn_inv_reachable conn_path_reachable by blast
  with More show ?case by simp
qed

section \<open>Properties\<close>

text \<open>C31: A connection's handler always ends: whatever the order of its goroutines, a run that cannot continue is at its
  end after at most seven steps, with the client closed once and the upstream closed once if it was reached.\<close>

theorem connection_ends:
  assumes "conn_path n conn_init k"
  shows "n \<le> 7 \<and> ((\<nexists>k'. conn_step k k') \<longleftrightarrow> k_pc k = Closed) \<and>
    (k_pc k = Closed \<longrightarrow> k_client_closes k = 1 \<and> k_upstream_closes k = (if k_up k = Waiting then 0 else 1))"
proof -
  have inv: "conn_inv k" using assms conn_path_reachable conn_inv_reachable by blast
  have "(\<nexists>k'. conn_step k k') \<longleftrightarrow> k_pc k = Closed"
  proof
    assume "k_pc k = Closed"
    with inv show "\<nexists>k'. conn_step k k'" by (auto simp: conn_inv_def elim!: conn_stepE)
  qed (use progress [OF inv] in blast)
  with conn_path_length [OF assms] inv show ?thesis by (auto simp: conn_inv_def)
qed

lemma connection_ends_witness:
  "\<exists>k. conn_path 2 conn_init k \<and> k_pc k = Closed \<and> k_client_closes k = 1 \<and> k_upstream_closes k = 0"
proof -
  let ?k1 = "dialed False 0 conn_init" and ?k2 = "close_client (dialed False 0 conn_init)"
  have "conn_step conn_init ?k1" by (rule conn_step.Dial) (simp add: conn_init_def)
  moreover have "conn_step ?k1 ?k2" by (rule conn_step.CloseClient) (simp add: conn_init_def dialed_def)
  ultimately have p: "conn_path 2 conn_init ?k2"
    by (auto simp: numeral_2_eq_2 intro!: conn_path.intros)
  have "k_pc ?k2 = Closed" "k_up ?k2 = Waiting" by (simp_all add: conn_init_def dialed_def close_client_def)
  with connection_ends [OF p] p show ?thesis by auto
qed

text \<open>A half-close is sent only after the copy towards that side has ended, and nothing is closed while the other
  direction still copies: one side finishing does not cut the other off.\<close>

theorem half_close_order:
  assumes "conn_reachable k"
  shows "(k_upstream_fin k \<longrightarrow> k_up k = HalfClosed) \<and> (k_client_fin k \<longrightarrow> k_down k = HalfClosed) \<and>
    (k_up k \<in> {Copying, Copied} \<or> k_down k \<in> {Copying, Copied} \<longrightarrow> k_client_closes k = 0 \<and> k_upstream_closes k = 0)"
  using conn_inv_reachable [OF assms] by (auto simp: conn_inv_def split: conn_pc.splits)

lemma half_close_order_witness:
  "\<exists>k. conn_reachable k \<and> k_upstream_fin k \<and> k_down k = Copying \<and> k_client_closes k = 0 \<and> k_upstream_closes k = 0"
proof -
  let ?k = "up_fin (up_copied (dialed True 0 conn_init))"
  have "conn_step conn_init (dialed True 0 conn_init)" by (rule conn_step.Dial) (simp add: conn_init_def)
  moreover have "conn_step (dialed True 0 conn_init) (up_copied (dialed True 0 conn_init))"
    by (rule conn_step.UpCopied) (simp add: dialed_def)
  moreover have "conn_step (up_copied (dialed True 0 conn_init)) ?k" by (rule conn_step.UpFin) (simp add: up_copied_def)
  ultimately have r: "conn_reachable ?k" by (meson conn_reachable.intros)
  have "k_upstream_fin ?k" "k_down ?k = Copying" by (simp_all add: conn_ops)
  with half_close_order [OF r] r show ?thesis by blast
qed

end
