(* ===== verification/UdpProxy.thy ===== *)
theory UdpProxy
  imports StreamPolicy
begin

text \<open>
  \<open>app/internal/http_server/UDP/udp.index.go\<close>: the UDP proxy.  One loop reads client packets and
  creates sessions, one relay goroutine per session copies the answers back, and a sweeper drops
  idle sessions; they share the session table under its mutex, and the admission policy.  Sessions
  are heap objects (the code compares their addresses), so the table maps a client key to an
  identity and the heap maps an identity to the object.  Every function below is one section of
  the code between two lock operations; \<open>udp_step\<close> interleaves them.
\<close>

section \<open>State\<close>

definition maxUDPSessions :: nat where "maxUDPSessions = 4096"

definition udpSessionIdleTimeout :: duration where "udpSessionIdleTimeout = 5 * minute"

record udp_session =
  us_client :: string
  us_host :: string
  us_last :: time
  us_open :: bool

text \<open>
  The loop: waiting for a packet; in \<open>create\<close> before the first lock (\<open>Missed\<close>), after it
  (\<open>CapOk\<close>), after the policy admitted the client (\<open>HasHost\<close>), after the dial (\<open>Dialed\<close>); about
  to write the packet to a session; returned.
\<close>

datatype udp_pc =
    Reading
  | Missed string
  | CapOk string
  | HasHost string string
  | Dialed string string
  | Forward nat
  | Stopped

record udp_state =
  u_pc :: udp_pc
  u_policy :: stream_policy
  u_table :: "string \<rightharpoonup> nat"
  u_heap :: "nat \<rightharpoonup> udp_session"
  u_relays :: "nat set"
  u_done :: bool
  u_listening :: bool
  u_closed_all :: bool
  u_sweeping :: bool

text \<open>
  \<open>u_done\<close> is the channel the caller closes, \<open>u_listening\<close> the listener's socket; \<open>u_closed_all\<close> says that the
  goroutine waiting for \<open>done\<close> has gone through \<open>closeAll\<close>, \<open>u_sweeping\<close> that the sweeper has not returned.
\<close>

definition udp_init :: "stream_policy \<Rightarrow> udp_state" where
  "udp_init p = \<lparr>u_pc = Reading, u_policy = p, u_table = Map.empty, u_heap = Map.empty,
     u_relays = {}, u_done = False, u_listening = True, u_closed_all = False, u_sweeping = True\<rparr>"

section \<open>Operations\<close>

definition set_last :: "(nat \<rightharpoonup> udp_session) \<Rightarrow> nat \<Rightarrow> time \<Rightarrow> (nat \<rightharpoonup> udp_session)" where
  "set_last heap i now = (case heap i of None \<Rightarrow> heap | Some s \<Rightarrow> heap(i \<mapsto> s\<lparr>us_last := now\<rparr>))"

definition close_conn :: "(nat \<rightharpoonup> udp_session) \<Rightarrow> nat \<Rightarrow> (nat \<rightharpoonup> udp_session)" where
  "close_conn heap i = (case heap i of None \<Rightarrow> heap | Some s \<Rightarrow> heap(i \<mapsto> s\<lparr>us_open := False\<rparr>))"

definition host_at :: "(nat \<rightharpoonup> udp_session) \<Rightarrow> nat \<Rightarrow> string" where
  "host_at heap i = (case heap i of None \<Rightarrow> [] | Some s \<Rightarrow> us_host s)"

definition lookup :: "string \<Rightarrow> time \<Rightarrow> udp_state \<Rightarrow> udp_state" where
  "lookup key now s =
     (case u_table s key of
        Some i \<Rightarrow> s\<lparr>u_heap := set_last (u_heap s) i now, u_pc := Forward i\<rparr>
      | None \<Rightarrow> s\<lparr>u_pc := Missed key\<rparr>)"

definition touch :: "nat \<Rightarrow> time \<Rightarrow> udp_state \<Rightarrow> udp_state" where
  "touch i now s = s\<lparr>u_heap := set_last (u_heap s) i now\<rparr>"

definition create_check :: "string \<Rightarrow> udp_state \<Rightarrow> udp_state" where
  "create_check key s =
     (if maxUDPSessions \<le> map_len (u_table s) then s\<lparr>u_pc := Reading\<rparr> else s\<lparr>u_pc := CapOk key\<rparr>)"

definition create_acquire :: "string \<Rightarrow> udp_state \<Rightarrow> udp_state" where
  "create_acquire key s =
     (case acquire (u_policy s) key of
        (None, p) \<Rightarrow> s\<lparr>u_policy := p, u_pc := Reading\<rparr>
      | (Some host, p) \<Rightarrow> s\<lparr>u_policy := p, u_pc := HasHost key host\<rparr>)"

definition create_dial :: "bool \<Rightarrow> string \<Rightarrow> string \<Rightarrow> udp_state \<Rightarrow> udp_state" where
  "create_dial dialed key host s =
     (if \<not> dialed then s\<lparr>u_policy := release (u_policy s) host, u_pc := Reading\<rparr>
      else s\<lparr>u_pc := Dialed key host\<rparr>)"

definition create_insert :: "nat \<Rightarrow> time \<Rightarrow> string \<Rightarrow> string \<Rightarrow> udp_state \<Rightarrow> udp_state" where
  "create_insert i now key host s =
     (if maxUDPSessions \<le> map_len (u_table s) then
        s\<lparr>u_policy := release (u_policy s) host, u_pc := Reading\<rparr>
      else
        s\<lparr>u_heap := (u_heap s)(i \<mapsto> \<lparr>us_client = key, us_host = host, us_last = now, us_open = True\<rparr>),
          u_table := (u_table s)(key \<mapsto> i),
          u_relays := insert i (u_relays s),
          u_pc := Forward i\<rparr>)"

definition remove :: "string \<Rightarrow> nat \<Rightarrow> udp_state \<Rightarrow> udp_state" where
  "remove key i s =
     (if u_table s key \<noteq> Some i then s
      else s\<lparr>u_table := (u_table s)(key := None), u_policy := release (u_policy s) (host_at (u_heap s) i)\<rparr>)"

text \<open>The end of a relay: its deferred calls close the connection, then remove the session.\<close>

definition relay_close :: "nat \<Rightarrow> udp_state \<Rightarrow> udp_state" where
  "relay_close i s = s\<lparr>u_heap := close_conn (u_heap s) i\<rparr>"

definition relay_end :: "nat \<Rightarrow> udp_state \<Rightarrow> udp_state" where
  "relay_end i s =
     (case u_heap s i of
        None \<Rightarrow> s
      | Some sess \<Rightarrow> remove (us_client sess) i (s\<lparr>u_relays := u_relays s - {i}\<rparr>))"

definition closeAll :: "udp_state \<Rightarrow> udp_state" where
  "closeAll s =
     s\<lparr>u_heap := (\<lambda>i. if i \<in> ran (u_table s) then map_option (us_open_update (\<lambda>_. False)) (u_heap s i) else u_heap s i)\<rparr>"

text \<open>One tick of the sweeper, over the keys of the table in the order the iteration yields them.\<close>

definition sweep_key :: "time \<Rightarrow> string \<Rightarrow> udp_state \<Rightarrow> udp_state" where
  "sweep_key now key s =
     (case u_table s key of
        None \<Rightarrow> s
      | Some i \<Rightarrow>
          (case u_heap s i of
             None \<Rightarrow> s
           | Some sess \<Rightarrow>
               if udpSessionIdleTimeout \<le> time_sub now (us_last sess) then
                 s\<lparr>u_table := (u_table s)(key := None),
                   u_policy := release (u_policy s) (us_host sess),
                   u_heap := close_conn (u_heap s) i\<rparr>
               else s))"

definition sweep :: "time \<Rightarrow> string list \<Rightarrow> udp_state \<Rightarrow> udp_state" where
  "sweep now keys s = fold (sweep_key now) keys s"

text \<open>The loop returns, closing the listener; the goroutine that waits for \<open>done\<close> closes it too.\<close>

definition close_conn_listener :: "udp_state \<Rightarrow> udp_state" where
  "close_conn_listener s = s\<lparr>u_listening := False\<rparr>"

definition read_failed :: "udp_state \<Rightarrow> udp_state" where
  "read_failed s = (close_conn_listener s)\<lparr>u_pc := Stopped\<rparr>"

section \<open>Interleaving\<close>

text \<open>The connections that are open: a relay that holds one waits for the upstream, one whose connection is closed ends.\<close>

definition open_ids :: "udp_state \<Rightarrow> nat set" where
  "open_ids s = {i. \<exists>sess. u_heap s i = Some sess \<and> us_open sess}"

inductive udp_step :: "udp_state \<Rightarrow> udp_state \<Rightarrow> bool" where
  Lookup: "u_pc s = Reading \<Longrightarrow> u_listening s \<Longrightarrow> udp_step s (lookup key now s)"
| ReadError: "u_pc s = Reading \<Longrightarrow> udp_step s (read_failed s)"
| Check: "u_pc s = Missed key \<Longrightarrow> udp_step s (create_check key s)"
| Acquire: "u_pc s = CapOk key \<Longrightarrow> udp_step s (create_acquire key s)"
| Dial: "u_pc s = HasHost key host \<Longrightarrow> udp_step s (create_dial dialed key host s)"
| Insert: "u_pc s = Dialed key host \<Longrightarrow> u_heap s i = None \<Longrightarrow> udp_step s (create_insert i now key host s)"
| Write: "u_pc s = Forward i \<Longrightarrow> udp_step s (s\<lparr>u_pc := Reading\<rparr>)"
| RelayData: "i \<in> u_relays s \<Longrightarrow> udp_step s (touch i now s)"
| RelayClose: "i \<in> u_relays s \<Longrightarrow> udp_step s (relay_close i s)"
| RelayEnd: "i \<in> u_relays s \<Longrightarrow> i \<notin> open_ids s \<Longrightarrow> udp_step s (relay_end i s)"
| Sweep: "u_sweeping s \<Longrightarrow> set keys = dom (u_table s) \<Longrightarrow> distinct keys \<Longrightarrow> udp_step s (sweep now keys s)"
| SweepStop: "u_done s \<Longrightarrow> udp_step s (s\<lparr>u_sweeping := False\<rparr>)"
| Shutdown: "udp_step s (s\<lparr>u_done := True\<rparr>)"
| CloseListener: "u_done s \<Longrightarrow> udp_step s (close_conn_listener s)"
| CloseAll: "u_done s \<Longrightarrow> \<not> u_listening s \<Longrightarrow> \<not> u_closed_all s \<Longrightarrow> udp_step s ((closeAll s)\<lparr>u_closed_all := True\<rparr>)"

inductive udp_reachable :: "stream_policy \<Rightarrow> udp_state \<Rightarrow> bool" for p where
  Init: "udp_reachable p (udp_init p)"
| Step: "udp_reachable p s \<Longrightarrow> udp_step s s' \<Longrightarrow> udp_reachable p s'"

inductive_cases udp_stepE: "udp_step s s'"

section \<open>The invariant\<close>

text \<open>The host the loop holds between \<open>Acquire\<close> and the insertion, and the key it is creating.\<close>

definition pending :: "udp_pc \<Rightarrow> string \<Rightarrow> nat" where
  "pending pc h =
     (case pc of HasHost _ host \<Rightarrow> if host = h then 1 else 0
      | Dialed _ host \<Rightarrow> if host = h then 1 else 0
      | _ \<Rightarrow> 0)"

definition creating :: "udp_pc \<Rightarrow> string option" where
  "creating pc =
     (case pc of Missed k \<Rightarrow> Some k | CapOk k \<Rightarrow> Some k | HasHost k _ \<Rightarrow> Some k | Dialed k _ \<Rightarrow> Some k
      | _ \<Rightarrow> None)"

definition udp_own :: "udp_state \<Rightarrow> string \<Rightarrow> nat" where
  "udp_own s h = map_count (\<lambda>i. host_at (u_heap s) i = h) (u_table s) + pending (u_pc s) h"

definition table_ok :: "udp_state \<Rightarrow> bool" where
  "table_ok s \<longleftrightarrow>
     (\<forall>k i. u_table s k = Some i \<longrightarrow> i \<in> u_relays s \<and> (\<exists>sess. u_heap s i = Some sess \<and> us_client sess = k))"

definition relays_ok :: "udp_state \<Rightarrow> bool" where
  "relays_ok s \<longleftrightarrow>
     (\<forall>i \<in> u_relays s. \<exists>sess. u_heap s i = Some sess \<and>
        (us_open sess \<longrightarrow> u_table s (us_client sess) = Some i))"

definition udp_inv :: "udp_state \<Rightarrow> bool" where
  "udp_inv s \<longleftrightarrow>
     finite (dom (u_table s)) \<and>
     map_len (u_table s) \<le> maxUDPSessions \<and>
     table_ok s \<and> relays_ok s \<and>
     (\<forall>k. creating (u_pc s) = Some k \<longrightarrow> u_table s k = None) \<and>
     sp.in_step (u_policy s) (udp_own s)"

lemma table_okD:
  "table_ok s \<Longrightarrow> u_table s k = Some i \<Longrightarrow> i \<in> u_relays s \<and> (\<exists>sess. u_heap s i = Some sess \<and> us_client sess = k)"
  unfolding table_ok_def by blast

lemma table_ok_inj: "table_ok s \<Longrightarrow> u_table s k = Some i \<Longrightarrow> u_table s k' = Some i \<Longrightarrow> k' = k"
  using table_okD [of s k i] table_okD [of s k' i] by auto

lemma udp_inv_table: "udp_inv s \<Longrightarrow> table_ok s"
  by (simp add: udp_inv_def)

lemma udp_inv_init: "policy_ok p \<Longrightarrow> (\<And>h. held p h = 0) \<Longrightarrow> udp_inv (udp_init p)"
  by (auto simp: udp_inv_def udp_init_def table_ok_def relays_ok_def creating_def sp.in_step_def
      udp_own_def pending_def fun_eq_iff)

lemma in_step_eq: "sp.in_step p own \<Longrightarrow> (\<And>h. own' h = own h) \<Longrightarrow> sp.in_step p own'"
  by (metis ext)

subsection \<open>Heap updates keep identities and hosts\<close>

lemma host_at_set_last [simp]: "host_at (set_last heap i now) j = host_at heap j"
  by (auto simp: host_at_def set_last_def split: option.splits)

lemma host_at_close_conn [simp]: "host_at (close_conn heap i) j = host_at heap j"
  by (auto simp: host_at_def close_conn_def split: option.splits)

lemma set_last_at: "set_last heap i now j = Some sess \<Longrightarrow> \<exists>old. heap j = Some old \<and> us_client sess = us_client old \<and> us_open sess = us_open old"
  by (auto simp: set_last_def split: option.splits if_splits)

lemma set_last_dom: "heap j = Some old \<Longrightarrow> \<exists>sess. set_last heap i now j = Some sess \<and> us_client sess = us_client old \<and> us_open sess = us_open old"
  by (auto simp: set_last_def split: option.splits)

lemma close_conn_dom:
  "heap j = Some old \<Longrightarrow>
   \<exists>sess. close_conn heap i j = Some sess \<and> us_client sess = us_client old \<and>
     us_open sess = (us_open old \<and> i \<noteq> j)"
  by (auto simp: close_conn_def split: option.splits)

text \<open>The invariant does not look at the time stamps.\<close>

lemma udp_inv_set_last:
  assumes "udp_inv s"
  shows "udp_inv (s\<lparr>u_heap := set_last (u_heap s) i now\<rparr>)"
proof -
  let ?t = "s\<lparr>u_heap := set_last (u_heap s) i now\<rparr>"
  have "table_ok ?t" using assms set_last_dom by (fastforce simp: udp_inv_def table_ok_def)
  moreover have "relays_ok ?t" using assms set_last_dom by (fastforce simp: udp_inv_def relays_ok_def)
  moreover have "udp_own ?t = udp_own s" by (simp add: udp_own_def fun_eq_iff)
  ultimately show ?thesis using assms by (simp add: udp_inv_def)
qed

lemma udp_inv_pc:
  assumes "udp_inv s" "\<And>h. pending pc h = pending (u_pc s) h"
    and "\<And>k. creating pc = Some k \<Longrightarrow> u_table s k = None"
  shows "udp_inv (s\<lparr>u_pc := pc\<rparr>)"
proof -
  have "udp_own (s\<lparr>u_pc := pc\<rparr>) = udp_own s" using assms(2) by (simp add: udp_own_def fun_eq_iff)
  with assms show ?thesis by (auto simp: udp_inv_def table_ok_def relays_ok_def)
qed

lemma touch_inv [step_inv]: "udp_inv s \<Longrightarrow> udp_inv (touch i now s)"
  by (simp add: touch_def udp_inv_set_last)

lemma lookup_inv [step_inv]:
  assumes "udp_inv s" "u_pc s = Reading"
  shows "udp_inv (lookup key now s)"
proof (cases "u_table s key")
  case None
  with assms show ?thesis by (auto simp: lookup_def pending_def creating_def intro!: udp_inv_pc)
next
  case (Some i)
  have "udp_inv (s\<lparr>u_heap := set_last (u_heap s) i now, u_pc := Forward i\<rparr>)"
    using udp_inv_pc [OF udp_inv_set_last [OF assms(1)], of "Forward i" i now] assms(2)
    by (simp add: pending_def creating_def)
  with Some show ?thesis by (simp add: lookup_def)
qed

lemma create_check_inv [step_inv]:
  assumes "udp_inv s" "u_pc s = Missed key"
  shows "udp_inv (create_check key s)"
proof -
  have "u_table s key = None" using assms by (simp add: udp_inv_def creating_def)
  with assms show ?thesis by (auto simp: create_check_def pending_def creating_def intro!: udp_inv_pc)
qed

lemma create_acquire_inv [step_inv]:
  assumes "udp_inv s" "u_pc s = CapOk key"
  shows "udp_inv (create_acquire key s)"
proof (cases "acquire (u_policy s) key")
  case (Pair r p)
  have free: "u_table s key = None" and step: "sp.in_step (u_policy s) (udp_own s)"
    using assms by (simp_all add: udp_inv_def creating_def)
  show ?thesis
  proof (cases r)
    case None
    with Pair have "create_acquire key s = s\<lparr>u_pc := Reading\<rparr>"
      using acquire_None [of "u_policy s" key p] by (simp add: create_acquire_def)
    with assms show ?thesis by (auto simp: pending_def creating_def intro!: udp_inv_pc)
  next
    case (Some h)
    have "sp.in_step p (udp_own (create_acquire key s))"
      by (rule in_step_eq [OF sp.in_step_take [OF step]], use Pair Some in simp)
        (use assms(2) Pair Some in \<open>auto simp: create_acquire_def udp_own_def pending_def\<close>)
    with Pair Some assms free show ?thesis
      by (auto simp: create_acquire_def udp_inv_def table_ok_def relays_ok_def creating_def)
  qed
qed

text \<open>Giving the pending host back and going on to the next packet.\<close>

lemma give_pending_inv:
  assumes "udp_inv s" "\<And>h. pending (u_pc s) h = (if h = host then 1 else 0)"
  shows "udp_inv (s\<lparr>u_policy := release (u_policy s) host, u_pc := Reading\<rparr>)"
proof -
  have "sp.in_step (u_policy s) (udp_own s)" using assms(1) by (simp add: udp_inv_def)
  then have "sp.in_step (release (u_policy s) host)
      (udp_own (s\<lparr>u_policy := release (u_policy s) host, u_pc := Reading\<rparr>))"
    by (rule in_step_eq [OF sp.in_step_give]) (use assms(2) in \<open>auto simp: udp_own_def pending_def\<close>)
  with assms show ?thesis by (auto simp: udp_inv_def table_ok_def relays_ok_def creating_def)
qed

lemma create_dial_inv [step_inv]:
  assumes "udp_inv s" "u_pc s = HasHost key host"
  shows "udp_inv (create_dial dialed key host s)"
proof -
  have free: "u_table s key = None" using assms by (simp add: udp_inv_def creating_def)
  show ?thesis
  proof (cases dialed)
    case True
    with assms free show ?thesis by (auto simp: create_dial_def pending_def creating_def intro!: udp_inv_pc)
  next
    case False
    with assms show ?thesis by (simp add: create_dial_def give_pending_inv pending_def)
  qed
qed

lemma create_insert_inv [step_inv]:
  assumes inv: "udp_inv s" and pc: "u_pc s = Dialed key host" and new: "u_heap s i = None"
  shows "udp_inv (create_insert i now key host s)"
proof (cases "maxUDPSessions \<le> map_len (u_table s)")
  case True
  with assms show ?thesis by (simp add: create_insert_def give_pending_inv pending_def)
next
  case False
  let ?heap = "(u_heap s)(i \<mapsto> \<lparr>us_client = key, us_host = host, us_last = now, us_open = True\<rparr>)"
  let ?t = "s\<lparr>u_heap := ?heap, u_table := (u_table s)(key \<mapsto> i), u_relays := insert i (u_relays s),
      u_pc := Forward i\<rparr>"
  have free: "u_table s key = None" using inv pc by (simp add: udp_inv_def creating_def)
  have fin: "finite (dom (u_table s))" using inv by (simp add: udp_inv_def)
  have tab: "table_ok s" and rels: "relays_ok s" using inv by (simp_all add: udp_inv_def)
  have notin: "u_table s k \<noteq> Some i" for k using table_okD [OF tab, of k i] new by auto
  have "map_count (\<lambda>j. host_at ?heap j = h) (u_table s) = map_count (\<lambda>j. host_at (u_heap s) j = h) (u_table s)" for h
    by (rule map_count_cong) (use notin in \<open>auto simp: host_at_def\<close>)
  moreover have "host_at ?heap i = host" by (simp add: host_at_def)
  ultimately have "map_count (\<lambda>j. host_at ?heap j = h) ((u_table s)(key \<mapsto> i))
      = map_count (\<lambda>j. host_at (u_heap s) j = h) (u_table s) + (if host = h then 1 else 0)" for h
    by (simp only: map_count_new [OF fin free])
  then have own: "udp_own ?t h = udp_own s h" for h
    using pc by (simp add: udp_own_def pending_def)
  have "sp.in_step (u_policy s) (udp_own s)" using inv by (simp add: udp_inv_def)
  then have "sp.in_step (u_policy s) (udp_own ?t)" by (rule in_step_eq) (rule own)
  moreover have "table_ok ?t" using tab notin by (auto simp: table_ok_def)
  moreover have "relays_ok ?t" unfolding relays_ok_def
  proof
    fix j
    assume "j \<in> u_relays ?t"
    then consider "j = i" | "j \<noteq> i" "j \<in> u_relays s" by auto
    then show "\<exists>sess. u_heap ?t j = Some sess \<and> (us_open sess \<longrightarrow> u_table ?t (us_client sess) = Some j)"
    proof cases
      case 2
      with rels obtain sess where "u_heap s j = Some sess"
        "us_open sess \<longrightarrow> u_table s (us_client sess) = Some j" by (auto simp: relays_ok_def)
      with 2 free show ?thesis by auto
    qed simp
  qed
  moreover have "Suc (map_len (u_table s)) \<le> maxUDPSessions" using False by simp
  ultimately have "udp_inv ?t"
    using inv fin free by (simp add: udp_inv_def creating_def map_len_upd_new)
  with False show ?thesis by (simp add: create_insert_def)
qed

text \<open>Dropping one entry of the table, its host given back and its connection closed.\<close>

lemma drop_entry_inv:
  assumes inv: "udp_inv s" and at: "u_table s k = Some i"
    and heap: "\<And>j. host_at heap j = host_at (u_heap s) j"
    and dom: "\<And>j old. u_heap s j = Some old \<Longrightarrow> \<exists>sess. heap j = Some sess \<and> us_client sess = us_client old \<and>
        us_open sess = (us_open old \<and> i \<noteq> j)"
    and rel: "relays = u_relays s \<or> relays = u_relays s - {i}"
  shows "udp_inv (s\<lparr>u_table := (u_table s)(k := None), u_policy := release (u_policy s) (host_at (u_heap s) i),
      u_heap := heap, u_relays := relays\<rparr>)" (is "udp_inv ?t")
proof -
  have fin: "finite (dom (u_table s))" using inv by (simp add: udp_inv_def)
  have inj: "u_table s k' = Some i \<Longrightarrow> k' = k" for k'
    using table_ok_inj [OF udp_inv_table [OF inv] at] by blast
  have own: "udp_own ?t h = ((udp_own s)(host_at (u_heap s) i := udp_own s (host_at (u_heap s) i) - 1)) h" for h
    using map_count_del [OF fin at, of "\<lambda>j. host_at (u_heap s) j = h"] heap
    by (auto simp: udp_own_def)
  have "sp.in_step (u_policy s) (udp_own s)" using inv by (simp add: udp_inv_def)
  then have "sp.in_step (release (u_policy s) (host_at (u_heap s) i)) (udp_own ?t)"
    by (rule in_step_eq [OF sp.in_step_give]) (rule own)
  moreover have "table_ok ?t"
    unfolding table_ok_def
  proof (intro allI impI)
    fix k' j
    assume "u_table ?t k' = Some j"
    then have kj: "k' \<noteq> k" "u_table s k' = Some j" by (auto split: if_splits)
    with inj have "j \<noteq> i" by auto
    from kj inv obtain old where "j \<in> u_relays s" "u_heap s j = Some old" "us_client old = k'"
      by (auto simp: udp_inv_def table_ok_def)
    with dom [of j old] rel \<open>j \<noteq> i\<close> show "j \<in> u_relays ?t \<and> (\<exists>sess. u_heap ?t j = Some sess \<and> us_client sess = k')"
      by auto
  qed
  moreover have "relays_ok ?t"
    unfolding relays_ok_def
  proof
    fix j
    assume "j \<in> u_relays ?t"
    then have "j \<in> u_relays s" using rel by auto
    with inv obtain old where old: "u_heap s j = Some old" "us_open old \<longrightarrow> u_table s (us_client old) = Some j"
      by (auto simp: udp_inv_def relays_ok_def)
    from dom [OF old(1)] obtain sess where "heap j = Some sess" "us_client sess = us_client old"
      "us_open sess = (us_open old \<and> i \<noteq> j)" by blast
    with old at show "\<exists>sess. u_heap ?t j = Some sess \<and> (us_open sess \<longrightarrow> u_table ?t (us_client sess) = Some j)"
      by auto
  qed
  moreover have "map_len ((u_table s)(k := None)) \<le> maxUDPSessions"
    using map_len_del_le [OF fin, of k] inv by (simp add: udp_inv_def)
  ultimately show ?thesis using inv fin by (auto simp: udp_inv_def)
qed

text \<open>The invariant does not look at the flags, and a connection may close at any time.\<close>

lemma udp_inv_flags [simp]:
  "udp_inv (u_done_update f s) = udp_inv s" "udp_inv (u_closed_all_update f s) = udp_inv s"
  "udp_inv (u_sweeping_update f s) = udp_inv s" "udp_inv (u_listening_update f s) = udp_inv s"
  by (simp_all add: udp_inv_def table_ok_def relays_ok_def udp_own_def [abs_def])

lemma udp_inv_heap:
  assumes inv: "udp_inv s" and host: "\<And>j. host_at heap j = host_at (u_heap s) j"
    and dom: "\<And>j old. u_heap s j = Some old \<Longrightarrow> \<exists>sess. heap j = Some sess \<and> us_client sess = us_client old \<and>
        (us_open sess \<longrightarrow> us_open old)"
  shows "udp_inv (s\<lparr>u_heap := heap\<rparr>)" (is "udp_inv ?t")
proof -
  have "udp_own ?t = udp_own s" using host by (simp add: udp_own_def fun_eq_iff)
  moreover have "table_ok ?t" using inv dom by (fastforce simp: udp_inv_def table_ok_def)
  moreover have "relays_ok ?t" using inv dom by (fastforce simp: udp_inv_def relays_ok_def)
  ultimately show ?thesis using inv by (simp add: udp_inv_def)
qed

lemma relay_close_inv [step_inv]: "udp_inv s \<Longrightarrow> udp_inv (relay_close i s)"
  unfolding relay_close_def by (rule udp_inv_heap) (auto dest: close_conn_dom)

lemma relay_end_inv [step_inv]:
  assumes inv: "udp_inv s" and i: "i \<in> u_relays s" "i \<notin> open_ids s"
  shows "udp_inv (relay_end i s)"
proof -
  from assms obtain sess where sess: "u_heap s i = Some sess" "\<not> us_open sess"
    by (auto simp: udp_inv_def relays_ok_def open_ids_def)
  show ?thesis
  proof (cases "u_table s (us_client sess) = Some i")
    case True
    have "udp_inv (s\<lparr>u_table := (u_table s)(us_client sess := None),
        u_policy := release (u_policy s) (host_at (u_heap s) i), u_heap := u_heap s, u_relays := u_relays s - {i}\<rparr>)"
      by (rule drop_entry_inv [OF inv True]) (use sess in auto)
    also have "s\<lparr>u_table := (u_table s)(us_client sess := None),
        u_policy := release (u_policy s) (host_at (u_heap s) i), u_heap := u_heap s, u_relays := u_relays s - {i}\<rparr> = relay_end i s"
      by (rule udp_state.equality) (use True sess(1) in \<open>simp_all add: relay_end_def remove_def\<close>)
    finally show ?thesis .
  next
    case False
    have "u_table s k \<noteq> Some i" for k
      using table_okD [OF udp_inv_table [OF inv], of k i] False sess(1) by auto
    then have "table_ok (s\<lparr>u_relays := u_relays s - {i}\<rparr>)" "relays_ok (s\<lparr>u_relays := u_relays s - {i}\<rparr>)"
      "udp_own (s\<lparr>u_relays := u_relays s - {i}\<rparr>) = udp_own s"
      using inv by (auto simp: udp_inv_def table_ok_def relays_ok_def udp_own_def fun_eq_iff)
    with inv False sess(1) show ?thesis by (simp add: relay_end_def remove_def udp_inv_def)
  qed
qed

lemma sweep_key_inv [step_inv]:
  assumes inv: "udp_inv s"
  shows "udp_inv (sweep_key now key s)"
proof (cases "u_table s key")
  case (Some i)
  with inv have "\<exists>sess. u_heap s i = Some sess"
    using table_okD [OF udp_inv_table] by blast
  then obtain sess where sess: "u_heap s i = Some sess" ..
  have "udp_inv (s\<lparr>u_table := (u_table s)(key := None), u_policy := release (u_policy s) (host_at (u_heap s) i),
      u_heap := close_conn (u_heap s) i, u_relays := u_relays s\<rparr>)"
    by (rule drop_entry_inv [OF inv Some]) (use close_conn_dom in auto)
  also have "s\<lparr>u_table := (u_table s)(key := None), u_policy := release (u_policy s) (host_at (u_heap s) i),
      u_heap := close_conn (u_heap s) i, u_relays := u_relays s\<rparr>
    = s\<lparr>u_table := (u_table s)(key := None), u_policy := release (u_policy s) (us_host sess),
      u_heap := close_conn (u_heap s) i\<rparr>"
    by (simp add: host_at_def sess)
  finally show ?thesis using Some sess inv by (simp add: sweep_key_def)
qed (use inv in \<open>simp add: sweep_key_def\<close>)

lemma sweep_inv [step_inv]: "udp_inv s \<Longrightarrow> udp_inv (sweep now keys s)"
  unfolding sweep_def by (induction keys arbitrary: s) (simp_all add: sweep_key_inv)

lemma closeAll_inv [step_inv]: "udp_inv s \<Longrightarrow> udp_inv (closeAll s)"
  unfolding closeAll_def by (rule udp_inv_heap) (auto simp: host_at_def split: option.splits)

lemma read_failed_inv [step_inv]: "udp_inv s \<Longrightarrow> u_pc s = Reading \<Longrightarrow> udp_inv (read_failed s)"
  by (auto simp: read_failed_def close_conn_listener_def pending_def creating_def intro!: udp_inv_pc)

lemma written_inv [step_inv]: "udp_inv s \<Longrightarrow> u_pc s = Forward i \<Longrightarrow> udp_inv (s\<lparr>u_pc := Reading\<rparr>)"
  by (rule udp_inv_pc) (simp_all add: pending_def creating_def)

lemma udp_step_inv: "udp_step s s' \<Longrightarrow> udp_inv s \<Longrightarrow> udp_inv s'"
  by (erule udp_stepE) (simp_all add: step_inv close_conn_listener_def)

lemma sweep_key_quota: "quota (u_policy (sweep_key now k s)) = quota (u_policy s)"
  by (auto simp: sweep_key_def release_quota split: option.splits)

lemma sweep_quota: "quota (u_policy (sweep now keys s)) = quota (u_policy s)"
  unfolding sweep_def by (induction keys arbitrary: s) (simp_all add: sweep_key_quota)

lemma udp_step_quota: "udp_step s s' \<Longrightarrow> quota (u_policy s') = quota (u_policy s)"
  by (erule udp_stepE)
    (auto simp: lookup_def create_check_def create_acquire_def create_dial_def create_insert_def touch_def
      relay_close_def relay_end_def remove_def closeAll_def read_failed_def close_conn_listener_def sweep_quota release_quota dest: acquire_quota
      split: prod.splits option.splits)

lemma udp_reachable_inv:
  "udp_reachable p s \<Longrightarrow> policy_ok p \<Longrightarrow> (\<And>h. held p h = 0) \<Longrightarrow> udp_inv s \<and> quota (u_policy s) = quota p"
proof (induction rule: udp_reachable.induct)
  case Init
  then show ?case using udp_inv_init by (simp add: udp_init_def)
next
  case (Step s s')
  then show ?case using udp_step_inv udp_step_quota by metis
qed

section \<open>Properties\<close>

lemma udp_reachable_new:
  "NewStreamPolicy allow deny maxPerIP = Inr p \<Longrightarrow> udp_reachable p s \<Longrightarrow> udp_inv s \<and> quota (u_policy s) = quota p"
  using NewStreamPolicy_ok udp_reachable_inv by metis

lemma udp_inv_held: "udp_inv s \<Longrightarrow> held (u_policy s) h = map_count (\<lambda>i. host_at (u_heap s) i = h) (u_table s) + pending (u_pc s) h"
  by (simp add: udp_inv_def sp.in_step_def udp_own_def)

text \<open>A first packet from a new client, taken through \<open>create\<close> step by step, reaches a state with its session.\<close>

definition open_policy :: stream_policy where
  "open_policy = \<lparr>sp_allow = [], sp_deny = [], sp_maxPerIP = 1, sp_active = Map.empty\<rparr>"

definition one_session :: udp_state where
  "one_session =
     \<lparr>u_pc = Forward 0, u_policy = snd (acquire open_policy ''10.0.0.1:53''), u_table = [''10.0.0.1:53'' \<mapsto> 0],
      u_heap = [0 \<mapsto> \<lparr>us_client = ''10.0.0.1:53'', us_host = ''10.0.0.1'', us_last = 7, us_open = True\<rparr>],
      u_relays = {0}, u_done = False, u_listening = True, u_closed_all = False, u_sweeping = True\<rparr>"

lemma new_open_policy: "NewStreamPolicy [] [] 1 = Inr open_policy"
  by (simp add: NewStreamPolicy_def open_policy_def)

lemma one_session_reachable: "udp_reachable open_policy one_session"
proof -
  let ?k = "''10.0.0.1:53''" and ?h = "''10.0.0.1''" and ?i = "udp_init open_policy"
  have "fst (acquire open_policy ?k) = Some ?h" by code_simp
  then obtain p where acq: "acquire open_policy ?k = (Some ?h, p)" by (metis prod.collapse)
  have "udp_reachable open_policy (lookup ?k 7 ?i)"
    by (rule udp_reachable.Step [OF udp_reachable.Init udp_step.Lookup]) (simp_all add: udp_init_def)
  also have "lookup ?k 7 ?i = ?i\<lparr>u_pc := Missed ?k\<rparr>" by (simp add: lookup_def udp_init_def)
  finally have "udp_reachable open_policy (create_check ?k (?i\<lparr>u_pc := Missed ?k\<rparr>))"
    by (rule udp_reachable.Step) (rule udp_step.Check, simp)
  also have "create_check ?k (?i\<lparr>u_pc := Missed ?k\<rparr>) = ?i\<lparr>u_pc := CapOk ?k\<rparr>"
    by (simp add: create_check_def udp_init_def maxUDPSessions_def)
  finally have "udp_reachable open_policy (create_acquire ?k (?i\<lparr>u_pc := CapOk ?k\<rparr>))"
    by (rule udp_reachable.Step) (rule udp_step.Acquire, simp)
  also have "create_acquire ?k (?i\<lparr>u_pc := CapOk ?k\<rparr>) = ?i\<lparr>u_policy := p, u_pc := HasHost ?k ?h\<rparr>"
    by (simp add: create_acquire_def udp_init_def acq)
  finally have "udp_reachable open_policy (create_dial True ?k ?h (?i\<lparr>u_policy := p, u_pc := HasHost ?k ?h\<rparr>))"
    by (rule udp_reachable.Step) (rule udp_step.Dial, simp)
  also have "create_dial True ?k ?h (?i\<lparr>u_policy := p, u_pc := HasHost ?k ?h\<rparr>) = ?i\<lparr>u_policy := p, u_pc := Dialed ?k ?h\<rparr>"
    by (simp add: create_dial_def)
  finally have "udp_reachable open_policy (create_insert 0 7 ?k ?h (?i\<lparr>u_policy := p, u_pc := Dialed ?k ?h\<rparr>))"
    by (rule udp_reachable.Step) (rule udp_step.Insert, simp_all add: udp_init_def)
  also have "create_insert 0 7 ?k ?h (?i\<lparr>u_policy := p, u_pc := Dialed ?k ?h\<rparr>) = one_session"
    by (simp add: create_insert_def udp_init_def maxUDPSessions_def one_session_def acq)
  finally show ?thesis .
qed

text \<open>C8: In every reachable state the table has at most \<open>maxUDPSessions\<close> sessions, each with a live
  relay, and no client host has more than \<open>maxPerIP\<close> of them when a limit is configured.\<close>

theorem udp_admission_bounds:
  assumes "NewStreamPolicy allow deny maxPerIP = Inr p" "udp_reachable p s"
  shows "map_len (u_table s) \<le> maxUDPSessions \<and> ran (u_table s) \<subseteq> u_relays s \<and>
    (0 < maxPerIP \<longrightarrow> int (map_count (\<lambda>i. host_at (u_heap s) i = h) (u_table s)) \<le> maxPerIP)"
proof -
  note inv = udp_reachable_new [OF assms]
  have "int (held (u_policy s) h) \<le> maxPerIP" if "0 < maxPerIP"
    using inv that by (intro held_maxPerIP [OF assms(1)]) (auto simp: udp_inv_def sp.in_step_def)
  moreover have "ran (u_table s) \<subseteq> u_relays s"
    using inv table_okD unfolding ran_def by (fastforce simp: udp_inv_def)
  ultimately show ?thesis using inv by (fastforce simp: udp_inv_held udp_inv_def)
qed

lemma udp_admission_bounds_witness:
  "udp_reachable open_policy one_session \<and> u_table one_session ''10.0.0.1:53'' = Some 0 \<and>
   int (map_count (\<lambda>i. host_at (u_heap one_session) i = ''10.0.0.1'') (u_table one_session)) \<le> 1"
  using udp_admission_bounds [OF new_open_policy one_session_reachable, of "''10.0.0.1''"] one_session_reachable
  by (simp add: one_session_def)

text \<open>The quota of a host is given back exactly once per session, whichever of relay, sweeper and
  failed creation ends it: the policy always counts the sessions in the table plus the one being created.\<close>

theorem udp_no_leak:
  assumes "NewStreamPolicy allow deny maxPerIP = Inr p" "udp_reachable p s"
  shows "held (u_policy s) h = map_count (\<lambda>i. host_at (u_heap s) i = h) (u_table s) + pending (u_pc s) h"
  using udp_reachable_new [OF assms] by (simp add: udp_inv_held)

lemma udp_no_leak_witness:
  "\<exists>s. udp_reachable open_policy s \<and> u_table s = Map.empty \<and> held (u_policy s) ''10.0.0.1'' = 0"
proof -
  let ?s = "relay_end 0 (sweep (7 + udpSessionIdleTimeout) [''10.0.0.1:53''] one_session)"
  have t: "u_table ?s = Map.empty" "u_pc ?s = Forward 0"
    by (simp_all add: one_session_def sweep_def sweep_key_def relay_end_def remove_def close_conn_def udpSessionIdleTimeout_def go_eval)
  have r: "udp_reachable open_policy ?s"
    by (rule udp_reachable.Step [OF udp_reachable.Step [OF one_session_reachable udp_step.Sweep] udp_step.RelayEnd])
      (auto simp: one_session_def sweep_def sweep_key_def udpSessionIdleTimeout_def open_ids_def close_conn_def go_eval)
  show ?thesis using r t udp_no_leak [OF new_open_policy r, of "''10.0.0.1''"] by (auto simp: pending_def)
qed

text \<open>C39: Well-formed sessions in every reachable state: a table entry leads to a session object made for that client,
  with a live relay, and to no other client's; a relay's session is an object of the heap, and while its upstream
  connection is open the table leads to it, so no relay waits on a session that has been forgotten.\<close>

theorem udp_well_formed:
  assumes "NewStreamPolicy allow deny maxPerIP = Inr p" "udp_reachable p s"
  shows "(\<forall>k i. u_table s k = Some i \<longrightarrow> i \<in> u_relays s \<and> (\<exists>sess. u_heap s i = Some sess \<and> us_client sess = k) \<and>
      (\<forall>k'. u_table s k' = Some i \<longrightarrow> k' = k)) \<and>
    (\<forall>i \<in> u_relays s. \<exists>sess. u_heap s i = Some sess \<and> (us_open sess \<longrightarrow> u_table s (us_client sess) = Some i))"
proof -
  have tab: "table_ok s" and rel: "relays_ok s" using udp_reachable_new [OF assms] by (simp_all add: udp_inv_def)
  show ?thesis
  proof (intro conjI allI impI)
    fix k i
    assume at: "u_table s k = Some i"
    show "i \<in> u_relays s" "\<exists>sess. u_heap s i = Some sess \<and> us_client sess = k" using table_okD [OF tab at] by blast+
    show "k' = k" if "u_table s k' = Some i" for k' using table_ok_inj [OF tab at that] .
  qed (use rel in \<open>simp add: relays_ok_def\<close>)
qed

lemma udp_well_formed_witness:
  "\<exists>sess. u_heap one_session 0 = Some sess \<and> us_open sess \<and> u_table one_session (us_client sess) = Some 0"
  using conjunct2 [OF udp_well_formed [OF new_open_policy one_session_reachable]] by (simp add: one_session_def)

text \<open>A tick of the sweeper, key by key.\<close>

definition idle_at :: "time \<Rightarrow> udp_state \<Rightarrow> nat \<Rightarrow> bool" where
  "idle_at now s i \<longleftrightarrow> (\<exists>sess. u_heap s i = Some sess \<and> udpSessionIdleTimeout \<le> time_sub now (us_last sess))"

lemma sweep_key_heap_last:
  "(\<exists>sess'. u_heap (sweep_key now k s) i = Some sess' \<and> us_last sess' = t) \<longleftrightarrow> (\<exists>sess. u_heap s i = Some sess \<and> us_last sess = t)"
  by (auto simp: sweep_key_def close_conn_def split: option.splits)

lemma sweep_key_table:
  "u_table (sweep_key now k s) = (u_table s)(k := (case u_table s k of Some i \<Rightarrow> if idle_at now s i then None else Some i | None \<Rightarrow> None))"
  by (auto simp: sweep_key_def idle_at_def fun_eq_iff split: option.splits)

lemma sweep_key_idle: "idle_at now (sweep_key now k s) i = idle_at now s i"
  using sweep_key_heap_last [of now k s i] unfolding idle_at_def by metis

lemma sweep_table:
  "u_table (sweep now keys s) k =
    (if k \<in> set keys then (case u_table s k of Some i \<Rightarrow> if idle_at now s i then None else Some i | None \<Rightarrow> None) else u_table s k)"
  unfolding sweep_def
  by (induction keys arbitrary: s) (auto simp: sweep_key_table sweep_key_idle split: option.splits)

text \<open>A tick of the sweeper drops exactly the sessions idle for \<open>udpSessionIdleTimeout\<close> or longer.\<close>

theorem sweep_drops_idle:
  assumes "set keys = dom (u_table s)"
  shows "u_table (sweep now keys s) k =
    (case u_table s k of
       None \<Rightarrow> None
     | Some i \<Rightarrow> (if (\<exists>sess. u_heap s i = Some sess \<and> udpSessionIdleTimeout \<le> time_sub now (us_last sess)) then None else Some i))"
  using assms by (auto simp: sweep_table idle_at_def split: option.splits)

lemma sweep_drops_idle_witness:
  "u_table (sweep (8 + udpSessionIdleTimeout) [''10.0.0.1:53''] one_session) ''10.0.0.1:53'' = None \<and>
   u_table (sweep 8 [''10.0.0.1:53''] one_session) ''10.0.0.1:53'' = Some 0"
  using sweep_drops_idle [of "[''10.0.0.1:53'']" one_session _ "''10.0.0.1:53''"]
  by (simp add: one_session_def udpSessionIdleTimeout_def go_eval)

end
