(* ===== verification/Streams.thy ===== *)
theory Streams
  imports TcpProxy UdpProxy
begin

text \<open>
  The contract the two stream proxies share, as an abstract machine: a gate knows which clients are inside and which host
  each belongs to; a client enters when it is outside and its host is below the quota, and leaves when it is inside.  Both
  proxies implement it, whatever the interleaving of their goroutines: every event of a proxy performs exactly the actions
  on the gate that \<open>tcp_actions\<close> and \<open>udp_actions\<close> give for it.
\<close>

section \<open>The gate\<close>

type_synonym 'c gate = "'c \<rightharpoonup> string"

datatype 'c action = Enter 'c string | Leave 'c

definition inside :: "'c gate \<Rightarrow> string \<Rightarrow> nat" where
  "inside g h = map_count (\<lambda>x. x = h) g"

fun gate_do :: "nat option \<Rightarrow> 'c action \<Rightarrow> 'c gate \<Rightarrow> 'c gate option" where
  "gate_do q (Enter c h) g =
     (if g c = None \<and> (case q of None \<Rightarrow> True | Some n \<Rightarrow> inside g h < n) then Some (g(c \<mapsto> h)) else None)"
| "gate_do q (Leave c) g = (if g c = None then None else Some (g(c := None)))"

fun gate_run :: "nat option \<Rightarrow> 'c action list \<Rightarrow> 'c gate \<Rightarrow> 'c gate option" where
  "gate_run q [] g = Some g"
| "gate_run q (a # as) g = Option.bind (gate_do q a g) (gate_run q as)"

lemma gate_run_leaves:
  "distinct cs \<Longrightarrow> (\<forall>c \<in> set cs. g c \<noteq> None) \<Longrightarrow> gate_run q (map Leave cs) g = Some (\<lambda>c. if c \<in> set cs then None else g c)"
proof (induction cs arbitrary: g)
  case (Cons c cs)
  have ih: "gate_run q (map Leave cs) (g(c := None)) = Some (\<lambda>x. if x \<in> set cs then None else (g(c := None)) x)"
    by (rule Cons.IH) (use Cons.prems in auto)
  moreover have "(\<lambda>x. if x \<in> set cs then None else (g(c := None)) x) = (\<lambda>x. if x \<in> set (c # cs) then None else g x)" by auto
  moreover have "gate_do q (Leave c) g = Some (g(c := None))" using Cons.prems(2) by simp
  ultimately show ?case by (simp del: fun_upd_apply)
qed simp

text \<open>What the gate is for: nobody's host has more than its quota inside.\<close>

lemma gate_do_bounded:
  assumes "gate_do (Some n) a g = Some g'" "finite (dom g)" "\<And>h. inside g h \<le> n"
  shows "finite (dom g') \<and> inside g' h \<le> n"
proof (cases a)
  case (Enter c h0)
  with assms show ?thesis by (auto simp: inside_def map_count_new split: if_splits)
next
  case (Leave c)
  with assms(1) obtain v where v: "g c = Some v" "g' = g(c := None)" by (auto split: if_splits)
  have "inside g' h \<le> inside g h" using map_count_del [OF assms(2) v(1), of "\<lambda>x. x = h"] by (simp add: inside_def v(2))
  with assms(2,3) v(2) show ?thesis by (auto intro: order_trans)
qed

lemma gate_run_bounded:
  "gate_run (Some n) as g = Some g' \<Longrightarrow> finite (dom g) \<Longrightarrow> (\<And>h. inside g h \<le> n) \<Longrightarrow> inside g' h \<le> n"
proof (induction as arbitrary: g)
  case (Cons a as)
  then obtain g1 where g1: "gate_do (Some n) a g = Some g1" "gate_run (Some n) as g1 = Some g'" by (auto split: bind_splits)
  from gate_do_bounded [OF g1(1) Cons.prems(2,3)] Cons.IH [OF g1(2)] show ?case by blast
qed simp

text \<open>An admission by the policy is an admission at the gate.\<close>

lemma acquire_enters:
  assumes "acquire p addr = (Some h, p')" "policy_ok p" "held p h = inside g h" "g c = None"
  shows "gate_do (quota p) (Enter c h) g = Some (g(c \<mapsto> h))"
proof -
  have "held p' h = Suc (held p h)" using acquire_Some [OF assms(2,1)] by simp
  then have "held p h < n" if "quota p = Some n" for n
    using held_quota [OF acquire_ok [OF assms(2,1)], of n h] acquire_quota [OF assms(1)] that by simp
  with assms(3,4) show ?thesis by (simp split: option.split)
qed

lemma inside_compose: "inside (map_option f \<circ> m) h = map_count (\<lambda>v. f v = h) m"
  by (simp add: inside_def map_count_def)

lemma inside_new: "finite (dom g) \<Longrightarrow> g c = None \<Longrightarrow> inside (g(c \<mapsto> h0)) h = inside g h + (if h0 = h then 1 else 0)"
  by (simp add: inside_def map_count_new)

section \<open>The TCP proxy\<close>

text \<open>Inside are the connections with a goroutine, and the one that was admitted and waits for its slot.\<close>

definition tcp_holders :: "tcp_state \<Rightarrow> nat gate" where
  "tcp_holders s =
     (case t_pc s of
        Admitted c h \<Rightarrow> (map_option snd \<circ> t_conns s)(c \<mapsto> h)
      | _ \<Rightarrow> map_option snd \<circ> t_conns s)"

text \<open>The actions of an event: a client the policy admits enters, one that finds no slot leaves, and so does one whose
  goroutine gives its host back.\<close>

fun tcp_actions :: "tcp_state \<Rightarrow> tcp_event \<Rightarrow> nat action list" where
  "tcp_actions s (EvAccept c addr) = (case fst (acquire (t_policy s) addr) of None \<Rightarrow> [] | Some h \<Rightarrow> [Enter c h])"
| "tcp_actions s EvSlot =
     (case t_pc s of Admitted c h \<Rightarrow> if t_slots s < maxTCPConnections then [] else [Leave c] | _ \<Rightarrow> [])"
| "tcp_actions s (EvRelease c) = [Leave c]"
| "tcp_actions s e = []"

lemma tcp_step_exec: "tcp_step s s' \<Longrightarrow> \<exists>e. tcp_exec s e = Some s'"
proof (induction rule: tcp_step.cases)
  case (Accept s c addr)
  then show ?case by (intro exI [of _ "EvAccept c addr"]) simp
next
  case (AcceptError s is_closed)
  then show ?case by (intro exI [of _ EvError]) simp
next
  case (Slot s c host)
  then show ?case by (intro exI [of _ EvSlot]) simp
next
  case (Finish s c host)
  then show ?case by (intro exI [of _ "EvFinish c"]) simp
next
  case (Release s c host)
  then show ?case by (intro exI [of _ "EvRelease c"]) simp
next
  case (Shutdown s)
  then show ?case by (intro exI [of _ EvShutdown]) simp
next
  case (CloseListener s)
  then show ?case by (intro exI [of _ EvCloseListener]) simp
qed

lemma admitted_is_new: "tcp_reachable p s \<Longrightarrow> t_pc s = Admitted c h \<Longrightarrow> t_conns s c = None"
proof (induction rule: tcp_reachable.induct)
  case (Step s s')
  from Step.hyps(2) Step.IH Step.prems show ?case
    by (cases rule: tcp_step.cases)
      (auto simp: accept_client_def accept_failed_def take_channel_slot_def free_slot_def release_host_def shut_down_def close_listener_def
        split: prod.splits option.splits if_splits)
qed (simp add: tcp_init_def)

lemma tcp_inside:
  assumes "finite (dom (t_conns s))" "\<And>c h. t_pc s = Admitted c h \<Longrightarrow> t_conns s c = None"
  shows "inside (tcp_holders s) h = tcp_own s h"
proof (cases "t_pc s")
  case (Admitted c h0)
  have "finite (dom (map_option snd \<circ> t_conns s))" by (rule finite_subset [OF _ assms(1)]) (auto split: option.splits)
  with Admitted assms(2) show ?thesis by (simp add: tcp_holders_def inside_new inside_compose tcp_own_def in_flight_def)
qed (simp_all add: tcp_holders_def inside_compose tcp_own_def in_flight_def)

lemma tcp_accept_refines:
  assumes "tcp_inv s" "t_pc s = Accepting" "t_conns s c = None"
  shows "gate_run (quota (t_policy s)) (tcp_actions s (EvAccept c addr)) (tcp_holders s) = Some (tcp_holders (accept_client c addr s))"
proof -
  have ok: "policy_ok (t_policy s)" using assms(1) by (simp add: tcp_inv_def sp.in_step_def)
  have inside: "held (t_policy s) h = inside (tcp_holders s) h" for h
    using tcp_inside [of s h] assms(1,2) by (simp add: tcp_inv_def sp.in_step_def)
  have free: "tcp_holders s c = None" using assms(2,3) by (simp add: tcp_holders_def)
  obtain r q where acq: "acquire (t_policy s) addr = (r, q)" by fastforce
  show ?thesis
  proof (cases r)
    case None
    with acq assms(2) show ?thesis by (simp add: accept_client_def tcp_holders_def)
  next
    case (Some h)
    have "tcp_actions s (EvAccept c addr) = [Enter c h]" "tcp_holders (accept_client c addr s) = (tcp_holders s)(c \<mapsto> h)"
      using acq assms(2) Some by (simp_all add: accept_client_def tcp_holders_def)
    with acquire_enters [OF acq [unfolded Some] ok inside free] show ?thesis by (simp del: gate_do.simps)
  qed
qed

text \<open>C22: The TCP proxy refines the gate: every step of every goroutine is an event that performs exactly its actions on
  it.  A client that the policy admits enters, under the quota of its host; the client for which no slot is left leaves again,
  and so does the connection whose goroutine gives its host back; every other event changes nobody's place.\<close>

theorem tcp_refines_gate:
  assumes "NewStreamPolicy allow deny maxPerIP = Inr p" "tcp_reachable p s" "tcp_step s s'"
  shows "\<exists>e. tcp_exec s e = Some s' \<and> gate_run (quota p) (tcp_actions s e) (tcp_holders s) = Some (tcp_holders s')"
proof -
  have inv: "tcp_inv s" and quota: "quota (t_policy s) = quota p" using tcp_reachable_new [OF assms(1,2)] by simp_all
  note new = admitted_is_new [OF assms(2)]
  obtain e where e: "tcp_exec s e = Some s'" using tcp_step_exec [OF assms(3)] by blast
  have "gate_run (quota p) (tcp_actions s e) (tcp_holders s) = Some (tcp_holders s')"
  proof (cases e)
    case (EvAccept c addr)
    with e tcp_accept_refines [OF inv, of c addr] show ?thesis by (auto simp: quota simp del: tcp_actions.simps split: if_splits)
  next
    case EvSlot
    with e new show ?thesis
      by (auto simp: take_channel_slot_def tcp_holders_def fun_eq_iff split: tcp_pc.splits if_splits)
  next
    case (EvFinish c)
    with e new show ?thesis
      by (auto simp: free_slot_def tcp_holders_def fun_eq_iff split: tcp_pc.splits option.splits conn_phase.splits)
  next
    case (EvRelease c)
    with e new show ?thesis
      by (auto simp: release_host_def tcp_holders_def fun_eq_iff split: tcp_pc.splits option.splits conn_phase.splits)
  next
    case EvError
    with e show ?thesis by (auto simp: accept_failed_def tcp_holders_def split: if_splits)
  qed (use e in \<open>auto simp: shut_down_def close_listener_def tcp_holders_def comp_def split: if_splits tcp_pc.split\<close>)
  with e show ?thesis by blast
qed

lemma tcp_refines_gate_witness:
  "\<exists>p s s'. tcp_reachable p s \<and> tcp_step s s' \<and> tcp_holders s = Map.empty \<and> tcp_holders s' = [0 \<mapsto> ''10.0.0.1''] \<and>
     (\<exists>e. tcp_exec s e = Some s' \<and> gate_run (quota p) (tcp_actions s e) (tcp_holders s) = Some (tcp_holders s'))"
proof -
  let ?p = "\<lparr>sp_allow = [], sp_deny = [], sp_maxPerIP = 1, sp_active = Map.empty\<rparr>"
  let ?s = "tcp_init ?p" and ?s' = "accept_client 0 ''10.0.0.1:50'' (tcp_init ?p)"
  have new: "NewStreamPolicy [] [] 1 = Inr ?p" by (simp add: NewStreamPolicy_def)
  have reach: "tcp_reachable ?p ?s" by (rule tcp_reachable.Init)
  have step: "tcp_step ?s ?s'" by (rule tcp_step.Accept) (simp_all add: tcp_init_def)
  have "fst (acquire ?p ''10.0.0.1:50'') = Some ''10.0.0.1''" by code_simp
  then obtain q where "acquire ?p ''10.0.0.1:50'' = (Some ''10.0.0.1'', q)" by (metis prod.collapse)
  then have "tcp_holders ?s = Map.empty" "tcp_holders ?s' = [0 \<mapsto> ''10.0.0.1'']"
    by (simp_all add: tcp_holders_def tcp_init_def accept_client_def fun_eq_iff)
  with tcp_refines_gate [OF new reach step] reach step show ?thesis by blast
qed

section \<open>The UDP proxy\<close>

text \<open>The steps of the proxy as events; every step is one.\<close>

datatype udp_event =
    UvLookup string time | UvReadError | UvCheck | UvAcquire | UvDial bool | UvInsert nat time | UvWrite
  | UvRelayData nat time | UvRelayClose nat | UvRelayEnd nat | UvSweep time "string list" | UvSweepStop
  | UvShutdown | UvCloseListener | UvCloseAll

fun udp_exec :: "udp_state \<Rightarrow> udp_event \<Rightarrow> udp_state option" where
  "udp_exec s (UvLookup key now) = (if u_pc s = Reading \<and> u_listening s then Some (lookup key now s) else None)"
| "udp_exec s UvReadError = (if u_pc s = Reading then Some (read_failed s) else None)"
| "udp_exec s UvCheck = (case u_pc s of Missed key \<Rightarrow> Some (create_check key s) | _ \<Rightarrow> None)"
| "udp_exec s UvAcquire = (case u_pc s of CapOk key \<Rightarrow> Some (create_acquire key s) | _ \<Rightarrow> None)"
| "udp_exec s (UvDial dialed) = (case u_pc s of HasHost key host \<Rightarrow> Some (create_dial dialed key host s) | _ \<Rightarrow> None)"
| "udp_exec s (UvInsert i now) =
     (case u_pc s of Dialed key host \<Rightarrow> if u_heap s i = None then Some (create_insert i now key host s) else None | _ \<Rightarrow> None)"
| "udp_exec s UvWrite = (case u_pc s of Forward i \<Rightarrow> Some (s\<lparr>u_pc := Reading\<rparr>) | _ \<Rightarrow> None)"
| "udp_exec s (UvRelayData i now) = (if i \<in> u_relays s then Some (touch i now s) else None)"
| "udp_exec s (UvRelayClose i) = (if i \<in> u_relays s then Some (relay_close i s) else None)"
| "udp_exec s (UvRelayEnd i) = (if i \<in> u_relays s \<and> i \<notin> open_ids s then Some (relay_end i s) else None)"
| "udp_exec s (UvSweep now keys) =
     (if u_sweeping s \<and> set keys = dom (u_table s) \<and> distinct keys then Some (sweep now keys s) else None)"
| "udp_exec s UvSweepStop = (if u_done s then Some (s\<lparr>u_sweeping := False\<rparr>) else None)"
| "udp_exec s UvShutdown = Some (s\<lparr>u_done := True\<rparr>)"
| "udp_exec s UvCloseListener = (if u_done s then Some (close_conn_listener s) else None)"
| "udp_exec s UvCloseAll =
     (if u_done s \<and> \<not> u_listening s \<and> \<not> u_closed_all s then Some ((closeAll s)\<lparr>u_closed_all := True\<rparr>) else None)"

lemma udp_step_exec: "udp_step s s' \<Longrightarrow> \<exists>e. udp_exec s e = Some s'"
proof (induction rule: udp_step.cases)
  case (Lookup s key now)
  then show ?case by (intro exI [of _ "UvLookup key now"]) simp
next
  case (ReadError s)
  then show ?case by (intro exI [of _ UvReadError]) simp
next
  case (Check s key)
  then show ?case by (intro exI [of _ UvCheck]) simp
next
  case (Acquire s key)
  then show ?case by (intro exI [of _ UvAcquire]) simp
next
  case (Dial s key host dialed)
  then show ?case by (intro exI [of _ "UvDial dialed"]) simp
next
  case (Insert s key host i now)
  then show ?case by (intro exI [of _ "UvInsert i now"]) simp
next
  case (Write s i)
  then show ?case by (intro exI [of _ UvWrite]) simp
next
  case (RelayData i s now)
  then show ?case by (intro exI [of _ "UvRelayData i now"]) simp
next
  case (RelayClose i s)
  then show ?case by (intro exI [of _ "UvRelayClose i"]) simp
next
  case (RelayEnd i s)
  then show ?case by (intro exI [of _ "UvRelayEnd i"]) simp
next
  case (Sweep s keys now)
  then show ?case by (intro exI [of _ "UvSweep now keys"]) simp
next
  case (SweepStop s)
  then show ?case by (intro exI [of _ UvSweepStop]) simp
next
  case (Shutdown s)
  then show ?case by (intro exI [of _ UvShutdown]) simp
next
  case (CloseListener s)
  then show ?case by (intro exI [of _ UvCloseListener]) simp
next
  case (CloseAll s)
  then show ?case by (intro exI [of _ UvCloseAll]) simp
qed

text \<open>Inside are the clients with a session in the table, and the one whose session is being created.\<close>

definition table_hosts :: "udp_state \<Rightarrow> string gate" where
  "table_hosts s = map_option (host_at (u_heap s)) \<circ> u_table s"

definition udp_holders :: "udp_state \<Rightarrow> string gate" where
  "udp_holders s =
     (case u_pc s of
        HasHost key host \<Rightarrow> (table_hosts s)(key \<mapsto> host)
      | Dialed key host \<Rightarrow> (table_hosts s)(key \<mapsto> host)
      | _ \<Rightarrow> table_hosts s)"

fun udp_actions :: "udp_state \<Rightarrow> udp_event \<Rightarrow> string action list" where
  "udp_actions s UvAcquire =
     (case u_pc s of
        CapOk key \<Rightarrow> (case fst (acquire (u_policy s) key) of None \<Rightarrow> [] | Some host \<Rightarrow> [Enter key host])
      | _ \<Rightarrow> [])"
| "udp_actions s (UvDial dialed) = (case u_pc s of HasHost key host \<Rightarrow> if dialed then [] else [Leave key] | _ \<Rightarrow> [])"
| "udp_actions s (UvInsert i now) =
     (case u_pc s of Dialed key host \<Rightarrow> if map_len (u_table s) < maxUDPSessions then [] else [Leave key] | _ \<Rightarrow> [])"
| "udp_actions s (UvRelayEnd i) =
     (case u_heap s i of
        Some sess \<Rightarrow> if u_table s (us_client sess) = Some i then [Leave (us_client sess)] else []
      | None \<Rightarrow> [])"
| "udp_actions s (UvSweep now keys) =
     map Leave (filter (\<lambda>k. case u_table s k of Some i \<Rightarrow> idle_at now s i | None \<Rightarrow> False) keys)"
| "udp_actions s e = []"

lemma udp_inside:
  assumes "udp_inv s"
  shows "inside (udp_holders s) h = udp_own s h"
proof -
  have "finite (dom (u_table s))" using assms by (simp add: udp_inv_def)
  then have "finite (dom (table_hosts s))" by (rule finite_subset [rotated]) (auto simp: table_hosts_def)
  moreover have "table_hosts s k = None" if "creating (u_pc s) = Some k" for k
    using assms that by (simp add: udp_inv_def table_hosts_def)
  ultimately show ?thesis
    by (cases "u_pc s") (simp_all add: udp_holders_def udp_own_def pending_def creating_def inside_new, simp_all add: table_hosts_def inside_compose)
qed

text \<open>Closing connections and touching time stamps move nobody.\<close>

lemma udp_holders_cong:
  assumes "u_pc s' = u_pc s" "u_table s' = u_table s" "\<And>i. host_at (u_heap s') i = host_at (u_heap s) i"
  shows "udp_holders s' = udp_holders s"
proof -
  have "table_hosts s' = table_hosts s" using assms(2,3) by (auto simp: table_hosts_def fun_eq_iff intro!: map_option_cong)
  with assms(1) show ?thesis by (simp add: udp_holders_def split: udp_pc.split)
qed

lemma host_at_closeAll [simp]: "host_at (u_heap (closeAll s)) i = host_at (u_heap s) i"
  by (auto simp: closeAll_def host_at_def split: option.splits)

lemma sweep_keeps:
  "u_pc (sweep now keys s) = u_pc s \<and> host_at (u_heap (sweep now keys s)) i = host_at (u_heap s) i"
proof (induction keys arbitrary: s)
  case (Cons k keys)
  have "u_pc (sweep_key now k s) = u_pc s" "host_at (u_heap (sweep_key now k s)) i = host_at (u_heap s) i"
    by (auto simp: sweep_key_def split: option.splits)
  with Cons [of "sweep_key now k s"] show ?case by (simp add: sweep_def)
qed (simp add: sweep_def)

lemma sweep_holders:
  assumes "udp_inv s" "set keys = dom (u_table s)"
  shows "udp_holders (sweep now keys s) =
    (\<lambda>k. if k \<in> set (filter (\<lambda>k. case u_table s k of Some i \<Rightarrow> idle_at now s i | None \<Rightarrow> False) keys) then None else udp_holders s k)"
proof -
  let ?idle = "\<lambda>k. case u_table s k of Some i \<Rightarrow> idle_at now s i | None \<Rightarrow> False"
  have tab: "table_hosts (sweep now keys s) = (\<lambda>k. if ?idle k then None else table_hosts s k)"
    using assms(2) by (auto simp: table_hosts_def fun_eq_iff sweep_table sweep_keeps split: option.splits)
  have "\<not> ?idle k" if "creating (u_pc s) = Some k" for k using assms(1) that by (simp add: udp_inv_def)
  with assms(2) show ?thesis
    by (cases "u_pc s") (auto simp: udp_holders_def sweep_keeps tab fun_eq_iff creating_def split: option.splits)
qed

lemma relay_end_holders:
  assumes "udp_inv s" "i \<in> u_relays s"
  shows "gate_run q (udp_actions s (UvRelayEnd i)) (udp_holders s) = Some (udp_holders (relay_end i s))"
proof -
  obtain sess where sess: "u_heap s i = Some sess" using assms by (auto simp: udp_inv_def relays_ok_def)
  show ?thesis
  proof (cases "u_table s (us_client sess) = Some i")
    case True
    then have out: "\<not> creating (u_pc s) = Some (us_client sess)" using assms(1) by (auto simp: udp_inv_def)
    have "udp_holders s (us_client sess) \<noteq> None"
      using True by (cases "u_pc s") (simp_all add: udp_holders_def table_hosts_def)
    moreover have "udp_holders (relay_end i s) = (udp_holders s)(us_client sess := None)"
      using True sess out
      by (cases "u_pc s") (auto simp: udp_holders_def table_hosts_def relay_end_def remove_def fun_eq_iff creating_def)
    ultimately show ?thesis using True sess by simp
  next
    case False
    then have "udp_holders (relay_end i s) = udp_holders s"
      using sess by (intro udp_holders_cong) (simp_all add: relay_end_def remove_def)
    with False sess show ?thesis by simp
  qed
qed

lemma udp_acquire_refines:
  assumes "udp_inv s" "u_pc s = CapOk key"
  shows "gate_run (quota (u_policy s)) (udp_actions s UvAcquire) (udp_holders s) = Some (udp_holders (create_acquire key s))"
proof -
  have ok: "policy_ok (u_policy s)" using assms(1) by (simp add: udp_inv_def sp.in_step_def)
  have inside: "held (u_policy s) h = inside (udp_holders s) h" for h
    using assms(1) udp_inside [OF assms(1), of h] by (simp add: udp_inv_def sp.in_step_def)
  have free: "udp_holders s key = None" using assms by (simp add: udp_inv_def udp_holders_def table_hosts_def creating_def)
  obtain r q where acq: "acquire (u_policy s) key = (r, q)" by fastforce
  show ?thesis
  proof (cases r)
    case None
    with acq assms(2) show ?thesis by (simp add: create_acquire_def udp_holders_def table_hosts_def)
  next
    case (Some h)
    have "udp_actions s UvAcquire = [Enter key h]" "udp_holders (create_acquire key s) = (udp_holders s)(key \<mapsto> h)"
      using acq assms(2) Some by (simp_all add: create_acquire_def udp_holders_def table_hosts_def)
    with acquire_enters [OF acq [unfolded Some] ok inside free] show ?thesis by (simp del: gate_do.simps)
  qed
qed

lemma udp_insert_refines:
  assumes "udp_inv s" "u_pc s = Dialed key host" "u_heap s i = None"
  shows "gate_run q (udp_actions s (UvInsert i now)) (udp_holders s) = Some (udp_holders (create_insert i now key host s))"
proof -
  let ?s = "create_insert i now key host s"
  have "u_table s k \<noteq> Some i" for k using table_okD [OF udp_inv_table [OF assms(1)], of k i] assms(3) by auto
  then have hosts: "map_option (host_at ((u_heap s)(i \<mapsto> x))) (u_table s k) = map_option (host_at (u_heap s)) (u_table s k)" for k x
    by (cases "u_table s k") (auto simp: host_at_def)
  have new: "u_table s key = None" using assms(1,2) by (simp add: udp_inv_def creating_def)
  show ?thesis
  proof (cases "map_len (u_table s) < maxUDPSessions")
    case True
    then have "table_hosts ?s = (table_hosts s)(key \<mapsto> host)" "u_pc ?s = Forward i"
      using hosts by (auto simp: create_insert_def table_hosts_def fun_eq_iff) (simp add: host_at_def)
    with True assms(2) show ?thesis by (simp add: udp_holders_def)
  next
    case False
    then have "table_hosts ?s = table_hosts s" "u_pc ?s = Reading" by (simp_all add: create_insert_def table_hosts_def)
    moreover have "(table_hosts s)(key := None) = table_hosts s" using new by (auto simp: table_hosts_def fun_eq_iff)
    ultimately show ?thesis using False assms(2) by (simp add: udp_holders_def)
  qed
qed

lemma udp_sweep_refines:
  assumes "udp_inv s" "set keys = dom (u_table s)" "distinct keys"
  shows "gate_run q (udp_actions s (UvSweep now keys)) (udp_holders s) = Some (udp_holders (sweep now keys s))"
proof -
  have "\<forall>k \<in> set keys. udp_holders s k \<noteq> None"
    unfolding assms(2) by (cases "u_pc s") (auto simp: udp_holders_def table_hosts_def)
  then show ?thesis unfolding udp_actions.simps sweep_holders [OF assms(1,2)]
    using assms(3) by (intro gate_run_leaves) auto
qed

text \<open>C23: The UDP proxy refines the same gate: every step of loop, relays and sweeper is an event that performs exactly its
  actions on it.  The client of a session being created enters under its host's quota, and leaves again when the dial or the
  insertion fails; a relay that ends takes its own client out if the table still leads to it; and a sweep takes out, each once,
  exactly the clients whose session is idle at that instant.  Every other event changes nobody's place.\<close>

theorem udp_refines_gate:
  assumes "NewStreamPolicy allow deny maxPerIP = Inr p" "udp_reachable p s" "udp_step s s'"
  shows "\<exists>e. udp_exec s e = Some s' \<and> gate_run (quota p) (udp_actions s e) (udp_holders s) = Some (udp_holders s')"
proof -
  have inv: "udp_inv s" and quota: "quota (u_policy s) = quota p" using udp_reachable_new [OF assms(1,2)] by simp_all
  have new: "u_table s k = None" if "creating (u_pc s) = Some k" for k using inv that by (simp add: udp_inv_def)
  obtain e where e: "udp_exec s e = Some s'" using udp_step_exec [OF assms(3)] by blast
  note refines = udp_acquire_refines [OF inv] udp_insert_refines [OF inv] relay_end_holders [OF inv] udp_sweep_refines [OF inv]
  have "gate_run (quota p) (udp_actions s e) (udp_holders s) = Some (udp_holders s')"
  proof (cases e)
    case (UvDial dialed)
    with e new show ?thesis
      by (auto simp: create_dial_def udp_holders_def table_hosts_def creating_def fun_eq_iff split: udp_pc.splits)
  next
    case (UvLookup key now)
    with e show ?thesis
      by (auto simp: lookup_def udp_holders_def table_hosts_def fun_eq_iff cong: map_option_cong split: if_splits option.splits)
  next
    case UvCheck
    with e show ?thesis by (auto simp: create_check_def udp_holders_def table_hosts_def split: udp_pc.splits if_splits)
  next
    case UvWrite
    with e show ?thesis by (auto simp: udp_holders_def table_hosts_def split: udp_pc.splits)
  next
    case UvReadError
    with e show ?thesis by (auto simp: read_failed_def close_conn_listener_def udp_holders_def table_hosts_def split: if_splits)
  next
    case UvAcquire
    with e refines(1) show ?thesis by (auto simp: quota simp del: udp_actions.simps split: udp_pc.splits)
  next
    case (UvInsert i now)
    with e refines(2) show ?thesis by (auto simp del: udp_actions.simps split: udp_pc.splits if_splits)
  next
    case (UvRelayEnd i)
    with e refines(3) show ?thesis by (auto simp del: udp_actions.simps split: if_splits)
  next
    case (UvSweep now keys)
    with e refines(4) show ?thesis by (auto simp del: udp_actions.simps split: if_splits)
  qed (use e in \<open>auto simp: touch_def relay_close_def close_conn_listener_def split: if_splits intro!: udp_holders_cong [symmetric],
      simp_all add: closeAll_def\<close>)
  with e show ?thesis by blast
qed

lemma udp_refines_gate_witness:
  "\<exists>s'. udp_step one_session s' \<and> udp_holders one_session = [''10.0.0.1:53'' \<mapsto> ''10.0.0.1''] \<and> udp_holders s' = Map.empty \<and>
     (\<exists>e. udp_exec one_session e = Some s' \<and>
        gate_run (quota open_policy) (udp_actions one_session e) (udp_holders one_session) = Some (udp_holders s'))"
proof -
  let ?s' = "sweep (7 + udpSessionIdleTimeout) [''10.0.0.1:53''] one_session"
  have step: "udp_step one_session ?s'" by (rule udp_step.Sweep) (simp_all add: one_session_def)
  have "udp_holders one_session = [''10.0.0.1:53'' \<mapsto> ''10.0.0.1'']" "udp_holders ?s' = Map.empty"
    by (simp_all add: udp_holders_def table_hosts_def one_session_def host_at_def fun_eq_iff
        sweep_def sweep_key_def close_conn_def udpSessionIdleTimeout_def go_eval)
  with udp_refines_gate [OF new_open_policy one_session_reachable step] step show ?thesis by blast
qed

end
