(* ===== verification/IpText.thy ===== *)
theory IpText
  imports GoNet
begin

text \<open>
  The text of an address is read back as that address: \<open>IP.String\<close> followed by \<open>ParseIP\<close> is the identity on
  addresses in canonical form.  The components that compare clients by the text of their address rely on
  it: two texts printed for different addresses differ.
\<close>

section \<open>Digits\<close>

lemma hd_format_nonzero: "2 \<le> b \<Longrightarrow> b \<le> 36 \<Longrightarrow> 0 < n \<Longrightarrow> hd (format_nat b n) \<noteq> CHR ''0''"
proof (induction b n rule: format_nat.induct)
  case (1 b n)
  show ?case
  proof (cases "n < b")
    case True
    have "digit_val (digit_char n) = Some n" using True 1 by (intro digit_val_char) simp
    moreover have "digit_val CHR ''0'' = Some 0" by code_simp
    ultimately have "digit_char n \<noteq> CHR ''0''" using 1(4) by force
    with True show ?thesis by (subst format_nat.simps) simp
  next
    case False
    then have "0 < n div b" using 1 by (simp add: div_greater_zero_iff)
    with False 1 show ?thesis by (subst format_nat.simps) simp
  qed
qed

lemma hex_digit_chars:
  assumes "c \<in> set (format_nat 16 n)"
  shows "is_hex c" "c \<noteq> CHR ''.''" "c \<noteq> CHR '':''" "c \<noteq> CHR ''%''"
proof -
  obtain d where d: "d < 16" "c = digit_char d" using format_nat_chars [OF _ assms] by auto
  then show "is_hex c" by (simp add: is_hex_def digit_val_char)
  have "\<not> is_hex CHR ''.''" "\<not> is_hex CHR '':''" "\<not> is_hex CHR ''%''" by code_simp+
  with \<open>is_hex c\<close> show "c \<noteq> CHR ''.''" "c \<noteq> CHR '':''" "c \<noteq> CHR ''%''" by auto
qed

lemma dec_digit_chars:
  assumes "c \<in> set (format_nat 10 n)"
  shows "c \<noteq> CHR ''.''" "c \<noteq> CHR '':''" "c \<noteq> CHR ''%''"
proof -
  obtain d where d: "d < 10" "c = digit_char d" using format_nat_chars [OF _ assms] by auto
  then have "digit_val c = Some d" by (simp add: digit_val_char)
  moreover have "digit_val CHR ''.'' = None" "digit_val CHR '':'' = None" "digit_val CHR ''%'' = None" by code_simp+
  ultimately show "c \<noteq> CHR ''.''" "c \<noteq> CHR '':''" "c \<noteq> CHR ''%''" by force+
qed

section \<open>IPv4\<close>

lemma octet_format: "n \<le> 255 \<Longrightarrow> octet (format_nat 10 n) = Some n"
proof -
  assume n: "n \<le> 255"
  have "\<not> (1 < length (format_nat 10 n) \<and> hd (format_nat 10 n) = CHR ''0'')"
  proof (cases "n = 0")
    case True
    then show ?thesis by (simp add: format_nat.simps [of 10 0])
  qed (simp add: hd_format_nonzero)
  with n show ?thesis by (simp add: octet_def parse_format_nat)
qed

lemma word_of_octets_of: "(case octets_of w of [a, b, c, d] \<Rightarrow> word_of_octets a b c d | _ \<Rightarrow> 0) = w"
proof -
  let ?n = "unat w"
  have "((?n div 16777216 * 256 + ?n div 65536 mod 256) * 256 + ?n div 256 mod 256) * 256 + ?n mod 256 = ?n"
  proof -
    have d: "?n div 65536 = ?n div 256 div 256" "?n div 16777216 = ?n div 65536 div 256" by (simp_all add: div_mult2_eq [symmetric])
    have "?n div 16777216 * 256 + ?n div 65536 mod 256 = ?n div 65536" unfolding d(2) by (rule div_mult_mod_eq)
    moreover have "?n div 65536 * 256 + ?n div 256 mod 256 = ?n div 256" unfolding d(1) by (rule div_mult_mod_eq)
    ultimately show ?thesis by (simp add: div_mult_mod_eq)
  qed
  then show ?thesis unfolding octets_of_def word_of_octets_def list.case by (simp only: of_nat_unat ucast_id)
qed

lemma octets_of_bound: "n \<in> set (octets_of w) \<Longrightarrow> n \<le> 255"
proof -
  have "unat w < 2 ^ 32" using unsigned_less [of w] by simp
  then have "unat w div 16777216 \<le> 255" by (simp add: less_mult_imp_div_less less_Suc_eq_le [symmetric])
  then show "n \<in> set (octets_of w) \<Longrightarrow> n \<le> 255"
    by (auto simp: octets_of_def less_Suc_eq_le [symmetric])
qed

lemma parse_ipv4_string: "parse_ipv4 (ip_string (IPv4 w)) = Some w"
proof -
  have "split_on CHR ''.'' (ip_string (IPv4 w)) = map (format_nat 10) (octets_of w)"
    unfolding ip_string.simps by (rule split_join) (auto simp: octets_of_def dest: dec_digit_chars)
  moreover have "map octet (map (format_nat 10) (octets_of w)) = map Some (octets_of w)"
    using octets_of_bound octet_format by simp
  ultimately show ?thesis
    using word_of_octets_of [of w] by (simp add: parse_ipv4_def octets_of_def)
qed

section \<open>IPv6\<close>

subsection \<open>Groups\<close>

lemma groups_of_length [simp]: "length (groups_of w) = 8"
  by (simp add: groups_of_def)

lemma groups_of_bound: "g \<in> set (groups_of w) \<Longrightarrow> g < 65536"
  by (auto simp: groups_of_def)

lemma horner_step: "(n :: nat) div (b ^ Suc k) * b + n div b ^ k mod b = n div b ^ k"
  by (metis div_mult_mod_eq div_mult2_eq power_Suc2)

lemma horner: "foldl (\<lambda>acc g. acc * b + g) (n div b ^ k) (map (\<lambda>i. n div b ^ (k - 1 - i) mod b) [0..<k]) = (n :: nat)"
proof (induction k)
  case (Suc k)
  have "map (\<lambda>i. n div b ^ (Suc k - 1 - i) mod b) [0..<Suc k] = (n div b ^ k mod b) # map (\<lambda>i. n div b ^ (k - 1 - i) mod b) [0..<k]"
    by (simp add: upt_conv_Cons map_Suc_upt [symmetric] del: upt_Suc)
  then show ?case using Suc horner_step [of n b k] by simp
qed simp

lemma word_of_groups_of: "word_of_groups (groups_of w) = w"
proof -
  have "unat w < 2 ^ 128" using unsigned_less [of w] by simp
  then have "unat w div 65536 ^ 8 = 0" by simp
  then have "foldl (\<lambda>acc g. acc * 65536 + g) 0 (groups_of w) = unat w"
    using horner [of 65536 "unat w" 8] by (simp add: groups_of_def)
  then show ?thesis by (simp add: word_of_groups_def)
qed

subsection \<open>The zero run\<close>

lemma zero_run_bound: "i \<le> length gs \<Longrightarrow> i + zero_run gs i \<le> length gs"
  unfolding zero_run_def using length_takeWhile_le [of "\<lambda>g. g = 0" "drop i gs"] by simp

lemma zero_run_zeros: "drop i gs = replicate (zero_run gs i) 0 @ drop (i + zero_run gs i) gs"
proof -
  let ?d = "drop i gs"
  have "takeWhile (\<lambda>g. g = 0) ?d = replicate (length (takeWhile (\<lambda>g. g = 0) ?d)) 0"
    by (rule replicate_length_same [symmetric]) (auto dest: set_takeWhileD)
  moreover have "?d = takeWhile (\<lambda>g. g = 0) ?d @ drop (length (takeWhile (\<lambda>g. g = 0) ?d)) ?d"
    by (metis dropWhile_eq_drop takeWhile_dropWhile_id)
  ultimately show ?thesis by (metis add.commute drop_drop zero_run_def)
qed

lemma best_run_Some:
  assumes "best_run gs = Some (a, b)"
  shows "a + 2 \<le> b" "b \<le> length gs" "gs = take a gs @ replicate (b - a) 0 @ drop b gs"
proof -
  let ?f = "\<lambda>best i. let l = zero_run gs i; cur = (case best of None \<Rightarrow> 0 | Some (a, b) \<Rightarrow> b - a)
         in if 2 \<le> l \<and> cur < l then Some (i, i + l) else best"
  have run: "\<exists>i < length gs. foldl ?f None is = Some (a, b) \<longrightarrow> a = i \<and> b = i + zero_run gs i \<and> 2 \<le> zero_run gs i"
    if "set is \<subseteq> {0..<length gs}" "foldl ?f None is = Some (a, b)" for "is" a b
    using that
  proof (induction "is" arbitrary: a b rule: rev_induct)
    case (snoc i "is")
    then show ?case by (auto simp: Let_def split: if_splits)
  qed simp
  obtain i where i: "i < length gs" "a = i" "b = i + zero_run gs i" "2 \<le> zero_run gs i"
    using run [of "[0..<length gs]" a b] assms by (auto simp: best_run_def)
  then show "a + 2 \<le> b" "b \<le> length gs" using zero_run_bound [of i gs] by auto
  show "gs = take a gs @ replicate (b - a) 0 @ drop b gs"
    using zero_run_zeros [of i gs] i by (metis add_diff_cancel_left' append_take_drop_id)
qed

subsection \<open>Reading the groups back\<close>

lemma show_groups_Cons: "gs \<noteq> [] \<Longrightarrow> show_groups (g # gs) = format_nat 16 g @ CHR '':'' # show_groups gs"
  by (cases gs) (simp_all add: show_groups_def)

lemma show_groups_hd: "gs \<noteq> [] \<Longrightarrow> \<exists>c cs. show_groups gs = c # cs \<and> is_hex c \<and> c \<noteq> CHR '':''"
proof -
  assume "gs \<noteq> []"
  then obtain g hs where gs: "gs = g # hs" by (cases gs) auto
  obtain c cs where f: "format_nat 16 g = c # cs" by (cases "format_nat 16 g") auto
  then have "is_hex c" "c \<noteq> CHR '':''" using hex_digit_chars [of c g] by auto
  with f gs show ?thesis by (cases hs) (auto simp: show_groups_def)
qed

lemma show_groups_empty [simp]: "show_groups gs = [] \<longleftrightarrow> gs = []"
proof (cases "gs = []")
  case False
  with show_groups_hd [OF this] show ?thesis by auto
qed (simp add: show_groups_def)

lemma show_groups_Nil [simp]: "show_groups [] = []"
  by simp

lemma show_groups_chars: "c \<in> set (show_groups gs) \<Longrightarrow> is_hex c \<or> c = CHR '':''"
proof (induction gs)
  case (Cons g gs)
  then show ?case
    by (cases "gs = []") (auto simp: show_groups_Cons dest: hex_digit_chars(1), auto simp: show_groups_def dest: hex_digit_chars(1))
qed (simp add: show_groups_def)

text \<open>One group in front of a colon or the end.\<close>

lemma v6_group:
  assumes "g < 65536" "rest = [] \<or> hd rest = CHR '':''"
  shows "takeWhile is_hex (format_nat 16 g @ rest) = format_nat 16 g" "dropWhile is_hex (format_nat 16 g @ rest) = rest"
    "length (format_nat 16 g) \<le> 4" "parse_digits 16 0 (format_nat 16 g) = Some g"
proof -
  have "\<not> is_hex CHR '':''" by code_simp
  then have r: "rest = [] \<or> \<not> is_hex (hd rest)" using assms(2) by auto
  have "\<forall>c \<in> set (format_nat 16 g). is_hex c" using hex_digit_chars(1) by blast
  then show "takeWhile is_hex (format_nat 16 g @ rest) = format_nat 16 g" "dropWhile is_hex (format_nat 16 g @ rest) = rest"
    using r by (cases rest; simp add: takeWhile_append2 dropWhile_append2)+
  show "length (format_nat 16 g) \<le> 4" using assms(1) by (intro format_nat_length) simp_all
  show "parse_digits 16 0 (format_nat 16 g) = Some g" by (rule parse_format_nat) simp_all
qed

lemma v6_groups_Suc:
  assumes "g < 65536" "rest = [] \<or> hd rest = CHR '':''"
  shows "v6_groups (Suc k) gs el (format_nat 16 g @ rest) =
    (case rest of
       [] \<Rightarrow> Some (gs @ [g], el, [])
     | [c] \<Rightarrow> None
     | c # d # more \<Rightarrow>
         if d = CHR '':'' then
           (if el \<noteq> None then None
            else if more = [] then Some (gs @ [g], Some (Suc (length gs)), [])
            else v6_groups k (gs @ [g]) (Some (Suc (length gs))) more)
         else v6_groups k (gs @ [g]) el (d # more))"
  using v6_group [OF assms] assms(2) format_nat_not_Nil [of 16 g]
  by (auto simp: Let_def split: list.splits)

lemma v6_groups_show:
  "hs \<noteq> [] \<Longrightarrow> length hs \<le> k \<Longrightarrow> (\<And>h. h \<in> set hs \<Longrightarrow> h < 65536) \<Longrightarrow> v6_groups k gs el (show_groups hs) = Some (gs @ hs, el, [])"
proof (induction hs arbitrary: k gs)
  case (Cons h hs)
  obtain j where k: "k = Suc j" using Cons.prems(2) by (cases k) auto
  have h: "h < 65536" using Cons.prems(3) by simp
  show ?case
  proof (cases "hs = []")
    case True
    with v6_groups_Suc [OF h, of "[]" j gs el] k show ?thesis by (simp add: show_groups_def)
  next
    case False
    then obtain c cs where c: "show_groups hs = c # cs" "c \<noteq> CHR '':''" using show_groups_hd by blast
    have "v6_groups j (gs @ [h]) el (show_groups hs) = Some ((gs @ [h]) @ hs, el, [])"
      using Cons.IH [of j "gs @ [h]"] False Cons.prems k by simp
    with v6_groups_Suc [OF h, of "CHR '':'' # show_groups hs" j gs el] c k False show ?thesis by (simp add: show_groups_Cons)
  qed
qed simp

lemma v6_groups_ellipsis:
  assumes "as \<noteq> []" "length as + length bs < k" "\<And>h. h \<in> set as \<union> set bs \<Longrightarrow> h < 65536"
  shows "v6_groups k gs None (show_groups as @ ''::'' @ show_groups bs) = Some (gs @ as @ bs, Some (length gs + length as), [])"
  using assms
proof (induction "as" arbitrary: k gs)
  case (Cons a "as")
  obtain j where k: "k = Suc j" using Cons.prems(2) by (cases k) auto
  have a: "a < 65536" using Cons.prems(3) by simp
  show ?case
  proof (cases "as = []")
    case True
    have "v6_groups j (gs @ [a]) (Some (Suc (length gs))) (show_groups bs) = Some ((gs @ [a]) @ bs, Some (Suc (length gs)), [])" if "bs \<noteq> []"
      using that v6_groups_show [of bs j "gs @ [a]"] Cons.prems k by simp
    then show ?thesis using v6_groups_Suc [OF a, of "''::'' @ show_groups bs" j gs None] k True
      by (simp add: show_groups_def [of "[a]"])
  next
    case False
    then obtain c cs where c: "show_groups as = c # cs" "c \<noteq> CHR '':''" using show_groups_hd by blast
    have "v6_groups j (gs @ [a]) None (show_groups as @ ''::'' @ show_groups bs) = Some ((gs @ [a]) @ as @ bs, Some (length (gs @ [a]) + length as), [])"
      using False Cons.prems k by (intro Cons.IH) auto
    with v6_groups_Suc [OF a, of "CHR '':'' # show_groups as @ ''::'' @ show_groups bs" j gs None] c k False show ?thesis
      by (simp add: show_groups_Cons)
  qed
qed simp

lemma not_colons: "as \<noteq> [] \<Longrightarrow> \<not> has_prefix (show_groups as @ rest) ''::''"
  using show_groups_hd [of "as"] by (auto simp: has_prefix_def)

text \<open>The groups of what is printed are the groups.\<close>

lemma parse_groups_string:
  assumes "length gs = 8" "\<And>g. g \<in> set gs \<Longrightarrow> g < 65536"
  shows "parse_groups (case best_run gs of None \<Rightarrow> show_groups gs | Some (a, b) \<Rightarrow> show_groups (take a gs) @ ''::'' @ show_groups (drop b gs)) = Some gs"
proof (cases "best_run gs")
  case None
  have "v6_groups 8 [] None (show_groups gs) = Some ([] @ gs, None, [])" using assms by (intro v6_groups_show) auto
  moreover have "gs \<noteq> []" using assms(1) by auto
  ultimately show ?thesis using assms(1) None not_colons [of gs "[]"] by (simp add: parse_groups_def expand_groups_def)
next
  case (Some ab)
  obtain a b where ab: "best_run gs = Some (a, b)" using Some by (cases ab) simp
  note run = best_run_Some [OF ab]
  let ?as = "take a gs" and ?bs = "drop b gs"
  have len: "length ?as = a" "length ?as + length ?bs < 8" "8 - (a + (8 - b)) = b - a" "length ?bs = 8 - b" using run(1,2) assms(1) by auto
  have bound: "h < 65536" if "h \<in> set ?as \<union> set ?bs" for h using that assms(2) by (auto dest: in_set_takeD in_set_dropD)
  have groups: "gs = ?as @ replicate (b - a) 0 @ ?bs" by (rule run(3))
  show ?thesis
  proof (cases "?as = []")
    case True
    then have a: "a = 0" using assms(1) by auto
    have "v6_groups 8 [] (Some 0) (show_groups ?bs) = Some ([] @ ?bs, Some 0, [])" if "?bs \<noteq> []"
      using that bound len by (intro v6_groups_show) auto
    then show ?thesis using True groups ab a len
      by (cases "?bs = []") (simp_all add: parse_groups_def expand_groups_def has_prefix_def)
  next
    case False
    have "v6_groups 8 [] None (show_groups ?as @ ''::'' @ show_groups ?bs) = Some ([] @ ?as @ ?bs, Some (length ([] :: nat list) + length ?as), [])"
      using False len bound by (intro v6_groups_ellipsis) auto
    then have "parse_groups (show_groups ?as @ ''::'' @ show_groups ?bs) = Some (take a (?as @ ?bs) @ replicate (8 - length (?as @ ?bs)) 0 @ drop a (?as @ ?bs))"
      using not_colons [OF False, of "''::'' @ show_groups ?bs"] len by (simp add: parse_groups_def expand_groups_def)
    also have "\<dots> = Some gs" using groups len by simp
    finally show ?thesis using ab by simp
  qed
qed

section \<open>The round trip\<close>

lemma parse_ipv6_string: "parse_ipv6 (ip_string (IPv6 w)) = Some w"
proof -
  have "parse_groups (ip_string (IPv6 w)) = Some (groups_of w)"
    unfolding ip_string.simps Let_def by (rule parse_groups_string) (auto dest: groups_of_bound)
  then show ?thesis by (simp add: parse_ipv6_def word_of_groups_of)
qed

lemma ipv6_string_chars: "c \<in> set (ip_string (IPv6 w)) \<Longrightarrow> is_hex c \<or> c = CHR '':''"
  by (auto simp: Let_def dest: show_groups_chars split: option.splits prod.splits)

lemma ipv6_string_colon: "CHR '':'' \<in> set (ip_string (IPv6 w))"
proof (cases "best_run (groups_of w)")
  case None
  have "groups_of w = hd (groups_of w) # tl (groups_of w)" "tl (groups_of w) \<noteq> []"
    by (simp_all add: groups_of_def upt_conv_Cons)
  then have "show_groups (groups_of w) = format_nat 16 (hd (groups_of w)) @ CHR '':'' # show_groups (tl (groups_of w))"
    using show_groups_Cons by metis
  with None show ?thesis by (simp add: Let_def)
qed (auto simp: Let_def)

lemma ipv4_string_chars: "c \<in> set (ip_string (IPv4 w)) \<Longrightarrow> c \<noteq> CHR '':'' \<and> c \<noteq> CHR ''%''"
  by (auto simp: octets_of_def dest: dec_digit_chars)

lemma parse_addr_by:
  assumes "CHR ''%'' \<notin> set s" "d \<in> set s" "d = CHR ''.'' \<or> d = CHR '':''" "e = CHR ''.'' \<or> e = CHR '':''" "d \<noteq> e" "e \<notin> set s"
  shows "parse_addr s = (if d = CHR ''.'' then map_option IPv4 (parse_ipv4 s) else map_option IPv6 (parse_ipv6 s))"
proof -
  let ?p = "\<lambda>c. c \<noteq> CHR ''.'' \<and> c \<noteq> CHR '':''"
  obtain c cs where c: "dropWhile ?p s = c # cs"
    using assms(2,3) by (cases "dropWhile ?p s") (auto simp: dropWhile_eq_Nil_conv)
  have "\<not> ?p c" using hd_dropWhile [of ?p s] c by simp
  moreover have "c \<in> set s" using set_dropWhileD [of c ?p s] c by simp
  ultimately have "c = d" using assms(3-6) by metis
  with c assms(1,3) show ?thesis by (auto simp: parse_addr_def)
qed

lemma parse_addr_string: "parse_addr (ip_string a) = Some a"
proof (cases a)
  case (IPv4 w)
  have "CHR ''.'' \<in> set (ip_string (IPv4 w))" by (simp add: octets_of_def)
  then show ?thesis using parse_addr_by [of "ip_string (IPv4 w)" "CHR ''.''" "CHR '':''"] ipv4_string_chars parse_ipv4_string [of w] IPv4
    by (simp del: ip_string.simps) (metis option.simps(9))
next
  case (IPv6 w)
  have "\<not> is_hex CHR ''.''" "\<not> is_hex CHR ''%''" by code_simp+
  then have "CHR ''.'' \<notin> set (ip_string (IPv6 w))" "CHR ''%'' \<notin> set (ip_string (IPv6 w))"
    using ipv6_string_chars [of _ w] by auto
  then show ?thesis
    using parse_addr_by [of "ip_string (IPv6 w)" "CHR '':''" "CHR ''.''"] ipv6_string_colon [of w] parse_ipv6_string [of w] IPv6
    by (simp del: ip_string.simps)
qed

theorem parse_ip_string: "is_canon a \<Longrightarrow> parse_ip (ip_string a) = Some a"
  by (simp add: parse_ip_def parse_addr_string canon_ip_fix)

lemma ip_string_inj: "ip_string a = ip_string b \<longleftrightarrow> a = b"
  by (metis option.inject parse_addr_string)

end
