(* ===== verification/ClientKey.thy ===== *)
theory ClientKey
  imports RateLimit IpText
begin

text \<open>
  The bucket key of a client (\<open>limiterIP\<close> of \<open>app/internal/security/rate.limit.go\<close>): which clients share a
  bucket of the per-client limit.
\<close>

lemma mask64_eq_iff: "mask64 v = mask64 w \<longleftrightarrow> drop_bit 64 v = drop_bit 64 w"
proof -
  have m: "mask64 x = push_bit 64 (drop_bit 64 x)" for x :: "128 word"
    by (rule bit_eqI) (auto simp: mask64_def bit_and_iff bit_not_iff bit_mask_iff bit_push_bit_iff bit_drop_bit_eq)
  have d: "drop_bit 64 (mask64 x) = drop_bit 64 x" for x :: "128 word"
    by (rule bit_eqI) (auto simp: mask64_def bit_and_iff bit_not_iff bit_mask_iff bit_drop_bit_eq dest: bit_imp_le_length)
  show ?thesis by (metis m d)
qed

text \<open>The key as an address: it is one of a canonical address exactly when the client parses.\<close>

lemma limiterIP_parsed:
  assumes "parse_ip s = Some a"
  defines "b \<equiv> (case a of IPv4 w \<Rightarrow> IPv4 w | IPv6 w \<Rightarrow> IPv6 (mask64 w))"
  shows "limiterIP s = ip_string b" "parse_ip (limiterIP s) = Some b"
proof -
  have "is_canon b" using parse_ip_canon [OF assms(1)] mask64_not_mapped by (auto simp: b_def is_canon_def split: ipaddr.splits)
  moreover show "limiterIP s = ip_string b" using assms by (simp add: limiterIP_def split: ipaddr.splits)
  ultimately show "parse_ip (limiterIP s) = Some b" by (simp add: parse_ip_string)
qed

lemma limiterIP_raw: "parse_ip s = None \<Longrightarrow> limiterIP s = s"
  by (simp add: limiterIP_def)

text \<open>C11: Two clients share a bucket exactly when they are the same IPv4 address, however it is written, or IPv6 addresses of
  one /64 network, or the same text that is no address.\<close>

theorem limiter_key_classes:
  "limiterIP s = limiterIP t \<longleftrightarrow>
     (case (parse_ip s, parse_ip t) of
        (None, None) \<Rightarrow> s = t
      | (Some (IPv4 v), Some (IPv4 w)) \<Rightarrow> v = w
      | (Some (IPv6 v), Some (IPv6 w)) \<Rightarrow> drop_bit 64 v = drop_bit 64 w
      | _ \<Rightarrow> False)"
proof (cases "parse_ip s"; cases "parse_ip t")
  fix a b
  assume p: "parse_ip s = Some a" "parse_ip t = Some b"
  show ?thesis using limiterIP_parsed(1) [OF p(1)] limiterIP_parsed(1) [OF p(2)] p
    by (cases a; cases b) (simp_all add: ip_string_inj mask64_eq_iff del: ip_string.simps)
next
  fix a
  assume p: "parse_ip s = Some a" "parse_ip t = None"
  then show ?thesis using limiterIP_parsed(2) [OF p(1)] limiterIP_raw [OF p(2)] by (auto split: ipaddr.split)
next
  fix b
  assume p: "parse_ip s = None" "parse_ip t = Some b"
  then show ?thesis using limiterIP_parsed(2) [OF p(2)] limiterIP_raw [OF p(1)] by (auto split: ipaddr.split)
qed (simp add: limiterIP_raw)

lemma limiter_key_classes_witness:
  "limiterIP ''2001:db8::1'' = limiterIP ''2001:DB8:0:0:ffff::2'' \<and> limiterIP ''::ffff:192.0.2.1'' = limiterIP ''192.0.2.1'' \<and>
   limiterIP ''2001:db8::1'' \<noteq> limiterIP ''2001:db8:0:1::1''"
proof -
  have "parse_ip ''2001:db8::1'' = Some (IPv6 0x20010DB8000000000000000000000001)"
    "parse_ip ''2001:DB8:0:0:ffff::2'' = Some (IPv6 0x20010DB800000000FFFF000000000002)"
    "parse_ip ''2001:db8:0:1::1'' = Some (IPv6 0x20010DB8000000010000000000000001)"
    "parse_ip ''::ffff:192.0.2.1'' = parse_ip ''192.0.2.1''" "parse_ip ''192.0.2.1'' = Some (IPv4 0xC0000201)" by code_simp+
  then show ?thesis by (simp add: limiter_key_classes)
qed

end
