(* ===== verification/MetricsText.thy ===== *)
theory MetricsText
  imports Metrics GoFloat "HOL-Library.Char_ord" "HOL-Library.List_Lexorder" "HOL-Library.Sublist"
begin

text \<open>
  The text of \<open>Metrics.Handler\<close> (\<open>app/internal/common/metrics.go\<close>): the lines it prints, and what of them
  is written when the connection fails.  The verbs of package fmt it uses are \<open>%q\<close> (\<open>strconv.Quote\<close>),
  \<open>%d\<close> and \<open>%f\<close>.  Parameters: \<open>printable\<close>, the Unicode table behind \<open>strconv.IsPrint\<close> for characters
  outside ASCII, and the rounding of float64.
\<close>

section \<open>Package unicode/utf8\<close>

definition byte :: "char \<Rightarrow> nat" where
  "byte c = of_char c"

definition cont :: "nat \<Rightarrow> nat \<Rightarrow> char \<Rightarrow> bool" where
  "cont lo hi c \<longleftrightarrow> lo \<le> byte c \<and> byte c \<le> hi"

text \<open>The first rune of a string that does not start with an ASCII byte, with its width; None for an invalid one.\<close>

definition decode_rune :: "string \<Rightarrow> (nat \<times> nat) option" where
  "decode_rune s =
     (case s of
        [] \<Rightarrow> None
      | a # rest \<Rightarrow>
          (let n = byte a;
               lo = (if n = 0xE0 then 0xA0 else if n = 0xF0 then 0x90 else 0x80);
               hi = (if n = 0xED then 0x9F else if n = 0xF4 then 0x8F else 0xBF)
           in case rest of
                [] \<Rightarrow> None
              | b # bs \<Rightarrow>
                  if 0xC2 \<le> n \<and> n \<le> 0xDF \<and> cont lo hi b then Some ((n - 0xC0) * 64 + (byte b - 0x80), 2)
                  else
                    (case bs of
                       [] \<Rightarrow> None
                     | c # bs \<Rightarrow>
                         if 0xE0 \<le> n \<and> n \<le> 0xEF \<and> cont lo hi b \<and> cont 0x80 0xBF c
                         then Some (((n - 0xE0) * 64 + (byte b - 0x80)) * 64 + (byte c - 0x80), 3)
                         else
                           (case bs of
                              [] \<Rightarrow> None
                            | d # _ \<Rightarrow>
                                if 0xF0 \<le> n \<and> n \<le> 0xF4 \<and> cont lo hi b \<and> cont 0x80 0xBF c \<and> cont 0x80 0xBF d
                                then Some ((((n - 0xF0) * 64 + (byte b - 0x80)) * 64 + (byte c - 0x80)) * 64 + (byte d - 0x80), 4)
                                else None))))"

lemma decode_rune_width: "decode_rune s = Some (r, w) \<Longrightarrow> 2 \<le> w \<and> w \<le> length s"
  by (auto simp: decode_rune_def Let_def split: list.splits if_splits)

section \<open>strconv.Quote\<close>

definition hex_pad :: "nat \<Rightarrow> nat \<Rightarrow> string" where
  "hex_pad k n = map (\<lambda>i. digit_char (n div 16 ^ (k - 1 - i) mod 16)) [0..<k]"

definition escape_ascii :: "char \<Rightarrow> string" where
  "escape_ascii c =
     (if c = CHR 0x22 \<or> c = CHR 0x5C then [CHR 0x5C, c]
      else if 0x20 \<le> byte c \<and> byte c < 0x7F then [c]
      else if byte c = 7 then [CHR 0x5C, CHR ''a'']
      else if byte c = 8 then [CHR 0x5C, CHR ''b'']
      else if byte c = 12 then [CHR 0x5C, CHR ''f'']
      else if byte c = 10 then [CHR 0x5C, CHR ''n'']
      else if byte c = 13 then [CHR 0x5C, CHR ''r'']
      else if byte c = 9 then [CHR 0x5C, CHR ''t'']
      else if byte c = 11 then [CHR 0x5C, CHR ''v'']
      else CHR 0x5C # CHR ''x'' # hex_pad 2 (byte c))"

definition escape_rune :: "nat \<Rightarrow> string" where
  "escape_rune r =
     (if r < 0x10000 then CHR 0x5C # CHR ''u'' # hex_pad 4 r else CHR 0x5C # CHR ''U'' # hex_pad 8 r)"

function quote_body :: "(nat \<Rightarrow> bool) \<Rightarrow> string \<Rightarrow> string" where
  "quote_body printable [] = []"
| "quote_body printable (c # s) =
     (if byte c < 0x80 then escape_ascii c @ quote_body printable s
      else
        (case decode_rune (c # s) of
           None \<Rightarrow> CHR 0x5C # CHR ''x'' # hex_pad 2 (byte c) @ quote_body printable s
         | Some (r, w) \<Rightarrow>
             (if printable r then take w (c # s) else escape_rune r) @ quote_body printable (drop w (c # s))))"
  by pat_completeness auto
termination
  by (relation "measure (length \<circ> snd)") (auto dest: decode_rune_width)

definition quote :: "(nat \<Rightarrow> bool) \<Rightarrow> string \<Rightarrow> string" where
  "quote printable s = CHR 0x22 # quote_body printable s @ [CHR 0x22]"

section \<open>The verbs d and f\<close>

definition show_u64 :: "64 word \<Rightarrow> string" where
  "show_u64 w = format_nat 10 (unat w)"

text \<open>\<open>%f\<close>: six decimals, the exact value rounded to the nearest, ties to even.\<close>

definition dec_pad :: "nat \<Rightarrow> nat \<Rightarrow> string" where
  "dec_pad k n = map (\<lambda>i. digit_char (n div 10 ^ (k - 1 - i) mod 10)) [0..<k]"

definition show_f :: "real \<Rightarrow> string" where
  "show_f x =
     (let n = nat (round_even (\<bar>x\<bar> * 1000000))
      in (if x < 0 then ''-'' else '''') @ format_nat 10 (n div 1000000) @ ''.'' @ dec_pad 6 (n mod 1000000))"

section \<open>The handler\<close>

definition requests_line :: "(nat \<Rightarrow> bool) \<Rightarrow> string \<times> 64 word \<Rightarrow> string" where
  "requests_line printable = (\<lambda>(route, n). ''leoxy_requests_total{route='' @ quote printable route @ ''} '' @ show_u64 n)"

definition responses_line :: "(nat \<Rightarrow> bool) \<Rightarrow> int \<times> 64 word \<Rightarrow> string" where
  "responses_line printable = (\<lambda>(status, n). ''leoxy_responses_total{status='' @ quote printable (itoa status) @ ''} '' @ show_u64 n)"

definition counter_lines :: "(nat \<Rightarrow> bool) \<Rightarrow> metrics \<Rightarrow> string list" where
  "counter_lines printable m =
     ''# TYPE leoxy_requests_total counter'' # map (requests_line printable) (samples (me_requests m)) @
     ''# TYPE leoxy_responses_total counter'' # map (responses_line printable) (samples (me_status m))"

definition gauge_lines :: "(real \<Rightarrow> real) \<Rightarrow> metrics \<Rightarrow> string list" where
  "gauge_lines rnd m =
     [''leoxy_request_duration_seconds_total '' @ show_f (dur_seconds rnd (me_requestTime m)),
      ''# TYPE leoxy_memory_bytes gauge'',
      ''leoxy_memory_bytes '' @ show_u64 (me_memoryBytes m)]"

abbreviation newline :: char where
  "newline \<equiv> CHR 0x0A"

text \<open>The bytes of one write: all of the line, or those that got through before it failed.\<close>

definition write_line :: "nat option \<Rightarrow> string \<Rightarrow> string \<times> bool" where
  "write_line failed l =
     (case failed of
        None \<Rightarrow> (l @ [newline], True)
      | Some k \<Rightarrow> (take k (l @ [newline]), False))"

fun put_lines :: "(nat \<Rightarrow> nat option) \<Rightarrow> nat \<Rightarrow> string list \<Rightarrow> string \<times> bool" where
  "put_lines failed i [] = ([], True)"
| "put_lines failed i (l # ls) =
     (case write_line (failed i) l of
        (t, ok) \<Rightarrow>
          if \<not> ok then (t, False)
          else (case put_lines failed (Suc i) ls of (t', ok') \<Rightarrow> (t @ t', ok')))"

text \<open>The text that reaches the client, where \<open>failed i\<close> says whether the i-th write fails and after how many bytes: the
  counters stop at the first failure, the last three lines are written whatever becomes of them.\<close>

definition Handler :: "(nat \<Rightarrow> bool) \<Rightarrow> (real \<Rightarrow> real) \<Rightarrow> (nat \<Rightarrow> nat option) \<Rightarrow> metrics \<Rightarrow> string" where
  "Handler printable rnd failed m =
     (let body = counter_lines printable m in
      case put_lines failed 0 body of
        (t, ok) \<Rightarrow>
          if \<not> ok then t
          else t @ concat (map (\<lambda>(i, l). fst (write_line (failed i) l)) (enumerate (length body) (gauge_lines rnd m))))"

definition exposition :: "string list \<Rightarrow> string" where
  "exposition ls = concat (map (\<lambda>l. l @ [newline]) ls)"

section \<open>A reader of the text format\<close>

text \<open>Version 0.0.4 of the Prometheus text format, which the handler announces: a label value stands between double quotes
  and knows three escapes, for the backslash, the double quote and the line feed; any other one is an error.\<close>

fun read_label :: "string \<Rightarrow> (string \<times> string) option" where
  "read_label [] = None"
| "read_label (c # s) =
     (if c = CHR 0x22 then Some ([], s)
      else if c = newline then None
      else if c = CHR 0x5C then
        (case s of
           [] \<Rightarrow> None
         | d # t \<Rightarrow>
             if d = CHR 0x5C \<or> d = CHR 0x22 then map_option (apfst (Cons d)) (read_label t)
             else if d = CHR ''n'' then map_option (apfst (Cons newline)) (read_label t)
             else None)
      else map_option (apfst (Cons c)) (read_label s))"

text \<open>A sample with one label and an integer value: metric, label, the label's value and the sample's.\<close>

definition read_sample :: "string \<Rightarrow> (string \<times> string \<times> string \<times> nat) option" where
  "read_sample l =
     (case cut_at CHR ''{'' l of
        None \<Rightarrow> None
      | Some (metric, rest) \<Rightarrow>
          (case cut_at CHR ''='' rest of
             None \<Rightarrow> None
           | Some (label, v) \<Rightarrow>
               if \<not> has_prefix v [CHR 0x22] then None
               else
                 (case read_label (drop 1 v) of
                    None \<Rightarrow> None
                  | Some (val, t) \<Rightarrow>
                      if \<not> has_prefix t ''} '' \<or> drop 2 t = [] then None
                      else map_option (\<lambda>n. (metric, label, val, n)) (parse_digits 10 0 (drop 2 t)))))"

text \<open>The labels \<open>strconv.Quote\<close> writes in that format: printable ASCII, line feeds, and printable runes of valid UTF-8.\<close>

definition readable_ascii :: "char \<Rightarrow> bool" where
  "readable_ascii c \<longleftrightarrow> (0x20 \<le> byte c \<and> byte c < 0x7F) \<or> c = newline"

function readable :: "(nat \<Rightarrow> bool) \<Rightarrow> string \<Rightarrow> bool" where
  "readable printable [] = True"
| "readable printable (c # s) =
     (if byte c < 0x80 then readable_ascii c \<and> readable printable s
      else
        (case decode_rune (c # s) of
           None \<Rightarrow> False
         | Some (r, w) \<Rightarrow> printable r \<and> readable printable (drop w (c # s))))"
  by pat_completeness auto
termination
  by (relation "measure (length \<circ> snd)") (auto dest: decode_rune_width)

section \<open>Quoting and reading\<close>

lemma digit_char_plain: "d < 16 \<Longrightarrow> digit_char d \<noteq> CHR 0x22 \<and> digit_char d \<noteq> CHR 0x5C \<and> digit_char d \<noteq> newline"
proof -
  assume "d < 16"
  moreover have "list_all (\<lambda>d. digit_char d \<noteq> CHR 0x22 \<and> digit_char d \<noteq> CHR 0x5C \<and> digit_char d \<noteq> newline) [0..<16]" by code_simp
  ultimately show ?thesis by (simp add: list_all_iff)
qed

lemma newline_hex_pad [simp]: "newline \<notin> set (hex_pad k n)"
proof
  assume "newline \<in> set (hex_pad k n)"
  then obtain d where "newline = digit_char (d mod 16)" by (auto simp: hex_pad_def)
  then show False using digit_char_plain [of "d mod 16"] by simp
qed

lemma byte_newline: "byte c = 10 \<longleftrightarrow> c = newline"
proof -
  have "byte newline = 10" by code_simp
  then show ?thesis unfolding byte_def by (metis of_char_eq_iff)
qed

lemma newline_escapes [simp]: "newline \<notin> set (escape_ascii c)" "newline \<notin> set (escape_rune r)"
  using byte_newline [of c] by (auto simp: escape_ascii_def escape_rune_def)

lemma decode_rune_bytes: "decode_rune s = Some (r, w) \<Longrightarrow> 0x80 \<le> byte (hd s) \<Longrightarrow> c \<in> set (take w s) \<Longrightarrow> 0x80 \<le> byte c"
  by (auto simp: decode_rune_def cont_def Let_def split: list.splits if_splits)

lemma high_byte_plain: "0x80 \<le> byte c \<Longrightarrow> c \<noteq> CHR 0x22 \<and> c \<noteq> CHR 0x5C \<and> c \<noteq> newline"
proof -
  have "byte CHR 0x22 < 0x80" "byte CHR 0x5C < 0x80" "byte newline < 0x80" by code_simp+
  then show "0x80 \<le> byte c \<Longrightarrow> ?thesis" by auto
qed

lemma newline_quote_body: "newline \<notin> set (quote_body printable s)"
proof (induction s rule: quote_body.induct [of "\<lambda>_ s. newline \<notin> set (quote_body printable s)" for printable])
  case (2 printable c s)
  show ?case
  proof (cases "byte c < 0x80")
    case True
    with 2 show ?thesis by simp
  next
    case high: False
    show ?thesis
    proof (cases "decode_rune (c # s)")
      case None
      with high 2 show ?thesis by simp
    next
      case (Some rw)
      obtain r w where rw: "rw = (r, w)" by (cases rw)
      have "newline \<notin> set (take w (c # s))"
        using decode_rune_bytes [of "c # s" r w newline] high_byte_plain [of newline] Some rw high by auto
      with Some rw high 2 show ?thesis by auto
    qed
  qed
qed simp

lemma read_label_plain:
  "(\<And>c. c \<in> set xs \<Longrightarrow> c \<noteq> CHR 0x22 \<and> c \<noteq> CHR 0x5C \<and> c \<noteq> newline) \<Longrightarrow>
     read_label (xs @ rest) = map_option (apfst (append xs)) (read_label rest)"
proof (induction xs)
  case Nil
  show ?case by (cases "read_label rest") auto
next
  case (Cons x xs)
  then have "read_label (x # xs @ rest) = map_option (apfst (Cons x)) (read_label (xs @ rest))"
    by (auto simp del: map_option_is_None)
  with Cons show ?case by (simp add: option.map_comp comp_def apfst_def map_prod_def case_prod_unfold)
qed

lemma read_escaped: "d \<noteq> CHR 0x5C \<Longrightarrow> d \<noteq> CHR 0x22 \<Longrightarrow> d \<noteq> CHR ''n'' \<Longrightarrow> read_label (CHR 0x5C # d # t) = None"
  by simp

lemma read_escape_ascii:
  "read_label (escape_ascii c @ rest) = (if readable_ascii c then map_option (apfst (Cons c)) (read_label rest) else None)"
proof (cases "c = CHR 0x22 \<or> c = CHR 0x5C")
  case True
  then have "readable_ascii c" by (elim disjE; simp; code_simp)
  with True show ?thesis by (auto simp: escape_ascii_def)
next
  case other: False
  show ?thesis
  proof (cases "0x20 \<le> byte c \<and> byte c < 0x7F")
    case True
    then have "c \<noteq> newline" using byte_newline [of c] by auto
    with other True show ?thesis by (simp add: escape_ascii_def readable_ascii_def)
  next
    case control: False
    show ?thesis
    proof (cases "c = newline")
      case True
      have "byte newline = 10" by code_simp
      with True show ?thesis by (simp add: escape_ascii_def readable_ascii_def)
    next
      case False
      with other control byte_newline [of c] show ?thesis by (auto simp: escape_ascii_def readable_ascii_def)
    qed
  qed
qed

lemma read_label_quoted:
  "read_label (quote_body printable s @ CHR 0x22 # rest) = (if readable printable s then Some (s, rest) else None)"
proof (induction s rule: readable.induct [of "\<lambda>printable s.
    read_label (quote_body printable s @ CHR 0x22 # rest) = (if readable printable s then Some (s, rest) else None)"])
  case (2 printable c s)
  show ?case
  proof (cases "byte c < 0x80")
    case True
    with "2.IH"(1) show ?thesis by (simp add: read_escape_ascii)
  next
    case high: False
    show ?thesis
    proof (cases "decode_rune (c # s)")
      case None
      with high show ?thesis by simp
    next
      case (Some rw)
      obtain r w where rw: "rw = (r, w)" by (cases rw)
      show ?thesis
      proof (cases "printable r")
        case False
        with high Some rw show ?thesis by (simp add: escape_rune_def)
      next
        case True
        have "read_label (take w (c # s) @ quote_body printable (drop w (c # s)) @ CHR 0x22 # rest) =
            map_option (apfst (append (take w (c # s)))) (read_label (quote_body printable (drop w (c # s)) @ CHR 0x22 # rest))"
          using decode_rune_bytes [of "c # s" r w] high_byte_plain Some rw high by (intro read_label_plain) auto
        also have "\<dots> = (if readable printable (drop w (c # s)) then Some (c # s, rest) else None)"
          using "2.IH"(2) [OF high Some rw [symmetric]] by (simp del: readable.simps quote_body.simps)
        finally show ?thesis using high Some rw True by (simp del: take_Suc_Cons drop_Suc_Cons)
      qed
    qed
  qed
qed simp

section \<open>The lines\<close>

lemma newline_digits [simp]: "newline \<notin> set (format_nat 10 n)" "newline \<notin> set (dec_pad k n)"
proof -
  have d: "newline \<noteq> digit_char (d mod 10)" for d using digit_char_plain [of "d mod 10"] by fastforce
  then show "newline \<notin> set (dec_pad k n)" by (auto simp: dec_pad_def)
  show "newline \<notin> set (format_nat 10 n)"
  proof
    assume "newline \<in> set (format_nat 10 n)"
    then obtain j where "j < 10" "newline = digit_char j" using format_nat_chars [of 10] by auto
    with d [of j] show False by simp
  qed
qed

lemma newline_quote [simp]: "newline \<notin> set (quote printable s)"
  using newline_quote_body [of printable s] by (simp add: quote_def)

lemma newline_itoa [simp]: "newline \<notin> set (itoa n)"
  by (simp add: itoa_def)

lemma handler_lines: "l \<in> set (counter_lines printable m) \<union> set (gauge_lines rnd m) \<Longrightarrow> newline \<notin> set l"
  unfolding counter_lines_def gauge_lines_def
  by (elim UnE; simp; elim disjE imageE)
    (simp_all add: requests_line_def responses_line_def show_f_def show_u64_def Let_def split: prod.splits)

lemma put_lines_whole: "put_lines (\<lambda>_. None) i ls = (exposition ls, True)"
  by (induction ls arbitrary: i) (simp_all add: write_line_def exposition_def)

lemma Handler_whole: "Handler printable rnd (\<lambda>_. None) m = exposition (counter_lines printable m @ gauge_lines rnd m)"
  by (simp add: Handler_def put_lines_whole write_line_def exposition_def enumerate_eq_zip gauge_lines_def Let_def upt_rec [of _ "_ + _"])

text \<open>A failed write leaves a part of the counters; when none fails there they are all there.\<close>

lemma put_lines_prefix:
  "put_lines failed i ls = (t, ok) \<Longrightarrow> if ok then t = exposition ls else prefix t (exposition ls)"
proof (induction ls arbitrary: i t ok)
  case (Cons l ls)
  show ?case
  proof (cases "failed i")
    case None
    obtain t' ok' where rest: "put_lines failed (Suc i) ls = (t', ok')" by fastforce
    with None Cons.prems have "t = (l @ [newline]) @ t'" "ok = ok'" by (simp_all add: write_line_def)
    with Cons.IH [OF rest] show ?thesis by (cases ok') (auto simp: exposition_def)
  next
    case (Some k)
    with Cons.prems have "t = take k (l @ [newline])" "\<not> ok" by (simp_all add: write_line_def)
    moreover have "prefix (take k (l @ [newline])) (exposition (l # ls))"
      unfolding exposition_def list.map concat.simps by (rule prefix_order.trans [OF take_is_prefix]) simp
    ultimately show ?thesis by simp
  qed
qed (simp add: exposition_def)

lemma Handler_prefix:
  "prefix (Handler printable rnd failed m) (exposition (counter_lines printable m)) \<or>
   prefix (exposition (counter_lines printable m)) (Handler printable rnd failed m)"
proof -
  obtain t ok where t: "put_lines failed 0 (counter_lines printable m) = (t, ok)" by fastforce
  from put_lines_prefix [OF this] t show ?thesis by (cases ok) (simp_all add: Handler_def Let_def)
qed

lemma split_exposition: "(\<And>l. l \<in> set ls \<Longrightarrow> newline \<notin> set l) \<Longrightarrow> split_on newline (exposition ls) = ls @ [[]]"
proof (induction ls)
  case (Cons l ls)
  then have "split_on newline (l @ newline # exposition ls) = l # split_on newline (exposition ls)"
    by (intro split_on_append) simp
  with Cons show ?case by (simp add: exposition_def)
qed (simp add: exposition_def)

lemma read_sample_quoted:
  assumes "CHR ''{'' \<notin> set metric" "CHR ''='' \<notin> set label"
  shows "read_sample (metric @ CHR ''{'' # label @ CHR ''='' # quote printable s @ ''} '' @ show_u64 n) =
    (if readable printable s then Some (metric, label, s, unat n) else None)"
proof -
  have "show_u64 n \<noteq> []" by (simp add: show_u64_def)
  moreover have "parse_digits 10 0 (show_u64 n) = Some (unat n)" by (simp add: show_u64_def parse_format_nat)
  ultimately show ?thesis
    unfolding read_sample_def cut_at_append [OF assms(1)] option.case prod.case cut_at_append [OF assms(2)]
    using read_label_quoted [of printable s "''} '' @ show_u64 n"] by (simp add: quote_def has_prefix_def)
qed

lemma requests_read:
  "read_sample (requests_line printable (route, n)) =
     (if readable printable route then Some (''leoxy_requests_total'', ''route'', route, unat n) else None)"
  using read_sample_quoted [of "''leoxy_requests_total''" "''route''" printable route n] by (simp add: requests_line_def)

lemma readable_plain: "(\<And>c. c \<in> set s \<Longrightarrow> 0x20 \<le> byte c \<and> byte c < 0x7F) \<Longrightarrow> readable printable s"
proof (induction s)
  case (Cons c s)
  then have "0x20 \<le> byte c \<and> byte c < 0x7F" "readable printable s" by auto
  then show ?case by (simp add: readable_ascii_def)
qed simp

lemma readable_itoa: "readable printable (itoa n)"
proof (rule readable_plain)
  fix c
  assume c: "c \<in> set (itoa n)"
  have digits: "list_all (\<lambda>d. 0x20 \<le> byte (digit_char d) \<and> byte (digit_char d) < 0x7F) [0..<10]" by code_simp
  have minus: "0x20 \<le> byte CHR ''-''" "byte CHR ''-'' < 0x7F" by code_simp+
  from c consider "c = CHR ''-''" | k where "c \<in> set (format_nat 10 k)" by (auto simp: itoa_def split: if_splits)
  then show "0x20 \<le> byte c \<and> byte c < 0x7F"
  proof cases
    case 2
    then obtain d where "d < 10" "c = digit_char d" using format_nat_chars [of 10 c k] by auto
    with digits show ?thesis by (simp add: list_all_iff)
  qed (simp add: minus)
qed

lemma responses_read:
  "read_sample (responses_line printable (status, n)) = Some (''leoxy_responses_total'', ''status'', itoa status, unat n)"
  using read_sample_quoted [of "''leoxy_responses_total''" "''status''" printable "itoa status" n] readable_itoa
  by (simp add: responses_line_def)

section \<open>Properties\<close>

text \<open>C38: The text cannot be forged by what a route label holds.  When every write succeeds its lines are the lines printed, one
  per sample, and a reader of the text format gets from each the very label and its own count, for the labels that
  consist of printable ASCII, line feeds and printable UTF-8; any other label it rejects, and takes for no other one.  When a
  write fails, the counters that reached the client are a part of that text from its start.\<close>

theorem metrics_lines_unforgeable:
  "(let ls = split_on newline (Handler printable rnd (\<lambda>_. None) m); rs = samples (me_requests m); ss = samples (me_status m) in
      length ls = length rs + length ss + 6 \<and>
      map read_sample (take (length rs) (drop 1 ls)) =
        map (\<lambda>(route, n). if readable printable route then Some (''leoxy_requests_total'', ''route'', route, unat n) else None) rs \<and>
      map read_sample (take (length ss) (drop (length rs + 2) ls)) =
        map (\<lambda>(status, n). Some (''leoxy_responses_total'', ''status'', itoa status, unat n)) ss) \<and>
   (let text = Handler printable rnd failed m; counters = exposition (counter_lines printable m) in
      prefix counters (Handler printable rnd (\<lambda>_. None) m) \<and> (prefix text counters \<or> prefix counters text))"
proof
  have lines: "split_on newline (Handler printable rnd (\<lambda>_. None) m) = counter_lines printable m @ gauge_lines rnd m @ [[]]"
    unfolding Handler_whole using handler_lines [of _ printable m rnd] by (subst split_exposition) auto
  show "let ls = split_on newline (Handler printable rnd (\<lambda>_. None) m); rs = samples (me_requests m); ss = samples (me_status m) in
      length ls = length rs + length ss + 6 \<and>
      map read_sample (take (length rs) (drop 1 ls)) =
        map (\<lambda>(route, n). if readable printable route then Some (''leoxy_requests_total'', ''route'', route, unat n) else None) rs \<and>
      map read_sample (take (length ss) (drop (length rs + 2) ls)) =
        map (\<lambda>(status, n). Some (''leoxy_responses_total'', ''status'', itoa status, unat n)) ss"
    unfolding lines counter_lines_def Let_def by (auto simp: requests_read responses_read gauge_lines_def)
  have "prefix (exposition xs) (exposition (xs @ ys))" for xs ys by (simp add: exposition_def)
  then show "let text = Handler printable rnd failed m; counters = exposition (counter_lines printable m) in
      prefix counters (Handler printable rnd (\<lambda>_. None) m) \<and> (prefix text counters \<or> prefix counters text)"
    unfolding Let_def Handler_whole using Handler_prefix by blast
qed

text \<open>A path of the configuration may hold a control character; its route's line is one no reader of the format accepts.\<close>

lemma control_label_rejected:
  "read_sample (requests_line printable (''GET /a'' @ [CHR 0x01], n)) = None"
proof -
  have "\<not> readable printable (''GET /a'' @ [CHR 0x01])"
    by (simp add: readable_ascii_def byte_def)
  then show ?thesis by (simp add: requests_read)
qed

end
