(* ===== verification/Watcher.thy ===== *)
theory Watcher
  imports GoPath GoFloat Metrics "HOL-Library.AList" "HOL-Library.Char_ord" "HOL-Library.List_Lexorder"
begin

text \<open>
  \<open>app/internal/watcher\<close>: the memory monitor.  Every tick takes a sample, stores it in the metrics and asks
  the \<open>Watcher\<close> whether to report; a report is written into the log directory (a temporary file that is
  renamed), old reports are pruned, and a webhook is notified.

  The log directory is an association list from file names to contents.  What the operating system answers
  is an argument (\<open>write_env\<close>), as are the JSON encoder, the URL parser and the values of \<open>runtime/metrics\<close>.
\<close>

section \<open>Samples\<close>

datatype metric_value = KindBad | KindUint64 "64 word" | KindFloat64 real

definition uintValue :: "metric_value \<Rightarrow> 64 word" where
  "uintValue v = (case v of KindUint64 u \<Rightarrow> u | _ \<Rightarrow> 0)"

definition floatValue :: "metric_value \<Rightarrow> real" where
  "floatValue v = (case v of KindFloat64 x \<Rightarrow> x | _ \<Rightarrow> 0)"

definition sampleNames :: "string list" where
  "sampleNames =
     [''/memory/classes/total:bytes'', ''/memory/classes/heap/released:bytes'', ''/memory/classes/heap/objects:bytes'',
      ''/sched/goroutines:goroutines'', ''/cpu/classes/total:cpu-seconds'']"

record Sample =
  sm_At :: time
  sm_MemoryBytes :: "64 word"
  sm_TotalRAMBytes :: "64 word"
  sm_HeapBytes :: "64 word"
  sm_Goroutines :: "64 word"
  sm_CPUSeconds :: real

text \<open>\<open>totalRAMBytes\<close> on Linux (total and unit of sysinfo), on macOS, on Windows and elsewhere; None is a failed call.\<close>

definition totalRAM_linux :: "(64 word \<times> 32 word) option \<Rightarrow> 64 word" where
  "totalRAM_linux info = (case info of None \<Rightarrow> 0 | Some (ram, block) \<Rightarrow> ram * ucast block)"

definition totalRAM_darwin :: "64 word option \<Rightarrow> 64 word" where
  "totalRAM_darwin info = (case info of None \<Rightarrow> 0 | Some ram \<Rightarrow> ram)"

definition totalRAM_windows :: "64 word option \<Rightarrow> 64 word" where
  "totalRAM_windows status = (case status of None \<Rightarrow> 0 | Some ram \<Rightarrow> ram)"

definition totalRAM_other :: "64 word" where "totalRAM_other = 0"

definition ReadSample :: "(string \<Rightarrow> metric_value) \<Rightarrow> time \<Rightarrow> 64 word \<Rightarrow> Sample" where
  "ReadSample read now ram =
     (let samples = map read sampleNames;
          total_mem = uintValue (samples ! 0);
          released = uintValue (samples ! 1);
          memory = (if released < total_mem then total_mem - released else 0)
      in \<lparr>sm_At = now, sm_MemoryBytes = memory, sm_TotalRAMBytes = ram, sm_HeapBytes = uintValue (samples ! 2),
          sm_Goroutines = uintValue (samples ! 3), sm_CPUSeconds = floatValue (samples ! 4)\<rparr>)"

section \<open>When to report\<close>

record Watcher =
  wa_limit :: "64 word"
  wa_cooldown :: duration
  wa_last :: time

definition step :: "Sample \<Rightarrow> Watcher \<Rightarrow> bool \<times> Watcher" where
  "step sample w =
     (if sm_MemoryBytes sample < wa_limit w then (False, w)
      else if \<not> time_is_zero (wa_last w) \<and> time_sub (sm_At sample) (wa_last w) < wa_cooldown w then (False, w)
      else (True, w\<lparr>wa_last := sm_At sample\<rparr>))"

fun watch_run :: "Watcher \<Rightarrow> Sample list \<Rightarrow> bool list" where
  "watch_run w [] = []"
| "watch_run w (s # ss) = (case step s w of (fired, w') \<Rightarrow> fired # watch_run w' ss)"

section \<open>Starting\<close>

record Options =
  op_Project :: string
  op_LimitMB :: int
  op_Interval :: duration
  op_Cooldown :: duration
  op_HeapProfile :: bool
  op_WebhookURL :: string
  op_Dir :: string

record Writer =
  wr_Dir :: string
  wr_Project :: string
  wr_Hostname :: string
  wr_Started :: time
  wr_HeapProfile :: bool

text \<open>\<open>filepath.Base\<close>.\<close>

definition path_base :: "string \<Rightarrow> string" where
  "path_base p =
     (if p = '''' then ''.''
      else
        (let p = trim_right_with (\<lambda>c. c = CHR ''/'') p
         in if p = '''' then ''/'' else last (split_on CHR ''/'' p)))"

text \<open>The parser gives scheme, host and the text of the parsed URL.\<close>

definition validWebhook :: "(string \<Rightarrow> (string \<times> string \<times> string) option) \<Rightarrow> string \<Rightarrow> string" where
  "validWebhook parse value =
     (let value = trim_space value in
      if value = '''' then ''''
      else
        (case parse value of
           None \<Rightarrow> ''''
         | Some (scheme, host, text) \<Rightarrow>
             if (scheme \<noteq> ''http'' \<and> scheme \<noteq> ''https'') \<or> host = '''' then '''' else text))"

definition watch_limit :: "int \<Rightarrow> 64 word" where
  "watch_limit limitMB = of_int limitMB * 1024 * 1024"

record monitor =
  mo_watcher :: Watcher
  mo_writer :: Writer
  mo_interval :: duration
  mo_webhook :: string

text \<open>\<open>Start\<close> up to the ticker: None when the monitor stays off.  The arguments are whether the directory could be
  made, the working directory, the host name and the clock.\<close>

definition Start ::
  "(string \<Rightarrow> (string \<times> string \<times> string) option) \<Rightarrow> bool \<Rightarrow> string option \<Rightarrow> string \<Rightarrow> time \<Rightarrow> Options \<Rightarrow> monitor option" where
  "Start parse mkdir cwd hostname now o1 =
     (if op_LimitMB o1 \<le> 0 then None
      else
        (let o2 = (if op_Interval o1 \<le> 0 then o1\<lparr>op_Interval := 5 * second\<rparr> else o1);
             o3 = (if op_Cooldown o2 \<le> 0 then o2\<lparr>op_Cooldown := 5 * minute\<rparr> else o2);
             o4 = (if op_Dir o3 = '''' then o3\<lparr>op_Dir := ''leoxy/log''\<rparr> else o3)
         in if \<not> mkdir then None
            else
              (let project = trim_space (op_Project o4);
                   project = (if project = '''' then (case cwd of None \<Rightarrow> '''' | Some d \<Rightarrow> path_base d) else project)
               in Some \<lparr>mo_watcher = \<lparr>wa_limit = watch_limit (op_LimitMB o4), wa_cooldown = op_Cooldown o4, wa_last = 0\<rparr>,
                    mo_writer = \<lparr>wr_Dir = op_Dir o4, wr_Project = project, wr_Hostname = hostname, wr_Started = now,
                      wr_HeapProfile = op_HeapProfile o4\<rparr>,
                    mo_interval = op_Interval o4, mo_webhook = validWebhook parse (op_WebhookURL o4)\<rparr>)))"

section \<open>Writing a report\<close>

definition keepReports :: nat where "keepReports = 20"

record Report =
  re_Project :: string
  re_Hostname :: string
  re_PID :: int
  re_At :: time
  re_UptimeSeconds :: int
  re_LimitBytes :: "64 word"
  re_MemoryBytes :: "64 word"
  re_TotalRAMBytes :: "64 word"
  re_HeapBytes :: "64 word"
  re_Goroutines :: "64 word"
  re_CPUSeconds :: real
  re_DiskBytes :: "64 word"
  re_HeapProfile :: string

type_synonym directory = "(string \<times> string) list"

record write_env =
  we_pid :: int
  we_encode :: "Report \<Rightarrow> string option"
  we_profile_open :: bool
  we_profile :: "string \<times> bool"
  we_profile_close :: bool
  we_temp :: "string option"
  we_short :: "nat option"
  we_close :: bool
  we_remove :: bool
  we_rename :: bool
  we_unlink :: "string \<Rightarrow> bool"

definition directorySize :: "directory \<Rightarrow> 64 word" where
  "directorySize d = foldl (\<lambda>size (name, data). size + of_nat (length data)) 0 d"

definition writeHeapProfile :: "write_env \<Rightarrow> string \<Rightarrow> directory \<Rightarrow> bool \<times> directory" where
  "writeHeapProfile e name d =
     (if \<not> we_profile_open e then (False, d)
      else
        (let d = AList.update name (fst (we_profile e)) d in
         if \<not> snd (we_profile e) then (False, d) else (we_profile_close e, d)))"

text \<open>\<open>we_short\<close> is the number of bytes after which the write of the temporary file failed.\<close>

definition writeAtomic :: "write_env \<Rightarrow> string \<Rightarrow> string \<Rightarrow> directory \<Rightarrow> bool \<times> directory" where
  "writeAtomic e name data d =
     (case we_temp e of
        None \<Rightarrow> (False, d)
      | Some tmp \<Rightarrow>
          (let d1 = AList.update tmp [] d in
           case we_short e of
             Some n \<Rightarrow> (let d2 = AList.update tmp (take n data) d1 in (False, if we_remove e then AList.delete tmp d2 else d2))
           | None \<Rightarrow>
               (let d2 = AList.update tmp data d1 in
                if \<not> we_close e then (False, if we_remove e then AList.delete tmp d2 else d2)
                else if we_rename e then (True, AList.update name data (AList.delete tmp d2))
                else (False, d2))))"

fun remove_all :: "(string \<Rightarrow> bool) \<Rightarrow> string list \<Rightarrow> directory \<Rightarrow> directory" where
  "remove_all unlink [] d = d"
| "remove_all unlink (n # ns) d = remove_all unlink ns (if unlink n then AList.delete n d else d)"

definition prune :: "(string \<Rightarrow> bool) \<Rightarrow> string \<Rightarrow> directory \<Rightarrow> directory" where
  "prune unlink pattern d =
     (let matches = sort (filter (path_match pattern) (map fst d)) in
      if length matches \<le> keepReports then d
      else remove_all unlink (take (length matches - keepReports) matches) d)"

text \<open>\<open>Time.Format\<close> with the layout \<open>20060102T150405Z\<close> of an instant in nanoseconds since the start of year 1.\<close>

definition year_day :: "int \<Rightarrow> int \<times> int" where
  "year_day day =
     (let c400 = day div 146097; day = day mod 146097;
          c100 = min 3 (day div 36524); day = day - c100 * 36524;
          c4 = day div 1461; day = day mod 1461;
          c1 = min 3 (day div 365); day = day - c1 * 365
      in (400 * c400 + 100 * c100 + 4 * c4 + c1 + 1, day))"

definition leap :: "int \<Rightarrow> bool" where
  "leap y \<longleftrightarrow> y mod 4 = 0 \<and> (y mod 100 \<noteq> 0 \<or> y mod 400 = 0)"

fun month_day :: "int list \<Rightarrow> int \<Rightarrow> int \<Rightarrow> int \<times> int" where
  "month_day [] month day = (month, day + 1)"
| "month_day (n # ns) month day = (if day < n then (month, day + 1) else month_day ns (month + 1) (day - n))"

definition padded :: "nat \<Rightarrow> int \<Rightarrow> string" where
  "padded width n = (let s = itoa n in replicate (width - length s) CHR ''0'' @ s)"

definition stamp :: "time \<Rightarrow> string" where
  "stamp t =
     (let secs = t div 1000000000; s = secs mod 86400 in
      case year_day (secs div 86400) of
        (year, yday) \<Rightarrow>
          (case month_day [31, if leap year then 29 else 28, 31, 30, 31, 30, 31, 31, 30, 31, 30] 1 yday of
             (month, day) \<Rightarrow>
               padded 4 year @ padded 2 month @ padded 2 day @ ''T'' @
               padded 2 (s div 3600) @ padded 2 (s mod 3600 div 60) @ padded 2 (s mod 60) @ ''Z''))"

text \<open>\<open>Duration.Seconds\<close> truncated to an integer; \<open>rnd\<close> rounds to float64.\<close>

definition whole_seconds :: "(real \<Rightarrow> real) \<Rightarrow> duration \<Rightarrow> int" where
  "whole_seconds rnd d =
     (let x = rnd (rnd (of_int (go_div d second)) + rnd (rnd (of_int (go_rem d second)) / 1000000000))
      in if 0 \<le> x then \<lfloor>x\<rfloor> else \<lceil>x\<rceil>)"

definition report_name :: "time \<Rightarrow> string" where
  "report_name t = ''memory-report-'' @ stamp t @ ''.json''"

definition profile_name :: "time \<Rightarrow> string" where
  "profile_name t = ''heap-'' @ stamp t @ ''.pprof''"

definition Write :: "(real \<Rightarrow> real) \<Rightarrow> write_env \<Rightarrow> Writer \<Rightarrow> Sample \<Rightarrow> 64 word \<Rightarrow> directory \<Rightarrow> Report option \<times> directory" where
  "Write rnd e w sample limit d =
     (let report = \<lparr>re_Project = wr_Project w, re_Hostname = wr_Hostname w, re_PID = we_pid e, re_At = sm_At sample,
            re_UptimeSeconds = whole_seconds rnd (time_sub (sm_At sample) (wr_Started w)),
            re_LimitBytes = limit, re_MemoryBytes = sm_MemoryBytes sample, re_TotalRAMBytes = sm_TotalRAMBytes sample,
            re_HeapBytes = sm_HeapBytes sample, re_Goroutines = sm_Goroutines sample, re_CPUSeconds = sm_CPUSeconds sample,
            re_DiskBytes = directorySize d, re_HeapProfile = ''''\<rparr>
      in case (if wr_HeapProfile w
               then (case writeHeapProfile e (profile_name (sm_At sample)) d of
                       (ok, d) \<Rightarrow> (if ok then report\<lparr>re_HeapProfile := wr_Dir w @ ''/'' @ profile_name (sm_At sample)\<rparr> else report, d))
               else (report, d)) of
           (report, d) \<Rightarrow>
             (case we_encode e report of
                None \<Rightarrow> (None, d)
              | Some data \<Rightarrow>
                  (case writeAtomic e (report_name (sm_At sample)) data d of
                     (ok, d) \<Rightarrow>
                       if \<not> ok then (None, d)
                       else (Some report, prune (we_unlink e) ''heap-*.pprof'' (prune (we_unlink e) ''memory-report-*.json'' d)))))"

section \<open>The webhook\<close>

datatype notify_error = EncodeError | RequestError | SendError | BadStatus int | CloseError

text \<open>The arguments: the encoded report, whether the request could be built, and the status with the result of closing the body.\<close>

definition Notify :: "string option \<Rightarrow> bool \<Rightarrow> (int \<times> bool) option \<Rightarrow> notify_error list" where
  "Notify body request answer =
     (case body of
        None \<Rightarrow> [EncodeError]
      | Some _ \<Rightarrow>
          if \<not> request then [RequestError]
          else
            (case answer of
               None \<Rightarrow> [SendError]
             | Some (code, close_ok) \<Rightarrow> (if 300 \<le> code then [BadStatus code] else []) @ (if close_ok then [] else [CloseError])))"

section \<open>A tick\<close>

text \<open>One tick: the sample reaches the metrics, then the watcher; on a breach a report is written and, when that worked
  and a webhook is set, sent.  The result is the report to send.\<close>

definition tick :: "(real \<Rightarrow> real) \<Rightarrow> write_env \<Rightarrow> Sample \<Rightarrow> monitor \<times> directory \<times> metrics \<Rightarrow> Report option \<times> monitor \<times> directory \<times> metrics" where
  "tick rnd e sample state =
     (case state of (m, d, metrics) \<Rightarrow>
        (let metrics = SetMemory (sm_MemoryBytes sample) metrics in
         case step sample (mo_watcher m) of
           (fired, w) \<Rightarrow>
             (let m = m\<lparr>mo_watcher := w\<rparr> in
              if \<not> fired then (None, m, d, metrics)
              else
                (case Write rnd e (mo_writer m) sample (wa_limit (mo_watcher m)) d of
                   (None, d) \<Rightarrow> (None, m, d, metrics)
                 | (Some report, d) \<Rightarrow> (if mo_webhook m = '''' then None else Some report, m, d, metrics)))))"

section \<open>Laws of the watcher\<close>

lemma watch_run_length [simp]: "length (watch_run w ss) = length ss"
  by (induction ss arbitrary: w) (auto split: prod.splits)

lemma step_kept: "step s w = (fired, w') \<Longrightarrow> wa_limit w' = wa_limit w \<and> wa_cooldown w' = wa_cooldown w"
  by (auto simp: step_def split: if_splits)

lemma step_cases:
  assumes "- (2 ^ 63) < wa_cooldown w" "wa_cooldown w < 2 ^ 63"
  shows "step s w =
    (if wa_limit w \<le> sm_MemoryBytes s \<and> (wa_last w = 0 \<or> wa_cooldown w \<le> sm_At s - wa_last w)
     then (True, w\<lparr>wa_last := sm_At s\<rparr>) else (False, w))"
  using assms by (auto simp: step_def time_is_zero_def time_sub_less_iff not_less not_le)

lemma watch_run_nth:
  assumes "- (2 ^ 63) < wa_cooldown w" "wa_cooldown w < 2 ^ 63"
    and "sorted (map sm_At ss)" "\<forall>s \<in> set ss. 0 < sm_At s" "i < length ss"
  shows "watch_run w ss ! i \<longleftrightarrow>
    wa_limit w \<le> sm_MemoryBytes (ss ! i) \<and> (wa_last w = 0 \<or> wa_cooldown w \<le> sm_At (ss ! i) - wa_last w) \<and>
    (\<forall>j < i. watch_run w ss ! j \<longrightarrow> wa_cooldown w \<le> sm_At (ss ! i) - sm_At (ss ! j))"
  using assms
proof (induction ss arbitrary: w i)
  case (Cons s ss)
  obtain fired w' where st: "step s w = (fired, w')" by fastforce
  show ?case
  proof (cases i)
    case 0
    with st Cons.prems(1,2) show ?thesis by (auto simp: step_cases split: if_splits)
  next
    case (Suc k)
    then have k: "k < length ss" "sm_At s \<le> sm_At (ss ! k)" using Cons.prems(3,5) by auto
    have IH: "watch_run w' ss ! k \<longleftrightarrow>
      wa_limit w' \<le> sm_MemoryBytes (ss ! k) \<and> (wa_last w' = 0 \<or> wa_cooldown w' \<le> sm_At (ss ! k) - wa_last w') \<and>
      (\<forall>j < k. watch_run w' ss ! j \<longrightarrow> wa_cooldown w' \<le> sm_At (ss ! k) - sm_At (ss ! j))"
      using Cons.prems step_kept [OF st] k(1) by (intro Cons.IH) auto
    have split: "(\<forall>j < Suc k. (fired # watch_run w' ss) ! j \<longrightarrow> wa_cooldown w \<le> sm_At (ss ! k) - sm_At ((s # ss) ! j)) \<longleftrightarrow>
      (fired \<longrightarrow> wa_cooldown w \<le> sm_At (ss ! k) - sm_At s) \<and>
      (\<forall>j < k. watch_run w' ss ! j \<longrightarrow> wa_cooldown w \<le> sm_At (ss ! k) - sm_At (ss ! j))"
      by (auto simp: less_Suc_eq_0_disj)
    show ?thesis
    proof (cases fired)
      case True
      then have f: "wa_last w' = sm_At s" "sm_At s \<noteq> 0" "wa_last w = 0 \<or> wa_cooldown w \<le> sm_At s - wa_last w"
        using st Cons.prems(1,2,4) by (auto simp: step_cases split: if_splits)
      show ?thesis using IH split f k(2) step_kept [OF st] True unfolding Suc by (auto simp: st)
    next
      case False
      then have "w' = w" using st Cons.prems(1,2) by (auto simp: step_cases split: if_splits)
      then show ?thesis using IH split False unfolding Suc by (auto simp: st)
    qed
  qed
qed simp

lemma watch_run_count:
  assumes "- (2 ^ 63) < wa_cooldown w" "wa_cooldown w < 2 ^ 63" "wa_last w \<noteq> 0" "wa_last w \<le> t"
    and "sorted (map sm_At ss)" "\<forall>s \<in> set ss. 0 < sm_At s \<and> wa_last w \<le> sm_At s \<and> sm_At s \<le> t"
  shows "int (count_list (watch_run w ss) True) * wa_cooldown w \<le> t - wa_last w"
  using assms
proof (induction ss arbitrary: w)
  case (Cons s ss)
  show ?case
  proof (cases "wa_limit w \<le> sm_MemoryBytes s \<and> wa_cooldown w \<le> sm_At s - wa_last w")
    case True
    let ?w = "w\<lparr>wa_last := sm_At s\<rparr>"
    have st: "step s w = (True, ?w)" using True Cons.prems(1,2) by (simp add: step_cases)
    have "int (count_list (watch_run ?w ss) True) * wa_cooldown ?w \<le> t - wa_last ?w"
      using Cons.prems by (intro Cons.IH) auto
    with True st show ?thesis by (simp add: algebra_simps)
  next
    case False
    then have "step s w = (False, w)" using Cons.prems(1-3) by (auto simp: step_cases)
    moreover have "int (count_list (watch_run w ss) True) * wa_cooldown w \<le> t - wa_last w"
      using Cons.prems by (intro Cons.IH) auto
    ultimately show ?thesis by simp
  qed
qed simp

lemma map_of_remove_all: "map_of (remove_all unlink ns d) x = (if x \<in> set ns \<and> unlink x then None else map_of d x)"
  by (induction ns arbitrary: d) (auto simp: AList.delete_conv')

lemma remove_all_filter: "remove_all (\<lambda>_. True) ns d = filter (\<lambda>(k, v). k \<notin> set ns) d"
proof (induction ns arbitrary: d)
  case (Cons n ns)
  then show ?case by (simp add: AList.delete_eq) (rule filter_cong, auto)
qed simp

lemma filter_not_take: "distinct m \<Longrightarrow> filter (\<lambda>x. x \<notin> set (take k m)) m = drop k m"
proof -
  assume "distinct m"
  then have "set (take k m) \<inter> set (drop k m) = {}" by (simp add: set_take_disj_set_drop_if_distinct)
  then have "filter (\<lambda>x. x \<notin> set (take k m)) (take k m @ drop k m) = drop k m"
    by (auto simp only: filter_append intro!: trans [OF arg_cong2 [of _ "[]" _ "drop k m" append]] filter_False filter_True)
  then show ?thesis by simp
qed

section \<open>Properties\<close>

text \<open>C26: The monitor reports a sample exactly when its memory reaches the limit and every earlier report is at least the
  cooldown ago: a breach that lasts is reported again as soon as the cooldown allows, and never before.\<close>

theorem watch_run_spec:
  assumes "wa_last w = 0" "0 \<le> wa_cooldown w" "wa_cooldown w < 2 ^ 63"
    and "sorted (map sm_At ss)" "\<forall>s \<in> set ss. 0 < sm_At s" "i < length ss"
  shows "watch_run w ss ! i \<longleftrightarrow>
    wa_limit w \<le> sm_MemoryBytes (ss ! i) \<and>
    (\<forall>j < i. watch_run w ss ! j \<longrightarrow> wa_cooldown w \<le> sm_At (ss ! i) - sm_At (ss ! j))"
  using watch_run_nth [of w ss i] assms by auto

definition sample_at :: "time \<Rightarrow> 64 word \<Rightarrow> Sample" where
  "sample_at t m = \<lparr>sm_At = t, sm_MemoryBytes = m, sm_TotalRAMBytes = 0, sm_HeapBytes = 0, sm_Goroutines = 0, sm_CPUSeconds = 0\<rparr>"

definition example_watcher :: Watcher where
  "example_watcher = \<lparr>wa_limit = 100, wa_cooldown = 10, wa_last = 0\<rparr>"

lemma watch_run_spec_witness:
  "watch_run example_watcher [sample_at 1 50, sample_at 2 100, sample_at 7 200, sample_at 12 150] = [False, True, False, True] \<and>
   wa_limit example_watcher \<le> 150 \<and> wa_cooldown example_watcher \<le> 12 - 2"
proof -
  let ?ss = "[sample_at 1 50, sample_at 2 100, sample_at 7 200, sample_at 12 150]"
  have run: "watch_run example_watcher ?ss = [False, True, False, True]" by code_simp
  have "watch_run example_watcher ?ss ! 3 \<longleftrightarrow>
    wa_limit example_watcher \<le> sm_MemoryBytes (?ss ! 3) \<and>
    (\<forall>j < 3. watch_run example_watcher ?ss ! j \<longrightarrow> wa_cooldown example_watcher \<le> sm_At (?ss ! 3) - sm_At (?ss ! j))"
    by (rule watch_run_spec) (auto simp: example_watcher_def sample_at_def)
  then have "wa_limit example_watcher \<le> sm_MemoryBytes (?ss ! 3)" "wa_cooldown example_watcher \<le> sm_At (?ss ! 3) - sm_At (?ss ! 1)"
    unfolding run by (auto simp: numeral_3_eq_3)
  with run show ?thesis by (simp add: sample_at_def)
qed

text \<open>In any stretch of time the monitor reports at most once per cooldown, plus one.\<close>

theorem report_rate:
  assumes "wa_last w = 0" "0 \<le> wa_cooldown w" "wa_cooldown w < 2 ^ 63"
    and "sorted (map sm_At ss)" "\<forall>s \<in> set ss. 0 < sm_At s \<and> t0 \<le> sm_At s \<and> sm_At s \<le> t"
  shows "(int (count_list (watch_run w ss) True) - 1) * wa_cooldown w \<le> max 0 (t - t0)"
  using assms
proof (induction ss)
  case (Cons s ss)
  show ?case
  proof (cases "wa_limit w \<le> sm_MemoryBytes s")
    case True
    let ?w = "w\<lparr>wa_last := sm_At s\<rparr>"
    have st: "step s w = (True, ?w)" using True Cons.prems by (simp add: step_cases)
    have "int (count_list (watch_run ?w ss) True) * wa_cooldown ?w \<le> t - wa_last ?w"
      using Cons.prems by (intro watch_run_count) auto
    moreover have "t0 \<le> sm_At s" using Cons.prems by simp
    ultimately show ?thesis using st by simp
  next
    case False
    then have "step s w = (False, w)" using Cons.prems by (simp add: step_cases)
    with Cons show ?thesis by simp
  qed
qed simp

lemma report_rate_witness:
  "int (count_list (watch_run example_watcher [sample_at 5 100, sample_at 8 100, sample_at 15 100]) True) = 2 \<and>
   (2 - 1) * 10 \<le> max 0 (15 - 5 :: int)"
proof -
  let ?ss = "[sample_at 5 100, sample_at 8 100, sample_at 15 100]"
  have run: "count_list (watch_run example_watcher ?ss) True = 2" by code_simp
  have "(int (count_list (watch_run example_watcher ?ss) True) - 1) * wa_cooldown example_watcher \<le> max 0 (15 - 5)"
    by (rule report_rate) (auto simp: example_watcher_def sample_at_def)
  with run show ?thesis by (simp add: example_watcher_def)
qed

text \<open>A temporary file that is new and of the names \<open>CreateTemp\<close> gives out.\<close>

definition fresh_temp :: "write_env \<Rightarrow> directory \<Rightarrow> bool" where
  "fresh_temp e d = (case we_temp e of None \<Rightarrow> True | Some tmp \<Rightarrow> has_prefix tmp ''.report-'' \<and> map_of d tmp = None)"

lemma writeAtomic_other:
  "writeAtomic e n data d = (ok, d') \<Longrightarrow> we_temp e \<noteq> Some x \<Longrightarrow> map_of d' x = (if ok \<and> x = n then Some data else map_of d x)"
  by (auto simp: writeAtomic_def Let_def AList.update_conv' AList.delete_conv' split: option.splits if_splits)

lemma writeHeapProfile_other:
  "writeHeapProfile e n d = (ok, d') \<Longrightarrow> x \<noteq> n \<Longrightarrow> map_of d' x = map_of d x"
  by (auto simp: writeHeapProfile_def Let_def AList.update_conv' split: if_splits)

lemma map_of_prune: "map_of (prune u p d) x = map_of d x \<or> map_of (prune u p d) x = None"
  by (auto simp: prune_def Let_def map_of_remove_all)

text \<open>C27: Report files are never partial: after a write that fails, at whatever step, every report file is what it
  was before; after one that works, the new file holds the whole encoded report unless it was pruned at once,
  and every other report file is unchanged or pruned.\<close>

theorem report_files_whole:
  assumes "fresh_temp e d" "Write rnd e w sample limit d = (r, d')" "has_prefix name ''memory-report-''"
  shows "case r of
      None \<Rightarrow> map_of d' name = map_of d name
    | Some report \<Rightarrow>
        map_of d' name = (if name = report_name (sm_At sample) then we_encode e report else map_of d name) \<or>
        map_of d' name = None"
proof -
  let ?rn = "report_name (sm_At sample)" and ?pn = "profile_name (sm_At sample)"
  have np: "name \<noteq> ?pn" using assms(3) by (auto simp: profile_name_def has_prefix_iff)
  have nt: "we_temp e \<noteq> Some name"
    using assms(1,3) by (auto simp: fresh_temp_def has_prefix_iff)
  obtain report d1 where stage1: "map_of d1 name = map_of d name"
    "Write rnd e w sample limit d =
       (case we_encode e report of
          None \<Rightarrow> (None, d1)
        | Some data \<Rightarrow>
            (case writeAtomic e ?rn data d1 of
               (ok, d2) \<Rightarrow> if \<not> ok then (None, d2)
                 else (Some report, prune (we_unlink e) ''heap-*.pprof'' (prune (we_unlink e) ''memory-report-*.json'' d2))))"
  proof (cases "wr_HeapProfile w")
    case True
    obtain ok d1 where h: "writeHeapProfile e ?pn d = (ok, d1)" by fastforce
    show thesis by (rule that [OF writeHeapProfile_other [OF h np]]) (simp add: Write_def Let_def True h)
  next
    case False
    show thesis by (rule that [OF refl]) (simp add: Write_def Let_def False)
  qed
  show ?thesis
  proof (cases "we_encode e report")
    case None
    with stage1 assms(2) show ?thesis by auto
  next
    case (Some data)
    obtain ok d2 where a: "writeAtomic e ?rn data d1 = (ok, d2)" by fastforce
    note d2 = writeAtomic_other [OF a nt]
    show ?thesis
    proof (cases ok)
      case False
      with stage1 assms(2) Some a d2 show ?thesis by auto
    next
      case True
      then have r: "r = Some report" "d' = prune (we_unlink e) ''heap-*.pprof'' (prune (we_unlink e) ''memory-report-*.json'' d2)"
        using stage1(2) assms(2) Some a by auto
      have "map_of d' name = map_of d2 name \<or> map_of d' name = None"
        unfolding r(2) using map_of_prune by metis
      with True d2 stage1(1) Some r(1) show ?thesis by auto
    qed
  qed
qed

definition good_env :: write_env where
  "good_env = \<lparr>we_pid = 7, we_encode = (\<lambda>r. Some ''{}''), we_profile_open = True, we_profile = (''p'', True), we_profile_close = True,
     we_temp = Some ''.report-1'', we_short = None, we_close = True, we_remove = True, we_rename = True, we_unlink = (\<lambda>_. True)\<rparr>"

definition example_writer :: Writer where
  "example_writer = \<lparr>wr_Dir = ''leoxy/log'', wr_Project = ''p'', wr_Hostname = ''h'', wr_Started = 0, wr_HeapProfile = True\<rparr>"

lemma report_files_whole_witness:
  "\<exists>d'. snd (Write id (good_env\<lparr>we_short := Some 1\<rparr>) example_writer (sample_at 5 100) 100 [(''memory-report-x.json'', ''old'')]) = d' \<and>
     map_of d' ''memory-report-x.json'' = Some ''old''"
proof -
  let ?e = "good_env\<lparr>we_short := Some 1\<rparr>" and ?d = "[(''memory-report-x.json'', ''old'')]"
  obtain r d' where w: "Write id ?e example_writer (sample_at 5 100) 100 ?d = (r, d')" by fastforce
  have "r = None" using w by (auto simp: Write_def Let_def writeAtomic_def good_env_def split: prod.splits if_splits)
  moreover have "fresh_temp ?e ?d" "has_prefix ''memory-report-x.json'' ''memory-report-''" by code_simp+
  ultimately show ?thesis using report_files_whole [OF _ w] w by auto
qed

text \<open>Pruning keeps exactly the twenty greatest names of its pattern and touches nothing else.\<close>

theorem prune_keeps_newest:
  assumes "distinct (map fst d)"
  shows "(let matches = sort (filter (path_match pattern) (map fst d));
              after = prune (\<lambda>_. True) pattern d
          in sort (filter (path_match pattern) (map fst after)) = drop (length matches - keepReports) matches) \<and>
    (\<not> path_match pattern name \<longrightarrow> map_of (prune (\<lambda>_. True) pattern d) name = map_of d name)"
proof -
  let ?m = "sort (filter (path_match pattern) (map fst d))" and ?a = "prune (\<lambda>_. True) pattern d"
  have dist: "distinct ?m" using assms by simp
  have "sort (filter (path_match pattern) (map fst ?a)) = drop (length ?m - keepReports) ?m"
  proof (cases "length ?m \<le> keepReports")
    case False
    let ?old = "take (length ?m - keepReports) ?m"
    have "map fst ?a = filter (\<lambda>k. k \<notin> set ?old) (map fst d)"
      using False by (auto simp: prune_def Let_def remove_all_filter filter_map o_def case_prod_unfold)
    then have "filter (path_match pattern) (map fst ?a) = filter (\<lambda>k. k \<notin> set ?old) (filter (path_match pattern) (map fst d))"
      by (simp only: filter_filter) (rule filter_cong, auto)
    then have "sort (filter (path_match pattern) (map fst ?a)) = filter (\<lambda>k. k \<notin> set ?old) ?m" by (simp only: filter_sort)
    also have "\<dots> = drop (length ?m - keepReports) ?m" by (rule filter_not_take [OF dist])
    finally show ?thesis .
  qed (simp add: prune_def Let_def)
  moreover have "map_of ?a name = map_of d name" if "\<not> path_match pattern name"
  proof -
    have "name \<notin> set (take k ?m)" for k using that in_set_takeD [of name k ?m] by auto
    then show ?thesis by (simp add: prune_def Let_def map_of_remove_all)
  qed
  ultimately show ?thesis by (simp add: Let_def)
qed

text \<open>Twenty-one reports, of which the one with the least name goes.\<close>

definition many_reports :: directory where
  "many_reports = map (\<lambda>n. (''memory-report-'' @ padded 2 (int n) @ ''.json'', '''')) (rev [0..<21]) @ [(''request.log'', ''x'')]"

lemma prune_keeps_newest_witness:
  "sort (filter (path_match ''memory-report-*.json'') (map fst (prune (\<lambda>_. True) ''memory-report-*.json'' many_reports))) =
     map (\<lambda>n. ''memory-report-'' @ padded 2 (int n) @ ''.json'') [1..<21] \<and>
   map_of (prune (\<lambda>_. True) ''memory-report-*.json'' many_reports) ''request.log'' = Some ''x''"
proof -
  have d: "distinct (map fst many_reports)" by code_simp
  have m: "sort (filter (path_match ''memory-report-*.json'') (map fst many_reports)) =
      map (\<lambda>n. ''memory-report-'' @ padded 2 (int n) @ ''.json'') [0..<21]" by code_simp
  have e: "drop 1 (map (\<lambda>n. ''memory-report-'' @ padded 2 (int n) @ ''.json'') [0..<21]) =
      map (\<lambda>n. ''memory-report-'' @ padded 2 (int n) @ ''.json'') [1..<21]" by (simp add: drop_map)
  have r: "\<not> path_match ''memory-report-*.json'' ''request.log''" "map_of many_reports ''request.log'' = Some ''x''" by code_simp+
  have l: "length (map (\<lambda>n. ''memory-report-'' @ padded 2 (int n) @ ''.json'') [0..<21]) - 20 = 1" by simp
  show ?thesis using prune_keeps_newest [OF d, of "''memory-report-*.json''" "''request.log''"] r
    unfolding Let_def m keepReports_def l e by metis
qed

text \<open>A failed rename leaves the temporary file behind, under a name that is never pruned.\<close>

lemma failed_rename_leaks:
  "fst (writeAtomic (good_env\<lparr>we_rename := False\<rparr>) n data d) = False \<and>
   map_of (snd (writeAtomic (good_env\<lparr>we_rename := False\<rparr>) n data d)) ''.report-1'' = Some data"
  by (simp add: writeAtomic_def good_env_def AList.update_conv')

text \<open>The limit in bytes is a uint64 product: with \<open>2 ^ 44\<close> MiB it is zero and every sample is a breach.\<close>

lemma watch_limit_wraps: "watch_limit (2 ^ 44) = 0"
  by (simp add: watch_limit_def)

lemma watch_limit_exact: "0 \<le> mb \<Longrightarrow> mb < 2 ^ 44 \<Longrightarrow> uint (watch_limit mb) = mb * 1048576"
proof -
  assume "0 \<le> mb" "mb < 2 ^ 44"
  have "watch_limit mb = word_of_int (mb * 1048576)" by (simp add: watch_limit_def mult.assoc)
  then have "uint (watch_limit mb) = (mb * 1048576) mod 2 ^ 64" by (simp only: uint_word_of_int) simp
  with \<open>0 \<le> mb\<close> \<open>mb < 2 ^ 44\<close> show ?thesis by (simp add: mod_pos_pos_trivial)
qed

end
