(* ===== verification/Shutdown.thy ===== *)
theory Shutdown
  imports TcpProxy UdpProxy
begin

text \<open>
  How the two stream proxies end.  After \<open>done\<close> is closed and the listener with it, the accept loop of the TCP
  proxy returns and its connections run out; the loop of the UDP proxy ends at its first failed read and its
  relays end when their closed connections fail.  A step that changes nothing does not count: the statements bound
  the number of changes left.
\<close>

section \<open>The TCP proxy\<close>

fun loop_left :: "tcp_pc \<Rightarrow> nat" where
  "loop_left (Admitted c host) = 4" | "loop_left Accepting = 1" | "loop_left Returned = 0"

definition tcp_left :: "tcp_state \<Rightarrow> nat" where
  "tcp_left s =
     (if t_done s then 0 else 1) + loop_left (t_pc s) +
     2 * map_count (\<lambda>v. fst v = Proxying) (t_conns s) + map_count (\<lambda>v. fst v = SlotFreed) (t_conns s)"

text \<open>One step with the listener closed: it stays closed, and what changes anything brings the end nearer.\<close>

lemma tcp_step_drains:
  assumes "tcp_step s s'" "finite (dom (t_conns s))" "\<not> t_listening s" "s' \<noteq> s"
  shows "\<not> t_listening s' \<and> tcp_left s' < tcp_left s"
  using assms(1)
proof (cases rule: tcp_step.cases)
  case (Accept c addr)
  with assms(3) show ?thesis by simp
next
  case (AcceptError is_closed)
  with assms(3) show ?thesis by (simp add: accept_failed_def tcp_left_def)
next
  case (Slot c host)
  with assms(2,3) show ?thesis
    by (auto simp: take_channel_slot_def tcp_left_def map_count_new)
next
  case (Finish c host)
  have "map_count P ((t_conns s)(c \<mapsto> (SlotFreed, host))) + (if P (Proxying, host) then 1 else 0) =
      map_count P (t_conns s) + (if P (SlotFreed, host) then 1 else 0)" for P
    using assms(2) Finish(2) by (rule map_count_old)
  from this [of "\<lambda>v. fst v = Proxying"] this [of "\<lambda>v. fst v = SlotFreed"] show ?thesis
    using Finish(1) assms(3) by (simp add: free_slot_def tcp_left_def)
next
  case (Release c host)
  have "map_count P (t_conns s) = map_count P ((t_conns s)(c := None)) + (if P (SlotFreed, host) then 1 else 0)" for P
    using assms(2) Release(2) by (rule map_count_del)
  from this [of "\<lambda>v. fst v = Proxying"] this [of "\<lambda>v. fst v = SlotFreed"] show ?thesis
    using Release(1) assms(3) by (simp add: release_host_def tcp_left_def)
next
  case Shutdown
  with assms(3,4) show ?thesis by (cases "t_done s") (simp_all add: shut_down_def tcp_left_def)
next
  case CloseListener
  with assms(3,4) show ?thesis by (simp add: close_listener_def)
qed

text \<open>Runs of steps that change something.\<close>

inductive tcp_changes :: "nat \<Rightarrow> tcp_state \<Rightarrow> tcp_state \<Rightarrow> bool" where
  None: "tcp_changes 0 s s"
| More: "tcp_changes n s s' \<Longrightarrow> tcp_step s' s'' \<Longrightarrow> s'' \<noteq> s' \<Longrightarrow> tcp_changes (Suc n) s s''"

lemma tcp_changes_drain:
  assumes "tcp_changes n s s'" "tcp_reachable p s" "policy_ok p" "\<And>h. held p h = 0" "\<not> t_listening s"
  shows "tcp_reachable p s' \<and> \<not> t_listening s' \<and> n + tcp_left s' \<le> tcp_left s"
  using assms
proof (induction rule: tcp_changes.induct)
  case (More n s s' s'')
  then have s': "tcp_reachable p s'" "\<not> t_listening s'" "n + tcp_left s' \<le> tcp_left s" by blast+
  then have "finite (dom (t_conns s'))" using tcp_reachable_inv More.prems(2,3) by (auto simp: tcp_inv_def)
  with tcp_step_drains [OF More.hyps(2) this s'(2) More.hyps(3)] s' More.hyps(2) show ?case
    by (auto intro: tcp_reachable.Step)
qed simp

text \<open>What is left to do, something can do.\<close>

lemma tcp_admitted_fresh: "tcp_reachable p s \<Longrightarrow> t_pc s = Admitted c host \<Longrightarrow> t_conns s c = None"
proof (induction arbitrary: c host rule: tcp_reachable.induct)
  case Init
  then show ?case by (simp add: tcp_init_def)
next
  case (Step s s')
  from Step.hyps(2) show ?case
  proof (cases rule: tcp_step.cases)
    case (Finish d h)
    with Step.IH Step.prems show ?thesis by (auto simp: free_slot_def split: if_splits)
  qed (use Step.IH Step.prems in \<open>auto simp: accept_client_def accept_failed_def take_channel_slot_def release_host_def shut_down_def
    close_listener_def split: option.splits prod.splits if_splits\<close>)
qed

lemma tcp_stuck:
  assumes "tcp_reachable p s" "\<not> t_listening s" "\<And>s'. tcp_step s s' \<Longrightarrow> s' = s"
  shows "t_pc s = Returned \<and> t_conns s = Map.empty \<and> t_done s"
proof (intro conjI)
  show "t_done s" using assms(3) [OF tcp_step.Shutdown] by (metis shut_down_def tcp_state.ext_inject tcp_state.surjective tcp_state.update_convs(7))
  show "t_pc s = Returned"
  proof (cases "t_pc s")
    case Accepting
    from assms(3) [OF tcp_step.AcceptError [OF this, of True]] assms(2) have "t_pc (accept_failed True s) = t_pc s" by simp
    then show ?thesis by (simp add: accept_failed_def)
  next
    case (Admitted c host)
    from assms(3) [OF tcp_step.Slot [OF this tcp_admitted_fresh [OF assms(1) this]]] have "t_pc (take_channel_slot c host s) = t_pc s" by simp
    with Admitted show ?thesis by (simp add: take_channel_slot_def split: if_splits)
  qed
  have "t_conns s c = None" for c
  proof (cases "t_conns s c")
    case (Some v)
    obtain ph host where v: "t_conns s c = Some (ph, host)" using Some by (cases v) simp
    show ?thesis
    proof (cases ph)
      case Proxying
      with v assms(3) [OF tcp_step.Finish] have "t_conns (free_slot c host s) c = t_conns s c" by simp
      with v Proxying show ?thesis by (simp add: free_slot_def)
    next
      case SlotFreed
      with v assms(3) [OF tcp_step.Release] have "t_conns (release_host c host s) c = t_conns s c" by simp
      with v show ?thesis by (simp add: release_host_def)
    qed
  qed simp
  then show "t_conns s = Map.empty" by blast
qed

text \<open>C32: Shutting down a TCP proxy ends it: once its listener is closed, its goroutines change the state at most
  \<open>tcp_left\<close> more times, and when nothing is left to change the accept loop has returned, every connection
  is gone and nothing is held at the policy.\<close>

theorem tcp_drains:
  assumes "NewStreamPolicy allow deny maxPerIP = Inr p" "tcp_reachable p s" "\<not> t_listening s" "tcp_changes n s s'"
  shows "n \<le> tcp_left s \<and>
    ((\<forall>s''. tcp_step s' s'' \<longrightarrow> s'' = s') \<longrightarrow> t_pc s' = Returned \<and> t_conns s' = Map.empty \<and> t_slots s' = 0 \<and> held (t_policy s') h = 0)"
proof -
  have s': "tcp_reachable p s'" "\<not> t_listening s'" "n \<le> tcp_left s"
    using tcp_changes_drain [OF assms(4,2) _ _ assms(3)] NewStreamPolicy_ok [OF assms(1)] by auto
  note inv = conjunct1 [OF tcp_reachable_new [OF assms(1) s'(1)]]
  show ?thesis
  proof (intro conjI impI s'(3))
    assume "\<forall>s''. tcp_step s' s'' \<longrightarrow> s'' = s'"
    then have stuck: "t_pc s' = Returned" "t_conns s' = Map.empty" using tcp_stuck [OF s'(1,2)] by blast+
    then show "t_pc s' = Returned" "t_conns s' = Map.empty" by auto
    show "t_slots s' = 0" using inv stuck by (simp add: tcp_inv_def)
    show "held (t_policy s') h = 0" using tcp_inv_held [OF inv, of h] stuck by (simp add: in_flight_def)
  qed
qed

lemma tcp_drains_witness:
  "\<exists>p s s'. tcp_reachable p s \<and> t_slots s = 1 \<and> tcp_left s = 3 \<and> tcp_changes 3 s s' \<and> t_pc s' = Returned \<and> held (t_policy s') ''10.0.0.1'' = 0"
proof -
  let ?p = "\<lparr>sp_allow = [], sp_deny = [], sp_maxPerIP = 1, sp_active = Map.empty\<rparr>"
  have new: "NewStreamPolicy [] [] 1 = Inr ?p" by (simp add: NewStreamPolicy_def)
  let ?a = "''10.0.0.1:50''" and ?h = "''10.0.0.1''"
  define q where "q = snd (acquire ?p ?a)"
  have "fst (acquire ?p ?a) = Some ?h" by code_simp
  then have acq: "acquire ?p ?a = (Some ?h, q)" by (simp add: q_def prod_eq_iff)
  let ?s = "\<lparr>t_pc = Accepting, t_policy = q, t_slots = 1, t_conns = [0 \<mapsto> (Proxying, ?h)], t_closed = {}, t_delay = 0, t_done = True, t_listening = False\<rparr>"
  let ?s1 = "accept_failed True ?s"
  let ?s2 = "free_slot 0 ?h ?s1"
  let ?s3 = "release_host 0 ?h ?s2"
  have "tcp_run (tcp_init ?p) [EvAccept 0 ?a, EvSlot, EvShutdown, EvCloseListener] = Some ?s"
    by (simp add: tcp_init_def accept_client_def acq take_channel_slot_def shut_down_def close_listener_def maxTCPConnections_def)
  then have reach: "tcp_reachable ?p ?s" by (rule tcp_run_reachable [OF tcp_reachable.Init])
  have "tcp_step ?s ?s1" "tcp_step ?s1 ?s2" "tcp_step ?s2 ?s3"
    by (rule tcp_step.AcceptError tcp_step.Finish tcp_step.Release; simp add: accept_failed_def free_slot_def)+
  moreover have "t_conns ?s3 0 \<noteq> t_conns ?s2 0" "t_slots ?s2 \<noteq> t_slots ?s1" "t_pc ?s1 \<noteq> t_pc ?s"
    by (simp_all add: accept_failed_def free_slot_def release_host_def)
  then have "?s1 \<noteq> ?s" "?s2 \<noteq> ?s1" "?s3 \<noteq> ?s2" by metis+
  ultimately have path: "tcp_changes 3 ?s ?s3"
    by (auto simp: numeral_3_eq_3 intro!: tcp_changes.intros)
  have ret: "t_pc ?s3 = Returned" "t_conns ?s3 = Map.empty" "t_done ?s3" "\<not> t_listening ?s3"
    by (simp_all add: accept_failed_def free_slot_def release_host_def)
  then have "s'' = ?s3" if "tcp_step ?s3 s''" for s''
    using that by (auto elim!: tcp_stepE simp: shut_down_def close_listener_def)
  with tcp_drains [OF new reach _ path, of ?h] have "held (t_policy ?s3) ?h = 0" by simp
  moreover have "tcp_left ?s = 3" by (simp add: tcp_left_def map_count_new)
  ultimately show ?thesis using reach path ret(1) by (intro exI [of _ ?p] exI [of _ ?s] exI [of _ ?s3]) simp
qed

section \<open>The UDP proxy\<close>

text \<open>An open connection has a relay; once \<open>closeAll\<close> has run, only the session being created meanwhile can be open.\<close>

definition udp_closing :: "udp_state \<Rightarrow> bool" where
  "udp_closing s \<longleftrightarrow>
     open_ids s \<subseteq> u_relays s \<and>
     (u_closed_all s \<longrightarrow> u_done s \<and> \<not> u_listening s \<and> (creating (u_pc s) \<noteq> None \<longrightarrow> open_ids s = {}) \<and> (\<exists>i. open_ids s \<subseteq> {i}))"

lemma open_ids_heap: "u_heap t = u_heap s \<Longrightarrow> open_ids t = open_ids s"
  by (simp add: open_ids_def)

lemma open_ids_set_last: "u_heap t = set_last (u_heap s) i now \<Longrightarrow> open_ids t = open_ids s"
  by (auto simp: open_ids_def set_last_def split: option.splits if_splits)

lemma open_ids_close: "u_heap t = close_conn (u_heap s) i \<Longrightarrow> open_ids t = open_ids s - {i}"
  by (auto simp: open_ids_def close_conn_def split: option.splits if_splits)

lemma sweep_key_open: "open_ids (sweep_key now k s) \<subseteq> open_ids s"
  by (auto simp: sweep_key_def open_ids_def close_conn_def split: option.splits if_splits)

lemma sweep_open: "open_ids (sweep now keys s) \<subseteq> open_ids s"
  unfolding sweep_def using sweep_key_open by (induction keys arbitrary: s) (simp, fastforce)

lemma sweep_rest:
  "u_relays (sweep now keys s) = u_relays s \<and> u_pc (sweep now keys s) = u_pc s \<and> u_done (sweep now keys s) = u_done s \<and>
   u_listening (sweep now keys s) = u_listening s \<and> u_closed_all (sweep now keys s) = u_closed_all s"
  unfolding sweep_def by (induction keys arbitrary: s) (simp_all add: sweep_key_def split: option.splits)

lemma closeAll_open:
  assumes "udp_inv s" "open_ids s \<subseteq> u_relays s"
  shows "open_ids (closeAll s) = {}"
proof -
  have "i \<in> ran (u_table s)" if "i \<in> open_ids s" for i
    using that assms by (fastforce simp: udp_inv_def relays_ok_def open_ids_def intro: ranI)
  then show ?thesis by (auto simp: open_ids_def closeAll_def)
qed

lemma udp_closing_less:
  "udp_closing s \<Longrightarrow> open_ids t \<subseteq> open_ids s \<Longrightarrow> u_relays t = u_relays s \<Longrightarrow> u_done t = u_done s \<Longrightarrow>
   u_listening t = u_listening s \<Longrightarrow> u_closed_all t = u_closed_all s \<Longrightarrow> (creating (u_pc t) \<noteq> None \<Longrightarrow> creating (u_pc s) \<noteq> None) \<Longrightarrow> udp_closing t"
  unfolding udp_closing_def by (metis subset_empty subset_trans)

lemma lookup_closing: "udp_closing s \<Longrightarrow> \<not> u_closed_all s \<Longrightarrow> udp_closing (lookup key now s)"
proof (cases "u_table s key")
  case None
  assume "udp_closing s" "\<not> u_closed_all s"
  moreover from None have "open_ids (lookup key now s) = open_ids s" by (intro open_ids_heap) (simp add: lookup_def)
  ultimately show ?thesis using None by (simp add: udp_closing_def) (simp add: lookup_def)
next
  case (Some i)
  assume "udp_closing s" "\<not> u_closed_all s"
  moreover from Some have "open_ids (lookup key now s) = open_ids s"
    by (intro open_ids_set_last [of _ s i now]) (simp add: lookup_def)
  ultimately show ?thesis using Some by (simp add: udp_closing_def) (simp add: lookup_def)
qed

lemma insert_closing:
  assumes "udp_closing s" "creating (u_pc s) \<noteq> None"
  shows "udp_closing (create_insert i now key host s)"
proof -
  let ?t = "create_insert i now key host s"
  have none: "u_closed_all s \<Longrightarrow> open_ids s = {}" using assms by (auto simp: udp_closing_def)
  have "open_ids ?t \<subseteq> insert i (open_ids s)" "u_relays ?t = u_relays s \<and> open_ids ?t = open_ids s \<or> u_relays ?t = insert i (u_relays s)"
    by (auto simp: create_insert_def open_ids_def)
  moreover have "creating (u_pc ?t) = None" "u_done ?t = u_done s" "u_listening ?t = u_listening s" "u_closed_all ?t = u_closed_all s"
    by (auto simp: create_insert_def creating_def)
  ultimately show ?thesis using assms(1) none unfolding udp_closing_def by fastforce
qed

lemma relay_end_closing:
  assumes "udp_closing s" "i \<notin> open_ids s"
  shows "udp_closing (relay_end i s)"
proof -
  let ?t = "relay_end i s"
  have "open_ids ?t = open_ids s" "u_relays ?t = u_relays s \<or> u_relays ?t = u_relays s - {i}" "u_pc ?t = u_pc s"
    "u_done ?t = u_done s" "u_listening ?t = u_listening s" "u_closed_all ?t = u_closed_all s"
    by (auto simp: relay_end_def remove_def open_ids_def split: option.splits)
  with assms show ?thesis unfolding udp_closing_def by auto
qed

lemma closeAll_closing:
  assumes "udp_closing s" "udp_inv s" "u_done s" "\<not> u_listening s"
  shows "udp_closing ((closeAll s)\<lparr>u_closed_all := True\<rparr>)"
proof -
  have "open_ids ((closeAll s)\<lparr>u_closed_all := True\<rparr>) = {}"
    using closeAll_open [OF assms(2)] assms(1) by (simp add: udp_closing_def open_ids_def)
  with assms(3,4) show ?thesis by (simp add: udp_closing_def closeAll_def)
qed

lemma udp_step_closing:
  assumes "udp_step s s'" "udp_inv s" "udp_closing s"
  shows "udp_closing s'"
  using assms(1)
proof (cases rule: udp_step.cases)
  case (Lookup key now)
  then show ?thesis using assms(3) by (auto simp: udp_closing_def [of s] intro!: lookup_closing [OF assms(3)])
next
  case (Insert key host i now)
  then show ?thesis using insert_closing [OF assms(3)] by (simp add: creating_def)
next
  case (RelayEnd i)
  then show ?thesis using relay_end_closing [OF assms(3)] by simp
next
  case CloseAll
  then show ?thesis using closeAll_closing [OF assms(3,2)] by simp
next
  case (Sweep keys now)
  show ?thesis unfolding Sweep(1) by (rule udp_closing_less [OF assms(3) sweep_open]) (simp_all add: sweep_rest)
next
  case (RelayData i now)
  have "open_ids s' = open_ids s" using RelayData(1) by (intro open_ids_set_last [of _ s i now]) (simp add: touch_def)
  then show ?thesis by (intro udp_closing_less [OF assms(3)]) (use RelayData in \<open>auto simp: touch_def\<close>)
next
  case (RelayClose i)
  have "open_ids s' = open_ids s - {i}" using RelayClose(1) by (intro open_ids_close) (simp add: relay_close_def)
  then show ?thesis by (intro udp_closing_less [OF assms(3)]) (use RelayClose in \<open>auto simp: relay_close_def\<close>)
qed (use assms(3) in \<open>auto simp: udp_closing_def create_check_def create_acquire_def create_dial_def read_failed_def
  close_conn_listener_def open_ids_def creating_def split: prod.splits option.splits\<close>)

lemma udp_reachable_closing:
  "udp_reachable p s \<Longrightarrow> NewStreamPolicy allow deny maxPerIP = Inr p \<Longrightarrow> udp_closing s"
proof (induction rule: udp_reachable.induct)
  case Init
  then show ?case by (simp add: udp_closing_def udp_init_def open_ids_def)
next
  case (Step s s')
  then show ?case using udp_step_closing udp_reachable_new by blast
qed

text \<open>The relays end one after the other.\<close>

lemma relay_end_rest:
  assumes "udp_inv s" "i \<in> u_relays s"
  shows "u_relays (relay_end i s) = u_relays s - {i} \<and> open_ids (relay_end i s) = open_ids s \<and> u_pc (relay_end i s) = u_pc s"
proof -
  obtain sess where "u_heap s i = Some sess" using assms by (auto simp: udp_inv_def relays_ok_def)
  then show ?thesis by (simp add: relay_end_def remove_def open_ids_def)
qed

lemma relays_end:
  assumes "udp_inv s" "open_ids s = {}" "distinct is" "set is = u_relays s"
  shows "rtranclp udp_step s (fold relay_end is s) \<and> udp_inv (fold relay_end is s) \<and>
    u_relays (fold relay_end is s) = {} \<and> u_pc (fold relay_end is s) = u_pc s"
  using assms
proof (induction "is" arbitrary: s)
  case (Cons i rest)
  then have i: "i \<in> u_relays s" "i \<notin> open_ids s" by auto
  note r = relay_end_rest [OF Cons.prems(1) i(1)]
  have "udp_step s (relay_end i s)" by (rule udp_step.RelayEnd [OF i])
  moreover have "rtranclp udp_step (relay_end i s) (fold relay_end rest (relay_end i s)) \<and> udp_inv (fold relay_end rest (relay_end i s)) \<and>
      u_relays (fold relay_end rest (relay_end i s)) = {} \<and> u_pc (fold relay_end rest (relay_end i s)) = u_pc (relay_end i s)"
    using Cons.prems r by (intro Cons.IH relay_end_inv i) auto
  ultimately show ?case using r by (auto intro: converse_rtranclp_into_rtranclp)
qed simp

lemma udp_inv_drained:
  assumes "udp_inv s" "u_relays s = {}" "u_pc s = Stopped"
  shows "u_table s = Map.empty \<and> held (u_policy s) h = 0"
proof -
  have "u_table s k = None" for k using table_okD [OF udp_inv_table [OF assms(1)], of k] assms(2) by fastforce
  then have "u_table s = Map.empty" by blast
  with assms udp_inv_held [OF assms(1), of h] show ?thesis by (simp add: pending_def)
qed

text \<open>C24: Shutting down a UDP proxy: once the listener is closed and \<open>closeAll\<close> has run, at most one upstream connection is
  open, the one of a packet that was being handled meanwhile; when none is and the loop has returned, every relay can end,
  in whatever order they do, and then the table is empty and nothing is held at the policy.\<close>

theorem udp_drains:
  assumes "NewStreamPolicy allow deny maxPerIP = Inr p" "udp_reachable p s" "u_closed_all s"
  shows "(\<exists>i. open_ids s \<subseteq> {i}) \<and>
    (u_pc s = Stopped \<longrightarrow> open_ids s = {} \<longrightarrow> distinct is \<longrightarrow> set is = u_relays s \<longrightarrow>
       rtranclp udp_step s (fold relay_end is s) \<and> u_table (fold relay_end is s) = Map.empty \<and>
       held (u_policy (fold relay_end is s)) h = 0)"
proof -
  have "udp_inv s" "udp_closing s" using udp_reachable_new [OF assms(1,2)] udp_reachable_closing [OF assms(2,1)] by simp_all
  then show ?thesis
    using relays_end [of s "is"] udp_inv_drained [of "fold relay_end is s" h] assms(3) unfolding udp_closing_def by auto
qed

text \<open>The proxy with one session, shut down and its loop returned.\<close>

definition one_closed :: udp_state where
  "one_closed = one_session\<lparr>u_pc := Stopped, u_done := True, u_listening := False, u_closed_all := True,
     u_heap := [0 \<mapsto> \<lparr>us_client = ''10.0.0.1:53'', us_host = ''10.0.0.1'', us_last = 7, us_open = False\<rparr>]\<rparr>"

lemma one_closed_reachable: "udp_reachable open_policy one_closed"
proof -
  let ?w = "one_session\<lparr>u_pc := Reading\<rparr>"
  have "udp_reachable open_policy ?w"
    by (rule udp_reachable.Step [OF one_session_reachable udp_step.Write [of _ 0]]) (simp add: one_session_def)
  then have "udp_reachable open_policy (read_failed ?w)"
    by (rule udp_reachable.Step) (rule udp_step.ReadError, simp)
  then have "udp_reachable open_policy ((read_failed ?w)\<lparr>u_done := True\<rparr>)"
    by (rule udp_reachable.Step) (rule udp_step.Shutdown)
  then have "udp_reachable open_policy ((closeAll ((read_failed ?w)\<lparr>u_done := True\<rparr>))\<lparr>u_closed_all := True\<rparr>)"
    by (rule udp_reachable.Step) (rule udp_step.CloseAll, simp_all add: read_failed_def close_conn_listener_def one_session_def)
  moreover have "(closeAll ((read_failed ?w)\<lparr>u_done := True\<rparr>))\<lparr>u_closed_all := True\<rparr> = one_closed"
    by (simp add: closeAll_def read_failed_def close_conn_listener_def one_closed_def one_session_def fun_eq_iff)
  ultimately show ?thesis by simp
qed

lemma udp_drains_witness:
  "udp_reachable open_policy one_closed \<and> u_relays one_closed = {0} \<and> u_table (relay_end 0 one_closed) = Map.empty \<and>
   held (u_policy (relay_end 0 one_closed)) ''10.0.0.1'' = 0"
  using udp_drains [OF new_open_policy one_closed_reachable, of "[0]" "''10.0.0.1''"] one_closed_reachable
  by (simp add: one_closed_def one_session_def open_ids_def)

text \<open>The one connection that may stay open does: a session created after \<open>closeAll\<close> is never closed by the proxy, as the
  sweeper has returned as well, and its relay waits until the upstream answers.\<close>

definition late_session :: udp_state where
  "late_session = one_session\<lparr>u_pc := Stopped, u_done := True, u_listening := False, u_closed_all := True, u_sweeping := False\<rparr>"

lemma late_step_relay:
  assumes "udp_step late_session s'" "s' \<noteq> late_session"
  shows "(\<exists>now. s' = touch 0 now late_session) \<or> s' = relay_close 0 late_session"
  using assms by (auto elim!: udp_stepE simp: late_session_def one_session_def open_ids_def close_conn_listener_def)

lemma missed_late:
  assumes "udp_reachable p (udp_init p)" "fst (acquire p key) = Some h"
  shows "udp_reachable p (create_insert 0 now key h ((udp_init p)\<lparr>u_policy := snd (acquire p key), u_pc := Dialed key h,
    u_done := True, u_listening := False, u_closed_all := True\<rparr>))"
proof -
  let ?c = "(udp_init p)\<lparr>u_policy := snd (acquire p key), u_pc := Dialed key h\<rparr>"
  obtain q where acq: "acquire p key = (Some h, q)" using assms(2) by (cases "acquire p key") simp
  have "udp_step (udp_init p) ((udp_init p)\<lparr>u_pc := Missed key\<rparr>)"
    using udp_step.Lookup [of "udp_init p" key now] by (simp add: udp_init_def lookup_def)
  moreover have "udp_step ((udp_init p)\<lparr>u_pc := Missed key\<rparr>) ((udp_init p)\<lparr>u_pc := CapOk key\<rparr>)"
    using udp_step.Check [of "(udp_init p)\<lparr>u_pc := Missed key\<rparr>" key] by (simp add: udp_init_def create_check_def maxUDPSessions_def)
  moreover have "udp_step ((udp_init p)\<lparr>u_pc := CapOk key\<rparr>) ((udp_init p)\<lparr>u_policy := q, u_pc := HasHost key h\<rparr>)"
    using udp_step.Acquire [of "(udp_init p)\<lparr>u_pc := CapOk key\<rparr>" key] by (simp add: udp_init_def create_acquire_def acq)
  moreover have "udp_step ((udp_init p)\<lparr>u_policy := q, u_pc := HasHost key h\<rparr>) ?c"
    using udp_step.Dial [of "(udp_init p)\<lparr>u_policy := q, u_pc := HasHost key h\<rparr>" key h True] by (simp add: udp_init_def create_dial_def acq)
  moreover have "udp_step ?c (?c\<lparr>u_done := True\<rparr>)" by (rule udp_step.Shutdown)
  moreover have "udp_step (?c\<lparr>u_done := True\<rparr>) (?c\<lparr>u_done := True, u_listening := False\<rparr>)"
    using udp_step.CloseListener [of "?c\<lparr>u_done := True\<rparr>"] by (simp add: close_conn_listener_def)
  moreover have "udp_step (?c\<lparr>u_done := True, u_listening := False\<rparr>) (?c\<lparr>u_done := True, u_listening := False, u_closed_all := True\<rparr>)"
    using udp_step.CloseAll [of "?c\<lparr>u_done := True, u_listening := False\<rparr>"] by (simp add: udp_init_def closeAll_def)
  moreover have "udp_step (?c\<lparr>u_done := True, u_listening := False, u_closed_all := True\<rparr>)
      (create_insert 0 now key h (?c\<lparr>u_done := True, u_listening := False, u_closed_all := True\<rparr>))"
    by (rule udp_step.Insert) (simp_all add: udp_init_def)
  ultimately show ?thesis using assms(1) by (meson udp_reachable.Step)
qed

lemma late_session_waits:
  "udp_reachable open_policy late_session \<and> u_closed_all late_session \<and> u_pc late_session = Stopped \<and> open_ids late_session = {0} \<and>
   (\<forall>s'. udp_step late_session s' \<longrightarrow> s' = late_session \<or> (\<exists>now. s' = touch 0 now late_session) \<or> s' = relay_close 0 late_session)"
proof -
  let ?k = "''10.0.0.1:53''" and ?h = "''10.0.0.1''"
  have h: "fst (acquire open_policy ?k) = Some ?h" by code_simp
  let ?s = "one_session\<lparr>u_done := True, u_listening := False, u_closed_all := True\<rparr>"
  have "udp_reachable open_policy ?s"
    using missed_late [OF udp_reachable.Init h, of 7]
    by (simp add: create_insert_def udp_init_def maxUDPSessions_def one_session_def)
  then have "udp_reachable open_policy (?s\<lparr>u_pc := Reading\<rparr>)"
    by (rule udp_reachable.Step) (rule udp_step.Write [of _ 0], simp add: one_session_def)
  then have "udp_reachable open_policy (read_failed (?s\<lparr>u_pc := Reading\<rparr>))"
    by (rule udp_reachable.Step) (rule udp_step.ReadError, simp)
  then have "udp_reachable open_policy ((read_failed (?s\<lparr>u_pc := Reading\<rparr>))\<lparr>u_sweeping := False\<rparr>)"
    by (rule udp_reachable.Step) (rule udp_step.SweepStop, simp add: read_failed_def close_conn_listener_def)
  moreover have "(read_failed (?s\<lparr>u_pc := Reading\<rparr>))\<lparr>u_sweeping := False\<rparr> = late_session"
    by (simp add: read_failed_def close_conn_listener_def late_session_def one_session_def)
  moreover have "u_closed_all late_session" "u_pc late_session = Stopped" "open_ids late_session = {0}"
    by (auto simp: late_session_def one_session_def open_ids_def)
  ultimately show ?thesis using late_step_relay by metis
qed

end
