(* ===== verification/Lifecycle.thy ===== *)
theory Lifecycle
  imports Serving Watcher Shutdown
begin

text \<open>
  The life of the server process: \<open>Run\<close> of \<open>app/internal/core/run.go\<close>.  It creates and loads the configuration, builds
  the server (theory Core), fixes the settings of the HTTP server and the monitor, and then waits for an error of the HTTP
  server or a signal; it closes \<open>done\<close>, shuts the HTTP server down, waits for the stream proxies and closes the
  request log.  The stream proxies run beside it: the state holds one machine of TcpProxy or UdpProxy per listener,
  and any of them may take a step at any time.
\<close>

section \<open>Before the server runs\<close>

definition seconds_of :: "int \<Rightarrow> duration" where
  "seconds_of n = i64 (i64 n * second)"

record http_server =
  hs_Addr :: string
  hs_ClientAuth :: "client_auth option"
  hs_ReadHeaderTimeout :: duration
  hs_ReadTimeout :: duration
  hs_WriteTimeout :: duration
  hs_IdleTimeout :: duration
  hs_MaxHeaderBytes :: int
  hs_SkipPaths :: "string list"

definition http_settings :: "ServerConfig \<Rightarrow> client_auth option \<Rightarrow> http_server" where
  "http_settings cfg tls =
     \<lparr>hs_Addr = listenAddress (cfg_Host cfg) (cfg_Port cfg), hs_ClientAuth = tls,
      hs_ReadHeaderTimeout = 5 * second,
      hs_ReadTimeout = seconds_of (int (to_Read (cfg_Timeout cfg))),
      hs_WriteTimeout = seconds_of (int (to_Write (cfg_Timeout cfg))),
      hs_IdleTimeout = seconds_of (int (to_Idle (cfg_Timeout cfg))),
      hs_MaxHeaderBytes = 2 ^ 20,
      hs_SkipPaths = normalizeSkipPaths (cfg_SkipPaths cfg)\<rparr>"

definition watch_options :: "ServerConfig \<Rightarrow> Options option" where
  "watch_options cfg =
     (let w = cfg_Watcher cfg in
      if wc_Status w = ''on'' then
        Some \<lparr>op_Project = wc_ProjectName w, op_LimitMB = wc_MemoryLimitMB w,
          op_Interval = seconds_of (wc_IntervalSeconds w), op_Cooldown = seconds_of (wc_CooldownSeconds w),
          op_HeapProfile = wc_HeapProfile w, op_WebhookURL = wc_WebhookURL w, op_Dir = ''''\<rparr>
      else None)"

datatype run_error = CreateFailed fs_error | LoadFailed load_error | StartFailed startup_error

text \<open>\<open>Run\<close> up to the point where the HTTP server is started; every error is fatal.\<close>

definition prepare ::
  "fs_error option \<Rightarrow> load_error + ServerConfig \<Rightarrow> sockets \<Rightarrow> (string \<Rightarrow> url option) \<Rightarrow> (string \<Rightarrow> bool option) \<Rightarrow> bool \<Rightarrow>
   run_error + server \<times> http_server \<times> Options option" where
  "prepare created loaded so parse ca pprof =
     (case created of
        Some e \<Rightarrow> Inl (CreateFailed e)
      | None \<Rightarrow>
          (case loaded of
             Inl e \<Rightarrow> Inl (LoadFailed e)
           | Inr cfg \<Rightarrow>
               (case start so parse ca pprof cfg of
                  Inl e \<Rightarrow> Inl (StartFailed e)
                | Inr sv \<Rightarrow>
                    (case buildTLS ca (cfg_Security cfg) of
                       Inl e \<Rightarrow> Inl (StartFailed (TlsFailed e))
                     | Inr tls \<Rightarrow> Inr (sv, http_settings cfg tls, watch_options cfg)))))"

section \<open>The running process\<close>

datatype run_pc = Selecting | Draining | Joining | Finished | Exited

record running =
  run_pc :: run_pc
  run_done :: bool
  run_tcp :: "tcp_state list"
  run_udp :: "udp_state list"
  run_logger_closed :: bool

definition run_init :: "server \<Rightarrow> running" where
  "run_init sv =
     \<lparr>run_pc = Selecting, run_done = False,
      run_tcp = map (\<lambda>l. tcp_init (ln_policy l)) (filter (\<lambda>l. ln_protocol l = ''tcp'') (sv_streams sv)),
      run_udp = map (\<lambda>l. udp_init (ln_policy l)) (filter (\<lambda>l. ln_protocol l = ''udp'') (sv_streams sv)),
      run_logger_closed = False\<rparr>"

text \<open>\<open>stop\<close> closes the channel once; closing it again does nothing.\<close>

definition stop_streams :: "running \<Rightarrow> running" where
  "stop_streams r = r\<lparr>run_done := True\<rparr>"

text \<open>The two cases of the select: an error of the HTTP server, fatal unless it was closed, and a signal.\<close>

definition server_error :: "bool \<Rightarrow> running \<Rightarrow> running" where
  "server_error fatal r = (stop_streams r)\<lparr>run_pc := (if fatal then Exited else Joining)\<rparr>"

definition shutdown_signal :: "running \<Rightarrow> running" where
  "shutdown_signal r = (stop_streams r)\<lparr>run_pc := Draining\<rparr>"

definition http_shut :: "running \<Rightarrow> running" where
  "http_shut r = r\<lparr>run_pc := Joining\<rparr>"

text \<open>What \<open>streams.Wait\<close> waits for: the goroutines that run the proxies' loops.\<close>

definition loops_ended :: "running \<Rightarrow> bool" where
  "loops_ended r \<longleftrightarrow> list_all (\<lambda>s. t_pc s = Returned) (run_tcp r) \<and> list_all (\<lambda>s. u_pc s = Stopped) (run_udp r)"

definition run_return :: "running \<Rightarrow> running" where
  "run_return r = (stop_streams r)\<lparr>run_pc := Finished, run_logger_closed := True\<rparr>"

inductive run_step :: "running \<Rightarrow> running \<Rightarrow> bool" where
  ServerError: "run_pc r = Selecting \<Longrightarrow> run_step r (server_error fatal r)"
| Signal: "run_pc r = Selecting \<Longrightarrow> run_step r (shutdown_signal r)"
| HttpShut: "run_pc r = Draining \<Longrightarrow> run_step r (http_shut r)"
| Join: "run_pc r = Joining \<Longrightarrow> loops_ended r \<Longrightarrow> run_step r (run_return r)"
| Tcp: "run_pc r \<noteq> Finished \<Longrightarrow> run_pc r \<noteq> Exited \<Longrightarrow> i < length (run_tcp r) \<Longrightarrow> tcp_step (run_tcp r ! i) s \<Longrightarrow>
     (t_done s \<longrightarrow> run_done r) \<Longrightarrow> run_step r (r\<lparr>run_tcp := (run_tcp r)[i := s]\<rparr>)"
| Udp: "run_pc r \<noteq> Finished \<Longrightarrow> run_pc r \<noteq> Exited \<Longrightarrow> i < length (run_udp r) \<Longrightarrow> udp_step (run_udp r ! i) s \<Longrightarrow>
     (u_done s \<longrightarrow> run_done r) \<Longrightarrow> run_step r (r\<lparr>run_udp := (run_udp r)[i := s]\<rparr>)"

inductive run_reachable :: "server \<Rightarrow> running \<Rightarrow> bool" for sv where
  Init: "run_reachable sv (run_init sv)"
| Step: "run_reachable sv r \<Longrightarrow> run_step r r' \<Longrightarrow> run_reachable sv r'"

inductive_cases run_stepE: "run_step r r'"

lemmas run_ops = server_error_def shutdown_signal_def http_shut_def run_return_def stop_streams_def

section \<open>Laws\<close>

definition tcp_listeners :: "server \<Rightarrow> listener list" where
  "tcp_listeners sv = filter (\<lambda>l. ln_protocol l = ''tcp'') (sv_streams sv)"

definition udp_listeners :: "server \<Rightarrow> listener list" where
  "udp_listeners sv = filter (\<lambda>l. ln_protocol l = ''udp'') (sv_streams sv)"

text \<open>Every listener of a started server belongs to a stream upstream and has that upstream's addresses and policy.\<close>

definition listener_of :: "listener \<Rightarrow> Upstream \<Rightarrow> bool" where
  "listener_of l u \<longleftrightarrow> is_stream u \<and> ln_protocol l = protocol_of u \<and> ln_listen l = trim_space (up_Listen u) \<and>
     ln_target l = trim_space (up_ServerURL u) \<and>
     NewStreamPolicy (sec_AllowCIDRs (up_Security u)) (sec_DenyCIDRs (up_Security u)) (sec_MaxConnsPerIP (up_Security u)) = Inr (ln_policy l)"

text \<open>The stream upstreams of one protocol whose sockets can be opened, in the order of the configuration.\<close>

definition opened :: "sockets \<Rightarrow> Upstream \<Rightarrow> bool" where
  "opened so u \<longleftrightarrow>
     (let listen = trim_space (up_Listen u) in
      if protocol_of u = ''tcp'' then so_tcp so listen else so_resolve so listen \<and> so_udp so listen)"

definition stream_upstreams :: "sockets \<Rightarrow> string \<Rightarrow> ServerConfig \<Rightarrow> Upstream list" where
  "stream_upstreams so protocol cfg = filter (\<lambda>u. is_stream u \<and> opened so u \<and> protocol_of u = protocol) (cfg_Upstream cfg)"

lemma register_stream:
  assumes "is_stream u"
    "NewStreamPolicy (sec_AllowCIDRs (up_Security u)) (sec_DenyCIDRs (up_Security u)) (sec_MaxConnsPerIP (up_Security u)) = Inr policy"
  shows "\<exists>ls. (if protocol_of u = ''tcp'' then startTCP so u policy st else startUDP so u policy st) = st @ ls \<and>
    list_all2 listener_of ls (if opened so u then [u] else [])"
proof (cases "protocol_of u = ''tcp''")
  case True
  with assms show ?thesis by (auto simp: startTCP_def opened_def listener_of_def Let_def)
next
  case False
  then have "protocol_of u = ''udp''" using assms(1) by (simp add: is_stream_def)
  with assms show ?thesis by (auto simp: startUDP_def opened_def listener_of_def Let_def)
qed

lemma register_all_listeners:
  "register_all so parse global dt us m st hs = Inr (m', st', hs') \<Longrightarrow>
   \<exists>ls. st' = st @ ls \<and> list_all2 listener_of ls (filter (\<lambda>u. is_stream u \<and> opened so u) us)"
proof (induction us arbitrary: m st hs)
  case (Cons u us)
  show ?case
  proof (cases "is_stream u")
    case True
    then obtain policy where p: "NewStreamPolicy (sec_AllowCIDRs (up_Security u)) (sec_DenyCIDRs (up_Security u)) (sec_MaxConnsPerIP (up_Security u)) = Inr policy"
      "register_all so parse global dt us m (if protocol_of u = ''tcp'' then startTCP so u policy st else startUDP so u policy st) hs = Inr (m', st', hs')"
      using Cons.prems by (auto split: sum.splits)
    obtain ls where ls: "(if protocol_of u = ''tcp'' then startTCP so u policy st else startUDP so u policy st) = st @ ls"
      "list_all2 listener_of ls (if opened so u then [u] else [])" using register_stream [OF True p(1)] by blast
    obtain ls' where ls': "st' = (st @ ls) @ ls'" "list_all2 listener_of ls' (filter (\<lambda>u. is_stream u \<and> opened so u) us)"
      using Cons.IH [OF p(2)] unfolding ls(1) by blast
    have "list_all2 listener_of (ls @ ls') ((if opened so u then [u] else []) @ filter (\<lambda>u. is_stream u \<and> opened so u) us)"
      by (rule list_all2_appendI [OF ls(2) ls'(2)])
    then show ?thesis using True by (intro exI [of _ "ls @ ls'"]) (cases "opened so u"; simp add: ls'(1))
  next
    case False
    with Cons.prems obtain r where r: "make_route parse global dt u = Inr r" by (auto split: sum.splits)
    have "\<exists>m1 hs1. register_all so parse global dt us m1 st hs1 = Inr (m', st', hs')"
      using Cons.prems False r by (cases r) (auto split: sum.splits)
    with Cons.IH False show ?thesis by auto
  qed
qed simp

lemma list_all2_filter: "list_all2 R xs ys \<Longrightarrow> (\<And>x y. R x y \<Longrightarrow> P x = Q y) \<Longrightarrow> list_all2 R (filter P xs) (filter Q ys)"
  by (induction xs ys rule: list_all2_induct) auto

lemma start_listeners:
  assumes "start so parse ca pprof cfg = Inr sv"
  shows "list_all2 listener_of (filter (\<lambda>l. ln_protocol l = protocol) (sv_streams sv)) (stream_upstreams so protocol cfg)"
proof -
  have "list_all2 listener_of (sv_streams sv) (filter (\<lambda>u. is_stream u \<and> opened so u) (cfg_Upstream cfg))"
    using assms by (auto simp: start_def Let_def split: if_splits sum.splits dest!: register_all_listeners)
  from list_all2_filter [OF this, of "\<lambda>l. ln_protocol l = protocol" "\<lambda>u. protocol_of u = protocol"] show ?thesis
    by (simp add: listener_of_def stream_upstreams_def)
qed

definition run_inv :: "server \<Rightarrow> running \<Rightarrow> bool" where
  "run_inv sv r \<longleftrightarrow>
     list_all2 (\<lambda>l s. tcp_reachable (ln_policy l) s) (tcp_listeners sv) (run_tcp r) \<and>
     list_all2 (\<lambda>l s. udp_reachable (ln_policy l) s) (udp_listeners sv) (run_udp r) \<and>
     list_all (\<lambda>s. t_done s \<longrightarrow> run_done r) (run_tcp r) \<and> list_all (\<lambda>s. u_done s \<longrightarrow> run_done r) (run_udp r) \<and>
     (run_pc r = Selecting \<longleftrightarrow> \<not> run_done r) \<and> (run_logger_closed r \<longleftrightarrow> run_pc r = Finished) \<and>
     (run_pc r = Finished \<longrightarrow> loops_ended r)"

lemma list_all2_step:
  assumes "list_all2 (\<lambda>l s. R (f l) s) ls ss" "i < length ss" "\<And>p. R p (ss ! i) \<Longrightarrow> R p s"
  shows "list_all2 (\<lambda>l s. R (f l) s) ls (ss[i := s])"
  using assms by (auto simp: list_all2_conv_all_nth nth_list_update)

lemma list_all_step: "list_all P ss \<Longrightarrow> P s \<Longrightarrow> list_all P (ss[i := s])"
  by (auto simp: list_all_iff dest: subsetD [OF set_update_subset_insert])

lemma run_inv_reachable: "run_reachable sv r \<Longrightarrow> run_inv sv r"
proof (induction rule: run_reachable.induct)
  case Init
  have "list_all2 (\<lambda>l s. tcp_reachable (ln_policy l) s) (tcp_listeners sv) (run_tcp (run_init sv))"
    "list_all2 (\<lambda>l s. udp_reachable (ln_policy l) s) (udp_listeners sv) (run_udp (run_init sv))"
    by (auto simp: run_init_def tcp_listeners_def udp_listeners_def list_all2_map2 list.rel_refl
        intro!: list_all2I tcp_reachable.Init udp_reachable.Init simp: zip_same)
  then show ?case by (simp add: run_inv_def run_init_def list_all_iff tcp_init_def udp_init_def)
next
  case (Step r r')
  from Step.hyps(2) Step.IH show ?case
  proof (cases rule: run_step.cases)
    case (Tcp i s)
    have "list_all2 (\<lambda>l s. tcp_reachable (ln_policy l) s) (tcp_listeners sv) ((run_tcp r)[i := s])"
      using Step.IH Tcp(4,5) by (intro list_all2_step) (simp_all add: run_inv_def tcp_reachable.Step)
    moreover have "list_all (\<lambda>s. t_done s \<longrightarrow> run_done r) ((run_tcp r)[i := s])"
      using Step.IH Tcp(6) unfolding run_inv_def by (blast intro: list_all_step)
    ultimately show ?thesis using Step.IH Tcp(1-3) by (simp add: run_inv_def)
  next
    case (Udp i s)
    have "list_all2 (\<lambda>l s. udp_reachable (ln_policy l) s) (udp_listeners sv) ((run_udp r)[i := s])"
      using Step.IH Udp(4,5) by (intro list_all2_step) (simp_all add: run_inv_def udp_reachable.Step)
    moreover have "list_all (\<lambda>s. u_done s \<longrightarrow> run_done r) ((run_udp r)[i := s])"
      using Step.IH Udp(6) unfolding run_inv_def by (blast intro: list_all_step)
    ultimately show ?thesis using Step.IH Udp(1-3) by (simp add: run_inv_def)
  qed (simp_all add: run_inv_def run_ops loops_ended_def list_all_iff)
qed

section \<open>Properties\<close>

text \<open>A policy in step with a listener's keeps the limit of the listener's upstream.\<close>

lemma listener_held:
  assumes "listener_of l u" "quota q = quota (ln_policy l)" "policy_ok q" "0 < sec_MaxConnsPerIP (up_Security u)"
  shows "int (held q h) \<le> sec_MaxConnsPerIP (up_Security u)"
  using assms(1) by (intro held_maxPerIP [OF _ assms(2-4)]) (auto simp: listener_of_def)

lemma started_tcp:
  assumes "start so parse ca pprof cfg = Inr sv" "run_reachable sv r"
  shows "list_all2 (\<lambda>u s. \<exists>l. listener_of l u \<and> tcp_reachable (ln_policy l) s) (stream_upstreams so ''tcp'' cfg) (run_tcp r)"
proof -
  have "list_all2 (\<lambda>l s. tcp_reachable (ln_policy l) s) (tcp_listeners sv) (run_tcp r)"
    using run_inv_reachable [OF assms(2)] by (simp add: run_inv_def)
  with start_listeners [OF assms(1), of "''tcp''"] show ?thesis
    unfolding tcp_listeners_def list_all2_conv_all_nth by metis
qed

lemma started_udp:
  assumes "start so parse ca pprof cfg = Inr sv" "run_reachable sv r"
  shows "list_all2 (\<lambda>u s. \<exists>l. listener_of l u \<and> udp_reachable (ln_policy l) s) (stream_upstreams so ''udp'' cfg) (run_udp r)"
proof -
  have "list_all2 (\<lambda>l s. udp_reachable (ln_policy l) s) (udp_listeners sv) (run_udp r)"
    using run_inv_reachable [OF assms(2)] by (simp add: run_inv_def)
  with start_listeners [OF assms(1), of "''udp''"] show ?thesis
    unfolding udp_listeners_def list_all2_conv_all_nth by metis
qed

text \<open>A proxy that keeps the limits of an upstream.\<close>

definition tcp_within :: "Upstream \<Rightarrow> tcp_state \<Rightarrow> bool" where
  "tcp_within u s \<longleftrightarrow>
     map_count (\<lambda>v. fst v = Proxying) (t_conns s) \<le> maxTCPConnections \<and>
     (0 < sec_MaxConnsPerIP (up_Security u) \<longrightarrow> (\<forall>h. int (map_count (\<lambda>v. snd v = h) (t_conns s)) \<le> sec_MaxConnsPerIP (up_Security u)))"

definition udp_within :: "Upstream \<Rightarrow> udp_state \<Rightarrow> bool" where
  "udp_within u s \<longleftrightarrow>
     map_len (u_table s) \<le> maxUDPSessions \<and>
     (0 < sec_MaxConnsPerIP (up_Security u) \<longrightarrow>
        (\<forall>h. int (map_count (\<lambda>k. host_at (u_heap s) k = h) (u_table s)) \<le> sec_MaxConnsPerIP (up_Security u)))"

lemma tcp_reachable_within:
  assumes "listener_of l u" "tcp_reachable (ln_policy l) s"
  shows "tcp_within u s"
proof -
  from assms(1) have "NewStreamPolicy (sec_AllowCIDRs (up_Security u)) (sec_DenyCIDRs (up_Security u)) (sec_MaxConnsPerIP (up_Security u)) = Inr (ln_policy l)"
    by (simp add: listener_of_def)
  from tcp_reachable_new [OF this assms(2)] have inv: "tcp_inv s" "quota (t_policy s) = quota (ln_policy l)" by simp_all
  then have "policy_ok (t_policy s)" by (simp add: tcp_inv_def sp.in_step_def)
  from listener_held [OF assms(1) inv(2) this] have "0 < sec_MaxConnsPerIP (up_Security u) \<Longrightarrow> int (held (t_policy s) h) \<le> sec_MaxConnsPerIP (up_Security u)" for h .
  moreover have "map_count (\<lambda>v. snd v = h) (t_conns s) \<le> held (t_policy s) h" for h
    using inv(1) by (simp add: tcp_inv_held)
  moreover have "map_count (\<lambda>v. fst v = Proxying) (t_conns s) \<le> maxTCPConnections" using inv(1) by (auto simp: tcp_inv_def)
  ultimately show ?thesis unfolding tcp_within_def by (meson order_trans of_nat_mono)
qed

lemma udp_reachable_within:
  assumes "listener_of l u" "udp_reachable (ln_policy l) s"
  shows "udp_within u s"
proof -
  from assms(1) have "NewStreamPolicy (sec_AllowCIDRs (up_Security u)) (sec_DenyCIDRs (up_Security u)) (sec_MaxConnsPerIP (up_Security u)) = Inr (ln_policy l)"
    by (simp add: listener_of_def)
  from udp_reachable_new [OF this assms(2)] have inv: "udp_inv s" "quota (u_policy s) = quota (ln_policy l)" by simp_all
  then have "policy_ok (u_policy s)" by (simp add: udp_inv_def sp.in_step_def)
  from listener_held [OF assms(1) inv(2) this] have "0 < sec_MaxConnsPerIP (up_Security u) \<Longrightarrow> int (held (u_policy s) h) \<le> sec_MaxConnsPerIP (up_Security u)" for h .
  moreover have "map_count (\<lambda>k. host_at (u_heap s) k = h) (u_table s) \<le> held (u_policy s) h" for h
    using inv(1) by (auto simp: udp_inv_held udp_inv_def)
  ultimately show ?thesis using inv(1) unfolding udp_within_def udp_inv_def by (meson order_trans of_nat_mono)
qed

text \<open>C9: The limits of the configuration hold in the running server, whatever its stream proxies have done: the TCP proxies
  are, one by one and in order, those of the TCP upstreams of the configuration whose sockets could be opened, each on the
  address and with the target of its upstream, each serving at most 1024 connections and at most \<open>max_conns_per_ip\<close> of that
  upstream of one host when it is set; likewise the UDP proxies with at most 4096 sessions.\<close>

theorem running_streams_bounded:
  assumes "start so parse ca pprof cfg = Inr sv" "run_reachable sv r"
  shows "list_all2 tcp_within (stream_upstreams so ''tcp'' cfg) (run_tcp r) \<and>
    list_all2 udp_within (stream_upstreams so ''udp'' cfg) (run_udp r) \<and>
    list_all2 (\<lambda>l u. ln_listen l = trim_space (up_Listen u) \<and> ln_target l = trim_space (up_ServerURL u))
      (tcp_listeners sv) (stream_upstreams so ''tcp'' cfg) \<and>
    list_all2 (\<lambda>l u. ln_listen l = trim_space (up_Listen u) \<and> ln_target l = trim_space (up_ServerURL u))
      (udp_listeners sv) (stream_upstreams so ''udp'' cfg)"
  unfolding tcp_listeners_def udp_listeners_def
  by (intro conjI list_all2_mono [OF started_tcp [OF assms]] list_all2_mono [OF started_udp [OF assms]]
      list_all2_mono [OF start_listeners [OF assms(1)]])
    (auto simp: listener_of_def intro: tcp_reachable_within udp_reachable_within)

text \<open>C33: \<open>Run\<close> returns in order: not before \<open>done\<close> was closed and the loop of every stream proxy has ended, and the
  request log is closed last; no proxy sees \<open>done\<close> closed while the server still waits in its select.\<close>

theorem run_returns_in_order:
  assumes "run_reachable sv r"
  shows "(run_pc r = Finished \<longrightarrow> run_done r \<and> loops_ended r) \<and> (run_logger_closed r \<longleftrightarrow> run_pc r = Finished) \<and>
    (run_pc r = Selecting \<longrightarrow> list_all (\<lambda>s. \<not> t_done s) (run_tcp r) \<and> list_all (\<lambda>s. \<not> u_done s) (run_udp r))"
  using run_inv_reachable [OF assms] by (auto simp: run_inv_def list_all_iff)

section \<open>A server with one TCP listener\<close>

definition stream_upstream :: Upstream where
  "stream_upstream = zero_upstream\<lparr>up_Protocol := ''tcp'', up_Listen := '':9'', up_ServerURL := ''b:9'',
     up_Security := zero_security\<lparr>sec_MaxConnsPerIP := 1\<rparr>\<rparr>"

definition stream_config :: ServerConfig where
  "stream_config = zero_config\<lparr>cfg_Upstream := [stream_upstream]\<rparr>"

definition one_per_host :: stream_policy where
  "one_per_host = \<lparr>sp_allow = [], sp_deny = [], sp_maxPerIP = 1, sp_active = Map.empty\<rparr>"

lemma stream_started:
  "\<exists>sv. start all_sockets one_target (\<lambda>_. None) False stream_config = Inr sv \<and> run_tcp (run_init sv) = [tcp_init one_per_host] \<and>
     run_udp (run_init sv) = []"
proof -
  have "case start all_sockets one_target (\<lambda>_. None) False stream_config of Inl e \<Rightarrow> False
    | Inr sv \<Rightarrow> map ln_protocol (sv_streams sv) = [''tcp''] \<and> map (\<lambda>l. (sp_allow (ln_policy l), sp_deny (ln_policy l), sp_maxPerIP (ln_policy l))) (sv_streams sv) = [([], [], 1)]"
    by code_simp
  then obtain sv where sv: "start all_sockets one_target (\<lambda>_. None) False stream_config = Inr sv" "map ln_protocol (sv_streams sv) = [''tcp'']"
    "map (\<lambda>l. (sp_allow (ln_policy l), sp_deny (ln_policy l), sp_maxPerIP (ln_policy l))) (sv_streams sv) = [([], [], 1)]"
    by (auto split: sum.splits)
  then obtain l where l: "sv_streams sv = [l]" "ln_protocol l = ''tcp''" by (auto simp: map_eq_Cons_conv)
  have "\<exists>u. listener_of l u" using start_listeners [OF sv(1), of "''tcp''"] l by (auto simp: list_all2_Cons1)
  moreover have "sp_active p = Map.empty" if "NewStreamPolicy allow deny n = Inr p" for allow deny n p
    using that by (auto simp: NewStreamPolicy_def split: sum.splits)
  ultimately have "sp_active (ln_policy l) = Map.empty" by (auto simp: listener_of_def)
  then have "ln_policy l = one_per_host" using sv(3) l(1) by (simp add: one_per_host_def)
  with sv(1) l show ?thesis by (auto simp: run_init_def)
qed

text \<open>Events of the one TCP proxy, as steps of the process.\<close>

lemma tcp_exec_done: "tcp_exec s e = Some s' \<Longrightarrow> e \<noteq> EvShutdown \<Longrightarrow> t_done s' = t_done s"
  by (cases e) (auto simp: accept_client_def accept_failed_def take_channel_slot_def free_slot_def release_host_def close_listener_def
    split: if_splits option.splits prod.splits tcp_pc.splits conn_phase.splits)

lemma run_tcp_events:
  assumes "run_reachable sv r" "run_pc r \<noteq> Finished" "run_pc r \<noteq> Exited" "run_tcp r = [s]" "tcp_run s es = Some s'"
    "run_done r \<or> EvShutdown \<notin> set es \<and> \<not> t_done s"
  shows "run_reachable sv (r\<lparr>run_tcp := [s']\<rparr>)"
  using assms
proof (induction es arbitrary: s r)
  case Nil
  then have "r\<lparr>run_tcp := [s']\<rparr> = r" by (cases r) simp
  then show ?case using Nil.prems(1) by (simp only:)
next
  case (Cons e es)
  then obtain s1 where s1: "tcp_exec s e = Some s1" "tcp_run s1 es = Some s'" by (auto split: option.splits)
  have "run_step r (r\<lparr>run_tcp := (run_tcp r)[0 := s1]\<rparr>)"
    using Cons.prems s1(1) tcp_exec_done [OF s1(1)] by (intro run_step.Tcp) (auto dest: tcp_exec_step)
  then have "run_reachable sv (r\<lparr>run_tcp := [s1]\<rparr>)" using Cons.prems(1,4) by (auto intro: run_reachable.Step)
  then have "run_reachable sv (r\<lparr>run_tcp := [s1]\<rparr>\<lparr>run_tcp := [s']\<rparr>)"
    using Cons.prems s1 tcp_exec_done [OF s1(1)] by (intro Cons.IH) auto
  then show ?case by simp
qed

text \<open>One connection is accepted and given a slot.\<close>

definition one_connection :: tcp_state where
  "one_connection = \<lparr>t_pc = Accepting, t_policy = snd (acquire one_per_host ''10.0.0.1:50''), t_slots = 1,
     t_conns = [0 \<mapsto> (Proxying, ''10.0.0.1'')], t_closed = {}, t_delay = 0, t_done = False, t_listening = True\<rparr>"

lemma one_connection_run: "tcp_run (tcp_init one_per_host) [EvAccept 0 ''10.0.0.1:50'', EvSlot] = Some one_connection"
proof -
  have "fst (acquire one_per_host ''10.0.0.1:50'') = Some ''10.0.0.1''" by code_simp
  then obtain q where "acquire one_per_host ''10.0.0.1:50'' = (Some ''10.0.0.1'', q)" by (cases "acquire one_per_host ''10.0.0.1:50''") simp
  then show ?thesis
    by (simp add: tcp_init_def accept_client_def take_channel_slot_def maxTCPConnections_def one_connection_def)
qed

lemma one_connection_reachable:
  assumes "run_tcp (run_init sv) = [tcp_init one_per_host]"
  shows "run_reachable sv (run_init sv\<lparr>run_tcp := [one_connection]\<rparr>)"
proof (rule run_tcp_events [OF run_reachable.Init _ _ assms one_connection_run])
  show "run_pc (run_init sv) \<noteq> Finished" "run_pc (run_init sv) \<noteq> Exited" by (simp_all add: run_init_def)
  have "\<not> t_done (tcp_init one_per_host)" by (simp add: tcp_init_def)
  then show "run_done (run_init sv) \<or> EvShutdown \<notin> set [EvAccept 0 ''10.0.0.1:50'', EvSlot] \<and> \<not> t_done (tcp_init one_per_host)" by simp
qed

lemma running_streams_bounded_witness:
  "\<exists>sv r. start all_sockets one_target (\<lambda>_. None) False stream_config = Inr sv \<and> run_reachable sv r \<and>
     map_count (\<lambda>v. snd v = ''10.0.0.1'') (t_conns (run_tcp r ! 0)) = 1"
proof -
  obtain sv where sv: "start all_sockets one_target (\<lambda>_. None) False stream_config = Inr sv" "run_tcp (run_init sv) = [tcp_init one_per_host]"
    using stream_started by blast
  let ?r = "run_init sv\<lparr>run_tcp := [one_connection]\<rparr>"
  note r = one_connection_reachable [OF sv(2)]
  have "stream_upstreams all_sockets ''tcp'' stream_config = [stream_upstream]" by code_simp
  moreover have "sec_MaxConnsPerIP (up_Security stream_upstream) = 1" by (simp add: stream_upstream_def)
  moreover have "list_all2 tcp_within (stream_upstreams all_sockets ''tcp'' stream_config) (run_tcp ?r)"
    using running_streams_bounded [OF sv(1) r] by blast
  ultimately have "map_count (\<lambda>v. snd v = ''10.0.0.1'') (t_conns (run_tcp ?r ! 0)) \<le> 1" by (simp add: tcp_within_def)
  moreover have "0 < map_count (\<lambda>v. snd v = ''10.0.0.1'') (t_conns (run_tcp ?r ! 0))"
    by (simp add: one_connection_def map_count_new)
  ultimately show ?thesis using sv(1) r by (intro exI [of _ sv] exI [of _ ?r]) simp
qed

text \<open>What \<open>Run\<close> waits for are the accept loops, not their connections: it returns, and the process ends, while a connection
  is still being proxied.\<close>

lemma shutdown_cuts_connections:
  "\<exists>sv r s. start all_sockets one_target (\<lambda>_. None) False stream_config = Inr sv \<and> run_reachable sv r \<and> run_pc r = Finished \<and>
     run_tcp r = [s] \<and> t_conns s 0 = Some (Proxying, ''10.0.0.1'')"
proof -
  obtain sv where sv: "start all_sockets one_target (\<lambda>_. None) False stream_config = Inr sv" "run_tcp (run_init sv) = [tcp_init one_per_host]"
    "run_udp (run_init sv) = []"
    using stream_started by blast
  let ?r1 = "run_init sv\<lparr>run_tcp := [one_connection]\<rparr>"
  note r1 = one_connection_reachable [OF sv(2)]
  let ?r2 = "http_shut (shutdown_signal ?r1)"
  have "run_reachable sv ?r2"
    by (rule run_reachable.Step [OF run_reachable.Step [OF r1 run_step.Signal] run_step.HttpShut]) (simp_all add: run_ops run_init_def)
  moreover have "tcp_run one_connection [EvShutdown, EvCloseListener, EvError] =
      Some (one_connection\<lparr>t_done := True, t_listening := False, t_pc := Returned\<rparr>)"
    by (simp add: one_connection_def shut_down_def close_listener_def accept_failed_def)
  ultimately have r3: "run_reachable sv (?r2\<lparr>run_tcp := [one_connection\<lparr>t_done := True, t_listening := False, t_pc := Returned\<rparr>]\<rparr>)" (is "run_reachable sv ?r3")
    by (intro run_tcp_events) (simp_all add: run_ops del: tcp_run.simps)
  have "run_reachable sv (run_return ?r3)"
    using sv(3) by (intro run_reachable.Step [OF r3 run_step.Join]) (simp_all add: run_ops loops_ended_def run_init_def)
  then show ?thesis using sv(1)
    by (intro exI [of _ sv] exI [of _ "run_return ?r3"] exI [of _ "one_connection\<lparr>t_done := True, t_listening := False, t_pc := Returned\<rparr>"])
      (simp add: run_ops one_connection_def)
qed

lemma run_returns_in_order_witness:
  "\<exists>sv r. run_reachable sv r \<and> run_pc r = Finished \<and> run_done r \<and> loops_ended r \<and> run_logger_closed r"
proof -
  obtain sv r where r: "run_reachable sv r" "run_pc r = Finished" using shutdown_cuts_connections by blast
  with run_returns_in_order [OF r(1)] show ?thesis by blast
qed

section \<open>The default configuration\<close>

text \<open>What viper decodes from the text \<open>defaultConfig\<close>.\<close>

definition default_decoded :: ServerConfig where
  "default_decoded =
     zero_config\<lparr>cfg_Host := ''127.0.0.1'', cfg_Port := ''4444'',
       cfg_Timeout := \<lparr>to_Connect = 5, to_Read = 30, to_Write = 30, to_Idle = 60, to_Request = 60\<rparr>,
       cfg_Security := zero_security\<lparr>sec_GlobalRateLimit := 600, sec_GlobalRateBurst := 500, sec_MaxBody := 10,
         sec_AllowedMethods := [''GET'', ''POST'', ''PUT'', ''PATCH'', ''DELETE'', ''OPTIONS'']\<rparr>,
       cfg_Upstream := [zero_upstream\<lparr>up_Name := ''server_runner'', up_Path := ''/'', up_ServerURL := ''http://localhost:3000''\<rparr>]\<rparr>"

text \<open>The server the created configuration gives: it starts, speaks plain HTTP on the loopback address only, and proxies
  the root with a body limit.\<close>

lemma default_config_starts:
  "\<exists>sv hs. prepare None (Inr default_decoded) all_sockets one_target (\<lambda>_. None) False = Inr (sv, hs, None) \<and>
     hs_Addr hs = ''127.0.0.1:4444'' \<and> hs_ClientAuth hs = None \<and> hs_ReadTimeout hs = 30 * second \<and> sv_streams sv = []"
proof -
  have "case prepare None (Inr default_decoded) all_sockets one_target (\<lambda>_. None) False of Inl e \<Rightarrow> False
    | Inr (sv, hs, w) \<Rightarrow> hs_Addr hs = ''127.0.0.1:4444'' \<and> (case hs_ClientAuth hs of None \<Rightarrow> True | _ \<Rightarrow> False) \<and>
        hs_ReadTimeout hs = 30 * second \<and> (case sv_streams sv of [] \<Rightarrow> True | _ \<Rightarrow> False) \<and> (case w of None \<Rightarrow> True | _ \<Rightarrow> False)"
    by code_simp
  then show ?thesis by (auto split: sum.splits prod.splits option.splits list.splits)
qed

end
