(* ===== verification/Cli.thy ===== *)
theory Cli
  imports GoPath "HOL-Library.State_Monad"
begin

text \<open>
  \<open>app/cli\<close> and \<open>core/process_unix.go\<close>: the commands that start, stop and restart the background server; the last
  section has \<open>core/process.windows.go\<close>, the same functions over the programs Windows offers for them.
  The state is the pid file and the list of system calls made so far, oldest first.  What the operating
  system answers is an argument: the n-th call can have any answer, so other processes may come, go and
  reuse a process id between any two calls.
\<close>

section \<open>The operating system\<close>

datatype signal = Probe | Term | Kill

datatype errno = EPERM | ESRCH | EOTHER

datatype write_result = Written | OpenFailed | ShortWrite nat

datatype call =
    Signal int signal "errno option"
  | Cmdline int "string option"
  | ReadPid bool
  | RemovePid bool
  | Mkdir string bool
  | Chmod string bool
  | OpenLog bool
  | Spawn string "string list" "int option"
  | WritePid string write_result
  | Sleep

record os =
  os_self :: int
  os_kill :: "nat \<Rightarrow> int \<Rightarrow> signal \<Rightarrow> errno option"
  os_cmdline :: "nat \<Rightarrow> int \<Rightarrow> string option"
  os_read :: "nat \<Rightarrow> bool"
  os_remove :: "nat \<Rightarrow> bool"
  os_dir :: "nat \<Rightarrow> bool"
  os_executable :: "string option"
  os_log :: bool
  os_spawn :: "int option"
  os_write :: write_result

record cli =
  cl_calls :: "call list"
  cl_pidfile :: "string option"

type_synonym 'a command = "(cli, 'a) state"

definition calls :: "nat command" where
  "calls = do { s \<leftarrow> State_Monad.get; State_Monad.return (length (cl_calls s)) }"

definition note_call :: "call \<Rightarrow> unit command" where
  "note_call c = State_Monad.update (\<lambda>s. s\<lparr>cl_calls := cl_calls s @ [c]\<rparr>)"

definition send_signal :: "os \<Rightarrow> int \<Rightarrow> signal \<Rightarrow> errno option command" where
  "send_signal os pid sig = do {
     n \<leftarrow> calls;
     note_call (Signal pid sig (os_kill os n pid sig));
     State_Monad.return (os_kill os n pid sig) }"

section \<open>Processes\<close>

definition RequestStop :: "os \<Rightarrow> int \<Rightarrow> errno option command" where
  "RequestStop os pid = send_signal os pid Term"

definition ForceStop :: "os \<Rightarrow> int \<Rightarrow> errno option command" where
  "ForceStop os pid = send_signal os pid Kill"

definition answers_probe :: "errno option \<Rightarrow> bool" where
  "answers_probe err \<longleftrightarrow> err = None \<or> err = Some EPERM"

definition ProcessRunning :: "os \<Rightarrow> int \<Rightarrow> bool command" where
  "ProcessRunning os pid = do {
     err \<leftarrow> send_signal os pid Probe;
     State_Monad.return (answers_probe err) }"

definition matches :: "string option \<Rightarrow> string \<Rightarrow> bool" where
  "matches data name = (case data of None \<Rightarrow> True | Some s \<Rightarrow> contains_str s name)"

definition ProcessMatches :: "os \<Rightarrow> int \<Rightarrow> string \<Rightarrow> bool command" where
  "ProcessMatches os pid name = do {
     n \<leftarrow> calls;
     note_call (Cmdline pid (os_cmdline os n pid));
     State_Monad.return (matches (os_cmdline os n pid) name) }"

section \<open>The pid file\<close>

definition read_pidfile :: "os \<Rightarrow> string option command" where
  "read_pidfile os = do {
     n \<leftarrow> calls;
     s \<leftarrow> State_Monad.get;
     note_call (ReadPid (os_read os n));
     State_Monad.return (if os_read os n then cl_pidfile s else None) }"

definition remove_pidfile :: "os \<Rightarrow> unit command" where
  "remove_pidfile os = do {
     n \<leftarrow> calls;
     note_call (RemovePid (os_remove os n));
     if os_remove os n then State_Monad.update (\<lambda>s. s\<lparr>cl_pidfile := None\<rparr>) else State_Monad.return () }"

text \<open>\<open>os.WriteFile\<close> truncates the file it opens, so a short write leaves a part of the text.\<close>

definition write_pidfile :: "os \<Rightarrow> string \<Rightarrow> bool command" where
  "write_pidfile os text = do {
     note_call (WritePid text (os_write os));
     case os_write os of
       Written \<Rightarrow> do { State_Monad.update (\<lambda>s. s\<lparr>cl_pidfile := Some text\<rparr>); State_Monad.return True }
     | OpenFailed \<Rightarrow> State_Monad.return False
     | ShortWrite n \<Rightarrow> do { State_Monad.update (\<lambda>s. s\<lparr>cl_pidfile := Some (take n text)\<rparr>); State_Monad.return False } }"

section \<open>Launching\<close>

datatype cli_error =
    NotRunning
  | InvalidPidFile
  | CouldNotStop errno
  | NoLongerMatches int
  | AlreadyRunning int
  | ReadPidFailed
  | DirFailed string
  | NoExecutable
  | OpenLogFailed
  | SpawnFailed
  | WritePidFailed

definition run_args :: "string \<Rightarrow> string \<Rightarrow> string list" where
  "run_args configFile dataDir =
     [''run''] @ (if configFile \<noteq> '''' then [''--config'', configFile] else []) @
     (if dataDir \<noteq> '''' then [''--data-dir'', dataDir] else [])"

text \<open>The part \<open>start\<close> and \<open>restart\<close> share: a child whose pid cannot be stored is killed.\<close>

definition launch :: "os \<Rightarrow> string \<Rightarrow> string \<Rightarrow> (cli_error + int) command" where
  "launch os configFile dataDir =
     (case os_executable os of
        None \<Rightarrow> State_Monad.return (Inl NoExecutable)
      | Some executable \<Rightarrow> do {
          note_call (OpenLog (os_log os));
          if \<not> os_log os then State_Monad.return (Inl OpenLogFailed)
          else do {
            note_call (Spawn executable (run_args configFile dataDir) (os_spawn os));
            case os_spawn os of
              None \<Rightarrow> State_Monad.return (Inl SpawnFailed)
            | Some child \<Rightarrow> do {
                ok \<leftarrow> write_pidfile os (itoa child);
                if \<not> ok then do { _ \<leftarrow> send_signal os child Kill; State_Monad.return (Inl WritePidFailed) }
                else State_Monad.return (Inr child) } } })"

section \<open>start\<close>

text \<open>The two directories, each made and then restricted to the owner.\<close>

fun make_dirs :: "os \<Rightarrow> string list \<Rightarrow> string option command" where
  "make_dirs os [] = State_Monad.return None"
| "make_dirs os (dir # dirs) = do {
     n \<leftarrow> calls;
     note_call (Mkdir dir (os_dir os n));
     if \<not> os_dir os n then State_Monad.return (Some dir)
     else do {
       n \<leftarrow> calls;
       note_call (Chmod dir (os_dir os n));
       if \<not> os_dir os n then State_Monad.return (Some dir) else make_dirs os dirs } }"

definition parse_pid :: "string option \<Rightarrow> int option" where
  "parse_pid data = (case data of None \<Rightarrow> None | Some text \<Rightarrow> parse_int (trim_space text))"

text \<open>The server the pid file names, if it is running and matches.\<close>

definition running_server :: "os \<Rightarrow> int option command" where
  "running_server os = do {
     data \<leftarrow> read_pidfile os;
     case parse_pid data of
       None \<Rightarrow> State_Monad.return None
     | Some pid \<Rightarrow> do {
         running \<leftarrow> ProcessRunning os pid;
         if \<not> running then State_Monad.return None
         else do {
           same \<leftarrow> ProcessMatches os pid ''leoxy'';
           State_Monad.return (if same then Some pid else None) } } }"

definition start_cmd :: "os \<Rightarrow> string \<Rightarrow> string \<Rightarrow> (cli_error + int) command" where
  "start_cmd os configFile dataDir = do {
     failed \<leftarrow> make_dirs os [''leoxy/keys'', ''leoxy/log''];
     case failed of
       Some dir \<Rightarrow> State_Monad.return (Inl (DirFailed dir))
     | None \<Rightarrow> do {
         server \<leftarrow> running_server os;
         case server of
           Some pid \<Rightarrow> State_Monad.return (Inl (AlreadyRunning pid))
         | None \<Rightarrow> launch os configFile dataDir } }"

section \<open>stop and restart\<close>

text \<open>The pid of the pid file that may be signalled.\<close>

definition stop_pid :: "os \<Rightarrow> string option \<Rightarrow> cli_error \<Rightarrow> cli_error + int" where
  "stop_pid os data missing =
     (case data of
        None \<Rightarrow> Inl missing
      | Some text \<Rightarrow>
          (case parse_int (trim_space text) of
             None \<Rightarrow> Inl InvalidPidFile
           | Some pid \<Rightarrow> if pid \<le> 1 \<or> pid = os_self os then Inl InvalidPidFile else Inr pid))"

text \<open>\<open>!ProcessRunning(pid) || !ProcessMatches(pid, "leoxy")\<close>, negated.\<close>

definition is_server :: "os \<Rightarrow> int \<Rightarrow> bool command" where
  "is_server os pid = do {
     running \<leftarrow> ProcessRunning os pid;
     if \<not> running then State_Monad.return False else ProcessMatches os pid ''leoxy'' }"

text \<open>SIGTERM, and SIGKILL when that cannot be sent; the error that remains.\<close>

definition ask_stop :: "os \<Rightarrow> int \<Rightarrow> errno option command" where
  "ask_stop os pid = do {
     err \<leftarrow> RequestStop os pid;
     case err of None \<Rightarrow> State_Monad.return None | Some _ \<Rightarrow> ForceStop os pid }"

fun wait_exit :: "os \<Rightarrow> int \<Rightarrow> nat \<Rightarrow> unit command" where
  "wait_exit os pid 0 = State_Monad.return ()"
| "wait_exit os pid (Suc n) = do {
     running \<leftarrow> ProcessRunning os pid;
     if \<not> running then State_Monad.return ()
     else do { note_call Sleep; wait_exit os pid n } }"

definition stop_cmd :: "os \<Rightarrow> (cli_error + int) command" where
  "stop_cmd os = do {
     data \<leftarrow> read_pidfile os;
     case stop_pid os data NotRunning of
       Inl e \<Rightarrow> State_Monad.return (Inl e)
     | Inr pid \<Rightarrow> do {
         server \<leftarrow> is_server os pid;
         if \<not> server then do { remove_pidfile os; State_Monad.return (Inl NotRunning) }
         else do {
           err \<leftarrow> ask_stop os pid;
           case err of
             Some e \<Rightarrow> do { remove_pidfile os; State_Monad.return (Inl (CouldNotStop e)) }
           | None \<Rightarrow> do {
               wait_exit os pid 20;
               running \<leftarrow> ProcessRunning os pid;
               err \<leftarrow> (if running then ForceStop os pid else State_Monad.return None);
               remove_pidfile os;
               State_Monad.return (case err of Some e \<Rightarrow> Inl (CouldNotStop e) | None \<Rightarrow> Inr pid) } } } }"

definition restart_cmd :: "os \<Rightarrow> string \<Rightarrow> string \<Rightarrow> (cli_error + int) command" where
  "restart_cmd os configFile dataDir = do {
     data \<leftarrow> read_pidfile os;
     case stop_pid os data ReadPidFailed of
       Inl e \<Rightarrow> State_Monad.return (Inl e)
     | Inr pid \<Rightarrow> do {
         server \<leftarrow> is_server os pid;
         if \<not> server then do { remove_pidfile os; State_Monad.return (Inl NotRunning) }
         else do {
           err \<leftarrow> ask_stop os pid;
           case err of
             Some e \<Rightarrow> do { remove_pidfile os; State_Monad.return (Inl (CouldNotStop e)) }
           | None \<Rightarrow> do {
               wait_exit os pid 20;
               running \<leftarrow> ProcessRunning os pid;
               err \<leftarrow> (if \<not> running then State_Monad.return None
                 else do {
                   same \<leftarrow> ProcessMatches os pid ''leoxy'';
                   if \<not> same then State_Monad.return (Some (NoLongerMatches pid))
                   else do {
                     err \<leftarrow> ForceStop os pid;
                     State_Monad.return (map_option CouldNotStop err) } });
               remove_pidfile os;
               case err of
                 Some e \<Rightarrow> State_Monad.return (Inl e)
               | None \<Rightarrow> launch os configFile dataDir } } } }"

section \<open>Paths\<close>

text \<open>\<open>applyPaths\<close> and \<open>core.Configure\<close>: the flags made absolute against the working directory (None when it is
  unknown), the configuration path, and the change into the data directory.\<close>

record paths =
  pa_config :: string
  pa_dataDir :: string
  pa_configPath :: string
  pa_cwd :: "string option"

datatype path_error = NoWorkingDir | MkdirError | ChdirError

definition abs_path :: "string option \<Rightarrow> string \<Rightarrow> string option" where
  "abs_path cwd p =
     (if has_prefix p ''/'' then Some (path_clean p)
      else map_option (\<lambda>d. path_clean (d @ ''/'' @ p)) cwd)"

definition Configure :: "bool \<Rightarrow> bool \<Rightarrow> string \<Rightarrow> string \<Rightarrow> paths \<Rightarrow> path_error + paths" where
  "Configure mkdir chdir configPath dataDir p =
     (let p = (if configPath \<noteq> '''' then p\<lparr>pa_configPath := configPath\<rparr> else p) in
      if dataDir = '''' then Inr p
      else if \<not> mkdir then Inl MkdirError
      else if \<not> chdir then Inl ChdirError
      else Inr (p\<lparr>pa_cwd := Some dataDir\<rparr>))"

definition applyPaths :: "bool \<Rightarrow> bool \<Rightarrow> paths \<Rightarrow> path_error + paths" where
  "applyPaths mkdir chdir p =
     (case (if pa_config p = '''' then Some '''' else abs_path (pa_cwd p) (pa_config p)) of
        None \<Rightarrow> Inl NoWorkingDir
      | Some config \<Rightarrow>
          (let p = p\<lparr>pa_config := config\<rparr> in
           case (if pa_dataDir p = '''' then Some '''' else abs_path (pa_cwd p) (pa_dataDir p)) of
             None \<Rightarrow> Inl NoWorkingDir
           | Some dir \<Rightarrow> Configure mkdir chdir config dir (p\<lparr>pa_dataDir := dir\<rparr>)))"

section \<open>Running the commands\<close>

abbreviation add_call :: "call \<Rightarrow> cli \<Rightarrow> cli" where
  "add_call c s \<equiv> s\<lparr>cl_calls := cl_calls s @ [c]\<rparr>"

lemma run_update [simp]: "run_state (State_Monad.update f) s = ((), f s)"
  by (simp add: State_Monad.update_def)

lemma run_calls [simp]: "run_state calls s = (length (cl_calls s), s)"
  by (simp add: calls_def)

lemma run_note [simp]: "run_state (note_call c) s = ((), add_call c s)"
  by (simp add: note_call_def)

lemma run_signal [simp]:
  "run_state (send_signal os pid sig) s =
     (os_kill os (length (cl_calls s)) pid sig, add_call (Signal pid sig (os_kill os (length (cl_calls s)) pid sig)) s)"
  by (simp add: send_signal_def)

lemma run_running [simp]:
  "run_state (ProcessRunning os pid) s =
     (let e = os_kill os (length (cl_calls s)) pid Probe in (answers_probe e, add_call (Signal pid Probe e) s))"
  by (simp add: ProcessRunning_def Let_def)

lemma run_matches [simp]:
  "run_state (ProcessMatches os pid name) s =
     (let d = os_cmdline os (length (cl_calls s)) pid in (matches d name, add_call (Cmdline pid d) s))"
  by (simp add: ProcessMatches_def Let_def)

lemma run_read [simp]:
  "run_state (read_pidfile os) s =
     (let b = os_read os (length (cl_calls s)) in (if b then cl_pidfile s else None, add_call (ReadPid b) s))"
  by (simp add: read_pidfile_def Let_def)

lemma run_remove [simp]:
  "run_state (remove_pidfile os) s =
     (let b = os_remove os (length (cl_calls s)) in ((), add_call (RemovePid b) s\<lparr>cl_pidfile := if b then None else cl_pidfile s\<rparr>))"
  by (simp add: remove_pidfile_def Let_def)

text \<open>Waiting only probes and sleeps, at most \<open>n\<close> times each.\<close>

definition waiting :: "int \<Rightarrow> call list \<Rightarrow> bool" where
  "waiting pid cs \<longleftrightarrow> (\<forall>c \<in> set cs. c = Sleep \<or> (\<exists>e. c = Signal pid Probe e))"

lemma run_wait:
  "\<exists>ws. run_state (wait_exit os pid n) s = ((), s\<lparr>cl_calls := cl_calls s @ ws\<rparr>) \<and> waiting pid ws \<and>
     length ws \<le> 2 * n \<and> count_list ws Sleep \<le> n"
proof (induction n arbitrary: s)
  case 0
  have "run_state (wait_exit os pid 0) s = ((), s\<lparr>cl_calls := cl_calls s @ []\<rparr>)" by simp
  then show ?case by (metis waiting_def empty_iff le0 list.set(1) list.size(3) count_list.simps(1))
next
  case (Suc n)
  let ?e = "os_kill os (length (cl_calls s)) pid Probe"
  show ?case
  proof (cases "answers_probe ?e")
    case False
    then have "run_state (wait_exit os pid (Suc n)) s = ((), s\<lparr>cl_calls := cl_calls s @ [Signal pid Probe ?e]\<rparr>)" by (simp add: Let_def)
    then show ?thesis by (intro exI [of _ "[Signal pid Probe ?e]"]) (simp add: waiting_def)
  next
    case True
    let ?s = "add_call Sleep (add_call (Signal pid Probe ?e) s)"
    obtain ws where ws: "run_state (wait_exit os pid n) ?s = ((), ?s\<lparr>cl_calls := cl_calls ?s @ ws\<rparr>)" "waiting pid ws"
      "length ws \<le> 2 * n" "count_list ws Sleep \<le> n"
      using Suc [of ?s] by blast
    have "run_state (wait_exit os pid (Suc n)) s = ((), s\<lparr>cl_calls := cl_calls s @ [Signal pid Probe ?e, Sleep] @ ws\<rparr>)"
      using True ws(1) by (simp add: Let_def)
    then show ?thesis using ws(2-4) by (intro exI [of _ "[Signal pid Probe ?e, Sleep] @ ws"]) (auto simp: waiting_def)
  qed
qed

section \<open>Signals are guarded\<close>

text \<open>
  A reader of the call list that remembers the process that has just answered the probe, whose command line was seen to
  match right after that, or whose SIGTERM failed right after that.  SIGTERM may only go to a process in the second state,
  SIGKILL to one in the second or third: SIGKILL needs a fresh look of its own unless it takes the place of a SIGTERM that
  could not be sent.
\<close>

datatype check = Unchecked | Running int | Matched int | TermFailed int

fun next_check :: "check \<Rightarrow> call \<Rightarrow> check" where
  "next_check st (Signal p Probe e) = (if answers_probe e then Running p else Unchecked)"
| "next_check (Running q) (Cmdline p d) = (if p = q \<and> matches d ''leoxy'' then Matched p else Unchecked)"
| "next_check (Matched q) (Signal p Term (Some e)) = (if p = q then TermFailed p else Unchecked)"
| "next_check st c = Unchecked"

fun may_signal :: "check \<Rightarrow> call \<Rightarrow> bool" where
  "may_signal st (Signal p Probe e) = True"
| "may_signal st (Signal p Term e) = (st = Matched p)"
| "may_signal st (Signal p Kill e) = (st = Matched p \<or> st = TermFailed p)"
| "may_signal st c = True"

fun guarded :: "check \<Rightarrow> call list \<Rightarrow> bool" where
  "guarded st [] = True"
| "guarded st (c # cs) = (may_signal st c \<and> guarded (next_check st c) cs)"

lemma guarded_append: "guarded st (cs @ ds) \<longleftrightarrow> guarded st cs \<and> guarded (foldl next_check st cs) ds"
  by (induction cs arbitrary: st) auto

lemma waiting_guarded: "waiting pid ws \<Longrightarrow> guarded st ws"
  by (induction ws arbitrary: st) (auto simp: waiting_def)

text \<open>The signals a list of calls sends, probes included, and the children it starts.\<close>

definition signalled :: "call list \<Rightarrow> int set" where
  "signalled cs = {p. \<exists>sig e. Signal p sig e \<in> set cs}"

lemma signalled_simps [simp]:
  "signalled [] = {}" "signalled (Signal p sig e # cs) = insert p (signalled cs)"
  "signalled (Cmdline p d # cs) = signalled cs" "signalled (ReadPid b # cs) = signalled cs" "signalled (RemovePid b # cs) = signalled cs"
  "signalled (OpenLog b # cs) = signalled cs" "signalled (Spawn x a c # cs) = signalled cs" "signalled (WritePid t w # cs) = signalled cs"
  "signalled (cs @ ds) = signalled cs \<union> signalled ds"
  by (auto simp: signalled_def)

lemma waiting_signalled: "waiting pid ws \<Longrightarrow> signalled ws \<subseteq> {pid}"
  by (auto simp: waiting_def signalled_def)

definition spawned :: "call list \<Rightarrow> int list" where
  "spawned cs = concat (map (\<lambda>c. case c of Spawn x a (Some child) \<Rightarrow> [child] | _ \<Rightarrow> []) cs)"

lemma spawned_simps [simp]:
  "spawned [] = []" "spawned (c # cs) = (case c of Spawn x a (Some child) \<Rightarrow> [child] | _ \<Rightarrow> []) @ spawned cs"
  "spawned (cs @ ds) = spawned cs @ spawned ds"
  by (simp_all add: spawned_def)

text \<open>What launching does: it leaves one child running and stores its pid, or it leaves none: it starts none and touches
  nothing, or it sends SIGKILL to the one it started because its pid could not be stored.\<close>

definition launched :: "os \<Rightarrow> cli_error + int \<Rightarrow> call list \<Rightarrow> string option \<Rightarrow> string option \<Rightarrow> bool" where
  "launched os res ls before after \<longleftrightarrow>
     (case res of
        Inr child \<Rightarrow> os_spawn os = Some child \<and> spawned ls = [child] \<and> signalled ls = {} \<and> after = Some (itoa child)
      | Inl WritePidFailed \<Rightarrow> \<exists>child ms e. os_write os \<noteq> Written \<and> os_spawn os = Some child \<and> spawned ls = [child] \<and>
          ls = ms @ [Signal child Kill e] \<and> signalled ms = {}
      | Inl (AlreadyRunning pid) \<Rightarrow> False
      | Inl e \<Rightarrow> spawned ls = [] \<and> signalled ls = {} \<and> after = before)"

lemma run_launch:
  "\<exists>ls. cl_calls (snd (run_state (launch os c d) s)) = cl_calls s @ ls \<and> Sleep \<notin> set ls \<and>
     launched os (fst (run_state (launch os c d) s)) ls (cl_pidfile s) (cl_pidfile (snd (run_state (launch os c d) s)))"
proof (cases "os_executable os")
  case None
  then show ?thesis by (intro exI [of _ "[]"]) (simp add: launch_def launched_def)
next
  case (Some x)
  let ?spawn = "Spawn x (run_args c d) (os_spawn os)"
  show ?thesis
  proof (cases "os_log os")
    case False
    with Some show ?thesis by (intro exI [of _ "[OpenLog False]"]) (simp add: launch_def launched_def)
  next
    case log: True
    show ?thesis
    proof (cases "os_spawn os")
      case None
      with Some log show ?thesis by (intro exI [of _ "[OpenLog True, ?spawn]"]) (simp add: launch_def launched_def)
    next
      case (Some child)
      let ?w = "WritePid (itoa child) (os_write os)"
      let ?k = "Signal child Kill (os_kill os (length (cl_calls s) + 3) child Kill)"
      have killed: "launched os (Inl WritePidFailed) [OpenLog True, ?spawn, ?w, ?k] before after" if "os_write os \<noteq> Written" for before after
        using that Some by (auto simp: launched_def intro!: exI [of _ "[OpenLog True, ?spawn, ?w]"])
      show ?thesis
      proof (cases "os_write os")
        case Written
        with Some log \<open>os_executable os = Some x\<close> show ?thesis
          by (intro exI [of _ "[OpenLog True, ?spawn, ?w]"]) (simp add: launch_def write_pidfile_def launched_def)
      next
        case OpenFailed
        with killed Some log \<open>os_executable os = Some x\<close> show ?thesis
          by (intro exI [of _ "[OpenLog True, ?spawn, ?w, ?k]"]) (simp add: launch_def write_pidfile_def numeral_3_eq_3)
      next
        case (ShortWrite n)
        with killed Some log \<open>os_executable os = Some x\<close> show ?thesis
          by (intro exI [of _ "[OpenLog True, ?spawn, ?w, ?k]"]) (simp add: launch_def write_pidfile_def numeral_3_eq_3)
      qed
    qed
  qed
qed

text \<open>The only signal of a launch is the SIGKILL for its own child.\<close>

definition only_own_child :: "os \<Rightarrow> call list \<Rightarrow> bool" where
  "only_own_child os ls \<longleftrightarrow> (\<forall>p sig e. Signal p sig e \<in> set ls \<longrightarrow> sig = Kill \<and> os_spawn os = Some p \<and> os_write os \<noteq> Written)"

lemma launched_signals: "launched os res ls before after \<Longrightarrow> only_own_child os ls"
  by (auto simp: launched_def only_own_child_def signalled_def split: sum.splits cli_error.splits)

lemma itoa_trim: "trim_space (itoa n) = itoa n"
proof (rule trim_space_fix)
  have "list_all (\<lambda>d. \<not> is_space (digit_char d)) [0..<10]" "\<not> is_space CHR ''-''" by code_simp+
  then have "\<not> is_space x" if "x \<in> set (format_nat 10 k) \<or> x = CHR ''-''" for x k
    using that format_nat_chars [of 10 x k] by (auto simp: list_all_iff)
  then have c: "\<not> is_space x" if "x \<in> set (itoa n)" for x
    using that by (auto simp: itoa_def split: if_splits)
  then show "itoa n = [] \<or> \<not> is_space (hd (itoa n)) \<and> \<not> is_space (last (itoa n))" by (cases "itoa n = []") auto
qed

section \<open>What stop and restart do after their checks\<close>

text \<open>The calls of the two commands when there is a pid to stop and it is the server.\<close>

lemma run_is_server:
  "run_state (is_server os pid) s =
     (let e = os_kill os (length (cl_calls s)) pid Probe in
      if answers_probe e
      then (let d = os_cmdline os (Suc (length (cl_calls s))) pid in
            (matches d ''leoxy'', add_call (Cmdline pid d) (add_call (Signal pid Probe e) s)))
      else (False, add_call (Signal pid Probe e) s))"
  by (auto simp: is_server_def Let_def)

lemma run_ask:
  "run_state (ask_stop os pid) s =
     (case os_kill os (length (cl_calls s)) pid Term of
        None \<Rightarrow> (None, add_call (Signal pid Term None) s)
      | Some e \<Rightarrow>
          (let k = os_kill os (Suc (length (cl_calls s))) pid Kill in
           (k, add_call (Signal pid Kill k) (add_call (Signal pid Term (Some e)) s))))"
  by (auto simp: ask_stop_def RequestStop_def ForceStop_def Let_def split: option.splits)

text \<open>The calls up to the point where the command gave up because the server is not there, or where the server was asked to
  stop, in both commands.\<close>

definition not_there :: "int \<Rightarrow> call list \<Rightarrow> bool" where
  "not_there pid cs \<longleftrightarrow> (\<exists>b e. (\<not> answers_probe e \<and> cs = [ReadPid b, Signal pid Probe e]) \<or>
     (\<exists>d. answers_probe e \<and> \<not> matches d ''leoxy'' \<and> cs = [ReadPid b, Signal pid Probe e, Cmdline pid d]))"

definition asked :: "int \<Rightarrow> errno option \<Rightarrow> call list \<Rightarrow> bool" where
  "asked pid err cs \<longleftrightarrow> (\<exists>b e d. answers_probe e \<and> matches d ''leoxy'' \<and>
     ((cs = [ReadPid b, Signal pid Probe e, Cmdline pid d, Signal pid Term None] \<and> err = None) \<or>
      (\<exists>t. cs = [ReadPid b, Signal pid Probe e, Cmdline pid d, Signal pid Term (Some t), Signal pid Kill err])))"

lemma not_there_guarded: "not_there pid cs \<Longrightarrow> guarded Unchecked cs \<and> signalled cs = {pid} \<and> count_list cs Sleep = 0 \<and> length cs \<le> 3"
  by (auto simp: not_there_def)

lemma asked_guarded: "asked pid err cs \<Longrightarrow> guarded Unchecked cs \<and> signalled cs = {pid} \<and> count_list cs Sleep = 0 \<and> length cs \<le> 5"
  by (auto simp: asked_def)

text \<open>How a command of this kind begins: it gives up, or it has asked the server to stop.\<close>

lemma stop_begin:
  fixes os s
  defines "data \<equiv> (if os_read os (length (cl_calls s)) then cl_pidfile s else None)"
  assumes "stop_pid os data m = Inr pid"
  obtains
    (gone) cs where "run_state (is_server os pid) (add_call (ReadPid (os_read os (length (cl_calls s)))) s) = (False, s\<lparr>cl_calls := cl_calls s @ cs\<rparr>)"
      "not_there pid cs"
  | (asked) s1 cs err where "run_state (is_server os pid) (add_call (ReadPid (os_read os (length (cl_calls s)))) s) = (True, s1)"
      "run_state (ask_stop os pid) s1 = (err, s\<lparr>cl_calls := cl_calls s @ cs\<rparr>)" "asked pid err cs"
proof (cases "run_state (is_server os pid) (add_call (ReadPid (os_read os (length (cl_calls s)))) s)")
  case (Pair ok s1)
  show thesis
  proof (cases ok)
    case False
    with Pair have "\<exists>cs. s1 = s\<lparr>cl_calls := cl_calls s @ cs\<rparr> \<and> not_there pid cs"
      by (auto simp: run_is_server not_there_def Let_def split: if_splits)
    with False Pair gone show thesis by auto
  next
    case True
    obtain err s2 where a: "run_state (ask_stop os pid) s1 = (err, s2)" by fastforce
    have s1: "\<exists>e d. s1 = s\<lparr>cl_calls := cl_calls s @ [ReadPid (os_read os (length (cl_calls s))), Signal pid Probe e, Cmdline pid d]\<rparr> \<and>
        answers_probe e \<and> matches d ''leoxy''"
      using Pair True by (auto simp: run_is_server Let_def split: if_splits)
    then obtain e d where s1: "s1 = s\<lparr>cl_calls := cl_calls s @ [ReadPid (os_read os (length (cl_calls s))), Signal pid Probe e, Cmdline pid d]\<rparr>"
      "answers_probe e" "matches d ''leoxy''" by blast
    have "\<exists>cs. s2 = s\<lparr>cl_calls := cl_calls s @ cs\<rparr> \<and> asked pid err cs"
      using a s1 by (auto simp: run_ask asked_def Let_def split: option.splits)
    then obtain cs where "s2 = s\<lparr>cl_calls := cl_calls s @ cs\<rparr>" "asked pid err cs" by blast
    with a Pair True show thesis by (intro asked [of s1 err cs]) simp_all
  qed
qed

section \<open>Properties\<close>

lemma stop_pid_named:
  assumes "stop_pid os (if b then cl_pidfile s else None) m = Inr pid"
  shows "1 < pid \<and> pid \<noteq> os_self os \<and> (\<exists>text. cl_pidfile s = Some text \<and> parse_int (trim_space text) = Some pid)"
  using assms by (auto simp: stop_pid_def split: option.splits if_splits)

text \<open>The rest of \<open>restart\<close> once the server was asked to stop.\<close>

lemma restart_asked:
  assumes "stop_pid os (if os_read os (length (cl_calls s)) then cl_pidfile s else None) ReadPidFailed = Inr pid"
    "run_state (is_server os pid) (add_call (ReadPid (os_read os (length (cl_calls s)))) s) = (True, s1)"
    "run_state (ask_stop os pid) s1 = (None, s\<lparr>cl_calls := cl_calls s @ cs\<rparr>)" "asked pid None cs"
  shows "\<exists>cs ls. cl_calls (snd (run_state (restart_cmd os c d) s)) = cl_calls s @ cs @ ls \<and> guarded Unchecked cs \<and>
     signalled cs \<subseteq> {pid} \<and> only_own_child os ls"
proof -
  note cs = asked_guarded [OF assms(4)]
  let ?s2 = "s\<lparr>cl_calls := cl_calls s @ cs\<rparr>"
  obtain ws where ws: "run_state (wait_exit os pid 20) ?s2 = ((), ?s2\<lparr>cl_calls := cl_calls ?s2 @ ws\<rparr>)" "waiting pid ws"
    using run_wait by blast
  let ?cs = "cs @ ws"
  let ?e = "os_kill os (length (cl_calls s @ ?cs)) pid Probe"
  let ?d = "os_cmdline os (length (cl_calls s @ ?cs) + 1) pid"
  let ?k = "os_kill os (length (cl_calls s @ ?cs) + 2) pid Kill"
  let ?alive = "answers_probe ?e"
  let ?last = "if \<not> ?alive then [Signal pid Probe ?e] else if \<not> matches ?d ''leoxy'' then [Signal pid Probe ?e, Cmdline pid ?d]
    else [Signal pid Probe ?e, Cmdline pid ?d, Signal pid Kill ?k]"
  let ?b = "os_remove os (length (cl_calls s @ ?cs @ ?last))"
  let ?s3 = "s\<lparr>cl_calls := cl_calls s @ ?cs @ ?last @ [RemovePid ?b], cl_pidfile := if ?b then None else cl_pidfile s\<rparr>"
  note run = restart_cmd_def Let_def ForceStop_def assms(1-3) ws(1)
  have "run_state (restart_cmd os c d) s = run_state (launch os c d) ?s3 \<or> snd (run_state (restart_cmd os c d) s) = ?s3"
  proof (cases ?alive)
    case False
    then show ?thesis by (intro disjI1) (simp add: run)
  next
    case alive: True
    show ?thesis
    proof (cases "matches ?d ''leoxy''")
      case False
      with alive show ?thesis by (intro disjI2) (simp add: run)
    next
      case True
      with alive show ?thesis by (cases ?k) (simp_all add: run)
    qed
  qed
  then obtain ls where "cl_calls (snd (run_state (restart_cmd os c d) s)) = cl_calls ?s3 @ ls" "only_own_child os ls"
  proof
    assume "run_state (restart_cmd os c d) s = run_state (launch os c d) ?s3"
    with run_launch [of os c d ?s3] that launched_signals show thesis by auto
  next
    assume "snd (run_state (restart_cmd os c d) s) = ?s3"
    with that [of "[]"] show thesis by (simp add: only_own_child_def)
  qed
  moreover have "guarded Unchecked (?cs @ ?last @ [RemovePid ?b])"
    using cs waiting_guarded [OF ws(2)] by (auto simp: guarded_append)
  moreover have "signalled (?cs @ ?last @ [RemovePid ?b]) \<subseteq> {pid}"
    using cs waiting_signalled [OF ws(2)] by auto
  ultimately show ?thesis by (intro exI [of _ "?cs @ ?last @ [RemovePid ?b]"] exI [of _ ls]) auto
qed

text \<open>C17: \<open>restart\<close> never signals a stranger.  Up to the launch, SIGTERM and SIGKILL go only to the process the pid file named,
  each directly after that process answered the probe and its command line was then seen to match (one that cannot be read
  counts as matching), with one exception: a SIGTERM that could not be sent is followed by SIGKILL without another look.
  The launch sends no signal but SIGKILL to its own child, when that child's pid could not be stored.\<close>

theorem restart_signals_guarded:
  "\<exists>cs ls. cl_calls (snd (run_state (restart_cmd os c d) s)) = cl_calls s @ cs @ ls \<and> guarded Unchecked cs \<and>
     (\<forall>p \<in> signalled cs. 1 < p \<and> p \<noteq> os_self os \<and> (\<exists>text. cl_pidfile s = Some text \<and> parse_int (trim_space text) = Some p)) \<and>
     only_own_child os ls"
proof -
  let ?data = "if os_read os (length (cl_calls s)) then cl_pidfile s else None"
  have none: "only_own_child os []" by (simp add: only_own_child_def)
  show ?thesis
  proof (cases "stop_pid os ?data ReadPidFailed")
    case (Inl e)
    then have "cl_calls (snd (run_state (restart_cmd os c d) s)) = cl_calls s @ [ReadPid (os_read os (length (cl_calls s)))] @ []"
      by (simp add: restart_cmd_def Let_def)
    then show ?thesis using none by (intro exI [of _ "[ReadPid (os_read os (length (cl_calls s)))]"] exI [of _ "[]"]) simp
  next
    case (Inr pid)
    note pid = stop_pid_named [OF this]
    from Inr show ?thesis
    proof (cases rule: stop_begin)
      case (gone cs)
      let ?b = "os_remove os (length (cl_calls s @ cs))"
      have "cl_calls (snd (run_state (restart_cmd os c d) s)) = cl_calls s @ (cs @ [RemovePid ?b]) @ []"
        using Inr gone(1) by (simp add: restart_cmd_def Let_def)
      then show ?thesis using not_there_guarded [OF gone(2)] pid none
        by (intro exI [of _ "cs @ [RemovePid ?b]"] exI [of _ "[]"]) (simp add: guarded_append)
    next
      case (asked s1 cs err)
      show ?thesis
      proof (cases err)
        case (Some e)
        let ?b = "os_remove os (length (cl_calls s @ cs))"
        have "cl_calls (snd (run_state (restart_cmd os c d) s)) = cl_calls s @ (cs @ [RemovePid ?b]) @ []"
          using Inr asked(1,2) Some by (simp add: restart_cmd_def Let_def)
        then show ?thesis using asked_guarded [OF asked(3)] pid none
          by (intro exI [of _ "cs @ [RemovePid ?b]"] exI [of _ "[]"]) (simp add: guarded_append)
      next
        case None
        from restart_asked [OF Inr asked(1) asked(2,3) [unfolded None]] pid show ?thesis by blast
      qed
    qed
  qed
qed

text \<open>How \<open>stop\<close> can end once it has a pid: \<open>pre\<close> are its calls before the one that removes the pid file.\<close>

definition stop_ends :: "int \<Rightarrow> cli_error + int \<Rightarrow> call list \<Rightarrow> bool" where
  "stop_ends pid res pre \<longleftrightarrow>
     (case res of
        Inr q \<Rightarrow> q = pid \<and> pre \<noteq> [] \<and> ((\<exists>e. last pre = Signal pid Probe e \<and> \<not> answers_probe e) \<or> last pre = Signal pid Kill None)
      | Inl NotRunning \<Rightarrow> not_there pid pre
      | Inl (CouldNotStop e) \<Rightarrow> pre \<noteq> [] \<and> last pre = Signal pid Kill (Some e)
      | Inl e \<Rightarrow> False)"

text \<open>The end of \<open>stop\<close>, after the wait: \<open>n\<close> calls were made before.\<close>

definition stop_last :: "os \<Rightarrow> int \<Rightarrow> nat \<Rightarrow> call list" where
  "stop_last os pid n =
     (let e = os_kill os n pid Probe in
      if answers_probe e then [Signal pid Probe e, Signal pid Kill (os_kill os (n + 1) pid Kill)] else [Signal pid Probe e])"

lemma stop_run:
  assumes "stop_pid os (if os_read os (length (cl_calls s)) then cl_pidfile s else None) NotRunning = Inr pid"
    "run_state (is_server os pid) (add_call (ReadPid (os_read os (length (cl_calls s)))) s) = (True, s1)"
    "run_state (ask_stop os pid) s1 = (None, s2)" "run_state (wait_exit os pid 20) s2 = ((), s\<lparr>cl_calls := cs\<rparr>)"
  defines "l \<equiv> stop_last os pid (length cs)"
  defines "b \<equiv> os_remove os (length (cs @ l))"
  shows "run_state (stop_cmd os) s =
    (if answers_probe (os_kill os (length cs) pid Probe)
     then (case os_kill os (length cs + 1) pid Kill of Some e \<Rightarrow> Inl (CouldNotStop e) | None \<Rightarrow> Inr pid) else Inr pid,
     s\<lparr>cl_calls := cs @ l @ [RemovePid b], cl_pidfile := if b then None else cl_pidfile s\<rparr>)"
  by (cases "answers_probe (os_kill os (length cs) pid Probe)"; cases "os_kill os (length cs + 1) pid Kill")
    (simp_all add: stop_cmd_def Let_def ForceStop_def assms(1-4) l_def b_def stop_last_def)

text \<open>All the ends of \<open>stop\<close> with a pid.\<close>

lemma stop_with_pid:
  assumes "stop_pid os (if os_read os (length (cl_calls s)) then cl_pidfile s else None) NotRunning = Inr pid"
  shows "\<exists>pre b. cl_calls (snd (run_state (stop_cmd os) s)) = cl_calls s @ pre @ [RemovePid b] \<and> length pre \<le> 47 \<and>
     count_list pre Sleep \<le> 20 \<and> signalled pre = {pid} \<and> stop_ends pid (fst (run_state (stop_cmd os) s)) pre \<and>
     cl_pidfile (snd (run_state (stop_cmd os) s)) = (if b then None else cl_pidfile s)"
  using assms
proof (cases rule: stop_begin)
  case (gone cs)
  with assms not_there_guarded [OF gone(2)] show ?thesis
    by (intro exI [of _ cs] exI [of _ "os_remove os (length (cl_calls s @ cs))"]) (simp add: stop_cmd_def Let_def stop_ends_def)
next
  case (asked s1 cs err)
  note cs = asked_guarded [OF asked(3)]
  show ?thesis
  proof (cases err)
    case (Some e)
    then have "cs \<noteq> [] \<and> last cs = Signal pid Kill (Some e)" using asked(3) by (auto simp: asked_def)
    with assms asked(1,2) Some cs show ?thesis
      by (intro exI [of _ cs] exI [of _ "os_remove os (length (cl_calls s @ cs))"]) (simp add: stop_cmd_def Let_def stop_ends_def)
  next
    case None
    let ?s2 = "s\<lparr>cl_calls := cl_calls s @ cs\<rparr>"
    obtain ws where ws: "run_state (wait_exit os pid 20) ?s2 = ((), s\<lparr>cl_calls := cl_calls s @ cs @ ws\<rparr>)" "waiting pid ws"
      "length ws \<le> 40" "count_list ws Sleep \<le> 20"
      using run_wait [of os pid 20 ?s2] by auto
    let ?n = "length (cl_calls s @ cs @ ws)"
    let ?l = "stop_last os pid ?n"
    note r = stop_run [OF assms asked(1) asked(2) [unfolded None] ws(1)]
    have "stop_ends pid (fst (run_state (stop_cmd os) s)) (cs @ ws @ ?l)"
      unfolding r by (auto simp: stop_ends_def stop_last_def Let_def split: option.split)
    moreover have "signalled (cs @ ws @ ?l) = {pid}" "length (cs @ ws @ ?l) \<le> 47" "count_list (cs @ ws @ ?l) Sleep \<le> 20"
      using cs waiting_signalled [OF ws(2)] ws(3,4) by (auto simp: stop_last_def Let_def)
    ultimately show ?thesis unfolding r
      by (intro exI [of _ "cs @ ws @ ?l"] exI [of _ "os_remove os (length ((cl_calls s @ cs @ ws) @ ?l))"]) simp
  qed
qed

text \<open>C28: \<open>stop\<close> ends after at most twenty waits, whatever the system answers.  Without a usable pid file (missing, unreadable,
  not a number, 1 or less, its own pid) it makes no call but reading it and leaves it as it is.  Otherwise it signals only the
  process named there, and its last call in every case removes the pid file, which is then gone unless that fails: it reports
  that the server is not running after a probe without an answer or a command line that does not match, and has sent no
  SIGTERM and no SIGKILL then; it reports the error of a SIGKILL that could not be sent; or it reports success, after a last
  probe without an answer or a SIGKILL that was sent.\<close>

theorem stop_outcome:
  "case stop_pid os (if os_read os (length (cl_calls s)) then cl_pidfile s else None) NotRunning of
     Inl e \<Rightarrow> run_state (stop_cmd os) s = (Inl e, s\<lparr>cl_calls := cl_calls s @ [ReadPid (os_read os (length (cl_calls s)))]\<rparr>)
   | Inr pid \<Rightarrow> 1 < pid \<and> pid \<noteq> os_self os \<and> (\<exists>text. cl_pidfile s = Some text \<and> parse_int (trim_space text) = Some pid) \<and>
       (\<exists>pre b. cl_calls (snd (run_state (stop_cmd os) s)) = cl_calls s @ pre @ [RemovePid b] \<and> length pre \<le> 47 \<and>
          count_list pre Sleep \<le> 20 \<and> signalled pre = {pid} \<and> stop_ends pid (fst (run_state (stop_cmd os) s)) pre \<and>
          cl_pidfile (snd (run_state (stop_cmd os) s)) = (if b then None else cl_pidfile s))"
proof (cases "stop_pid os (if os_read os (length (cl_calls s)) then cl_pidfile s else None) NotRunning")
  case (Inl e)
  then show ?thesis by (simp add: stop_cmd_def Let_def)
next
  case (Inr pid)
  from stop_with_pid [OF this] stop_pid_named [OF this] show ?thesis unfolding Inr sum.case by blast
qed

text \<open>Unlike \<open>restart\<close>, \<open>stop\<close> does not look again before its SIGKILL.  Here the server exits while it is waited for and
  its pid is taken by another program, which is killed.\<close>

definition reused_pid :: os where
  "reused_pid = \<lparr>os_self = 7, os_kill = (\<lambda>_ _ _. None), os_cmdline = (\<lambda>n _. Some (if n \<le> 3 then ''leoxy'' else ''sshd'')),
     os_read = (\<lambda>_. True), os_remove = (\<lambda>_. True), os_dir = (\<lambda>_. True), os_executable = Some ''leoxy'', os_log = True,
     os_spawn = Some 50, os_write = Written\<rparr>"

definition server_42 :: cli where
  "server_42 = \<lparr>cl_calls = [], cl_pidfile = Some ''42''\<rparr>"

lemma reused_wait:
  "run_state (wait_exit reused_pid 42 n) s = ((), s\<lparr>cl_calls := cl_calls s @ concat (replicate n [Signal 42 Probe None, Sleep])\<rparr>)"
  by (induction n arbitrary: s) (simp_all add: Let_def reused_pid_def answers_probe_def)

lemma reused_run:
  "run_state (wait_exit reused_pid 42 n) s = ((), s\<lparr>cl_calls := cl_calls s @ concat (replicate n [Signal 42 Probe None, Sleep])\<rparr>)"
  "stop_pid reused_pid (Some ''42'') m = Inr 42" "matches (Some ''leoxy'') ''leoxy''" "\<not> matches (Some ''sshd'') ''leoxy''"
  "os_read reused_pid i" "os_kill reused_pid i p sig = None" "os_remove reused_pid i"
  "os_cmdline reused_pid i p = Some (if i \<le> 3 then ''leoxy'' else ''sshd'')"
  "length (concat (replicate 20 [Signal 42 Probe None, Sleep])) = 40"
proof -
  have "parse_int (trim_space ''42'') = Some 42" by code_simp
  then show "stop_pid reused_pid (Some ''42'') m = Inr 42" by (simp add: stop_pid_def reused_pid_def)
  show "matches (Some ''leoxy'') ''leoxy''" "\<not> matches (Some ''sshd'') ''leoxy''" by code_simp+
  show "run_state (wait_exit reused_pid 42 n) s = ((), s\<lparr>cl_calls := cl_calls s @ concat (replicate n [Signal 42 Probe None, Sleep])\<rparr>)"
    by (rule reused_wait)
qed (simp_all add: reused_pid_def length_concat sum_list_replicate)

lemmas run_reused = Let_def reused_run run_is_server run_ask ForceStop_def answers_probe_def server_42_def

lemma stop_kills_stranger:
  "\<exists>cs b. cl_calls (snd (run_state (stop_cmd reused_pid) server_42)) = cs @ [Signal 42 Kill None, RemovePid b] \<and>
     os_cmdline reused_pid (length cs) 42 = Some ''sshd'' \<and> \<not> guarded Unchecked (cs @ [Signal 42 Kill None, RemovePid b])"
  "fst (run_state (restart_cmd reused_pid '''' '''') server_42) = Inl (NoLongerMatches 42)"
proof -
  let ?ws = "concat (replicate 20 [Signal 42 Probe None, Sleep])"
  let ?cs = "[ReadPid True, Signal 42 Probe None, Cmdline 42 (Some ''leoxy''), Signal 42 Term None] @ ?ws @ [Signal 42 Probe None]"
  have "cl_calls (snd (run_state (stop_cmd reused_pid) server_42)) = ?cs @ [Signal 42 Kill None, RemovePid True]"
    by (simp add: stop_cmd_def run_reused)
  moreover have "\<not> guarded Unchecked (?cs @ [Signal 42 Kill None, RemovePid True])"
    by (simp add: guarded_append)
  moreover have "os_cmdline reused_pid (length ?cs) 42 = Some ''sshd''" by (simp add: reused_run)
  ultimately show "\<exists>cs b. cl_calls (snd (run_state (stop_cmd reused_pid) server_42)) = cs @ [Signal 42 Kill None, RemovePid b] \<and>
     os_cmdline reused_pid (length cs) 42 = Some ''sshd'' \<and> \<not> guarded Unchecked (cs @ [Signal 42 Kill None, RemovePid b])"
    by blast
  show "fst (run_state (restart_cmd reused_pid '''' '''') server_42) = Inl (NoLongerMatches 42)"
    by (simp add: restart_cmd_def run_reused)
qed

text \<open>Calls that start nothing and send nothing but probes.\<close>

definition harmless :: "call list \<Rightarrow> bool" where
  "harmless cs \<longleftrightarrow> (\<forall>c \<in> set cs. case c of Signal p sig e \<Rightarrow> sig = Probe | Spawn x a p \<Rightarrow> False | _ \<Rightarrow> True)"

lemma harmless_spawned: "harmless cs \<Longrightarrow> spawned cs = []"
  by (induction cs) (auto simp: harmless_def split: call.splits)

lemma harmless_probes: "harmless cs \<Longrightarrow> Signal p sig e \<in> set cs \<Longrightarrow> sig = Probe"
  by (auto simp: harmless_def)

text \<open>A launch after harmless calls.\<close>

lemma launch_after:
  assumes "harmless cs" "launched os res ls before after"
  shows "case res of
      Inr child \<Rightarrow> os_spawn os = Some child \<and> spawned (cs @ ls) = [child] \<and> (\<forall>p sig e. Signal p sig e \<in> set (cs @ ls) \<longrightarrow> sig = Probe) \<and>
        after = Some (itoa child)
    | Inl (AlreadyRunning pid) \<Rightarrow> False
    | Inl WritePidFailed \<Rightarrow> \<exists>child e. spawned (cs @ ls) = [child] \<and> last (cs @ ls) = Signal child Kill e
    | Inl e \<Rightarrow> spawned (cs @ ls) = [] \<and> after = before"
  using assms harmless_spawned [OF assms(1)] harmless_probes [OF assms(1)]
  by (auto simp: launched_def signalled_def split: sum.splits cli_error.splits)

lemma run_make_dirs:
  "\<exists>ms. snd (run_state (make_dirs os dirs) s) = s\<lparr>cl_calls := cl_calls s @ ms\<rparr> \<and> harmless ms"
proof (induction dirs arbitrary: s)
  case Nil
  show ?case by (intro exI [of _ "[]"]) (simp add: harmless_def)
next
  case (Cons d dirs)
  let ?m = "Mkdir d (os_dir os (length (cl_calls s)))" and ?c = "Chmod d (os_dir os (Suc (length (cl_calls s))))"
  obtain ms where ms: "snd (run_state (make_dirs os dirs) (add_call ?c (add_call ?m s))) = s\<lparr>cl_calls := cl_calls s @ [?m, ?c] @ ms\<rparr>"
    "harmless ms"
    using Cons [of "add_call ?c (add_call ?m s)"] by auto
  show ?case
  proof (cases "os_dir os (length (cl_calls s))")
    case False
    then show ?thesis by (intro exI [of _ "[?m]"]) (auto simp: harmless_def)
  next
    case m: True
    show ?thesis
    proof (cases "os_dir os (Suc (length (cl_calls s)))")
      case False
      with m show ?thesis by (intro exI [of _ "[?m, ?c]"]) (auto simp: harmless_def)
    next
      case True
      with m ms show ?thesis by (intro exI [of _ "[?m, ?c] @ ms"]) (auto simp: harmless_def)
    qed
  qed
qed

lemma run_running_server:
  "\<exists>found rs. run_state (running_server os) s = (found, s\<lparr>cl_calls := cl_calls s @ rs\<rparr>) \<and> harmless rs \<and>
     (\<forall>pid. found = Some pid \<longrightarrow> (\<exists>text. cl_pidfile s = Some text \<and> parse_int (trim_space text) = Some pid))"
proof -
  let ?n = "length (cl_calls s)"
  let ?text = "if os_read os ?n then cl_pidfile s else None"
  note run = running_server_def Let_def
  show ?thesis
  proof (cases "parse_pid ?text")
    case None
    then show ?thesis by (intro exI [of _ None] exI [of _ "[ReadPid (os_read os ?n)]"]) (simp add: run harmless_def)
  next
    case (Some pid)
    then have named: "\<exists>text. cl_pidfile s = Some text \<and> parse_int (trim_space text) = Some pid"
      by (auto simp: parse_pid_def split: option.splits if_splits)
    let ?e = "os_kill os (Suc ?n) pid Probe" and ?d = "os_cmdline os (Suc (Suc ?n)) pid"
    show ?thesis
    proof (cases "answers_probe ?e")
      case False
      then show ?thesis using Some
        by (intro exI [of _ None] exI [of _ "[ReadPid (os_read os ?n), Signal pid Probe ?e]"]) (simp add: run harmless_def)
    next
      case True
      then show ?thesis using Some named
        by (intro exI [of _ "if matches ?d ''leoxy'' then Some pid else None"]
              exI [of _ "[ReadPid (os_read os ?n), Signal pid Probe ?e, Cmdline pid ?d]"]) (auto simp: run harmless_def)
    qed
  qed
qed


section \<open>Witnesses\<close>

lemma restart_signals_guarded_witness:
  "\<exists>cs ls. cl_calls (snd (run_state (restart_cmd reused_pid '''' '''') server_42)) = cs @ ls \<and> guarded Unchecked cs \<and> 42 \<in> signalled cs"
proof -
  obtain cs ls where t: "cl_calls (snd (run_state (restart_cmd reused_pid '''' '''') server_42)) = cl_calls server_42 @ cs @ ls" "guarded Unchecked cs"
    "only_own_child reused_pid ls"
    using restart_signals_guarded [of reused_pid "''''" "''''" server_42] by blast
  have "42 \<in> signalled (cl_calls (snd (run_state (restart_cmd reused_pid '''' '''') server_42)))"
    by (simp add: restart_cmd_def run_reused)
  then have "42 \<in> signalled cs \<or> 42 \<in> signalled ls" unfolding t(1) by (auto simp: server_42_def)
  moreover have "42 \<notin> signalled ls" using t(3) by (auto simp: only_own_child_def signalled_def reused_pid_def)
  ultimately have "42 \<in> signalled cs" by auto
  with t show ?thesis by (auto simp: server_42_def)
qed

lemma stop_outcome_witness:
  "fst (run_state (stop_cmd reused_pid) server_42) = Inr 42 \<and>
   count_list (cl_calls (snd (run_state (stop_cmd reused_pid) server_42))) Sleep \<le> 20 \<and>
   cl_pidfile (snd (run_state (stop_cmd reused_pid) server_42)) = None"
proof -
  have r: "fst (run_state (stop_cmd reused_pid) server_42) = Inr 42"
    "last (cl_calls (snd (run_state (stop_cmd reused_pid) server_42))) = RemovePid True"
    by (simp_all add: stop_cmd_def run_reused)
  have p: "stop_pid reused_pid (if os_read reused_pid (length (cl_calls server_42)) then cl_pidfile server_42 else None) NotRunning = Inr 42"
    by (simp add: run_reused)
  from stop_outcome [of reused_pid server_42] obtain pre b where
    "cl_calls (snd (run_state (stop_cmd reused_pid) server_42)) = pre @ [RemovePid b]" "count_list pre Sleep \<le> 20"
    "cl_pidfile (snd (run_state (stop_cmd reused_pid) server_42)) = (if b then None else cl_pidfile server_42)"
    unfolding p sum.case by (auto simp: server_42_def)
  with r show ?thesis by auto
qed


section \<open>The Windows build\<close>

text \<open>\<open>core/process.windows.go\<close> runs taskkill and tasklist: the arguments it passes, and what it makes of the listing (None
  when the command failed).\<close>

definition RequestStop_windows :: "int \<Rightarrow> string list" where
  "RequestStop_windows pid = [''taskkill'', ''/PID'', itoa pid, ''/T'']"

definition ForceStop_windows :: "int \<Rightarrow> string list" where
  "ForceStop_windows pid = [''taskkill'', ''/PID'', itoa pid, ''/T'', ''/F'']"

definition tasklist_args :: "int \<Rightarrow> string list" where
  "tasklist_args pid = [''tasklist'', ''/FI'', ''PID eq '' @ itoa pid, ''/NH'']"

definition ProcessRunning_windows :: "(string list \<Rightarrow> string option) \<Rightarrow> int \<Rightarrow> bool" where
  "ProcessRunning_windows run pid =
     (case run (tasklist_args pid) of None \<Rightarrow> False | Some out \<Rightarrow> contains_str out (itoa pid))"

definition ProcessMatches_windows :: "(string list \<Rightarrow> string option) \<Rightarrow> int \<Rightarrow> string \<Rightarrow> bool" where
  "ProcessMatches_windows run pid name =
     (case run (tasklist_args pid) of None \<Rightarrow> False | Some out \<Rightarrow> contains_str (to_lower out) (to_lower name))"

text \<open>The two builds differ on a process that cannot be inspected: on Unix it counts as the server, which on systems
  without \<open>/proc\<close> makes the guard of stop and restart accept every process; on Windows it does not.\<close>

lemma uninspected_process:
  "(\<And>n p. os_cmdline os n p = None) \<Longrightarrow> fst (run_state (ProcessMatches os pid name) s)"
  "\<not> ProcessMatches_windows (\<lambda>_. None) pid name"
  by (simp_all add: matches_def ProcessMatches_windows_def Let_def)

end
