(* ===== verification/Platform.thy ===== *)
theory Platform
  imports Lifecycle Cli
begin

text \<open>
  Where the command line, the platform and the running server meet: the executable's \<open>main\<close> (\<open>app/cli/main.go\<close>), the
  paths a background server ends up with, the signals that end it (\<open>core/shutdown_unix.go\<close>, \<open>core/shutdown_windows.go\<close>), the
  attributes it is detached with (\<open>cli/detach_unix.go\<close>, \<open>cli/detach_windows.go\<close>), and the time limits that the
  configuration gives its HTTP server and its transport (\<open>shared/index.go\<close>).  Parsing the command line is cobra's.
\<close>

section \<open>The executable\<close>

datatype subcommand = RootCmd | VersionCmd | StartCmd | RestartCmd | StopCmd | RunCmd

definition version :: string where "version = ''v1.13.3''"

datatype outcome =
    Serves paths
  | Prints string
  | PathsFailed path_error
  | Failed cli_error
  | Done int

definition outcome_of :: "(cli_error + int) \<times> cli \<Rightarrow> outcome \<times> cli" where
  "outcome_of r = (case r of (Inl e, s) \<Rightarrow> (Failed e, s) | (Inr pid, s) \<Rightarrow> (Done pid, s))"

text \<open>\<open>rootCmd.Execute\<close>: the persistent hook \<open>applyPaths\<close> runs before every command, and its error stops the command.\<close>

definition execute :: "os \<Rightarrow> bool \<Rightarrow> bool \<Rightarrow> subcommand \<Rightarrow> paths \<Rightarrow> cli \<Rightarrow> outcome \<times> cli" where
  "execute os mkdir chdir cmd p s =
     (case applyPaths mkdir chdir p of
        Inl e \<Rightarrow> (PathsFailed e, s)
      | Inr p \<Rightarrow>
          (case cmd of
             RootCmd \<Rightarrow> (Serves p, s)
           | RunCmd \<Rightarrow> (Serves p, s)
           | VersionCmd \<Rightarrow> (Prints (''leoxy '' @ version @ [CHR 0x0A]), s)
           | StartCmd \<Rightarrow> outcome_of (run_state (start_cmd os (pa_config p) (pa_dataDir p)) s)
           | StopCmd \<Rightarrow> outcome_of (run_state (stop_cmd os) s)
           | RestartCmd \<Rightarrow> outcome_of (run_state (restart_cmd os (pa_config p) (pa_dataDir p)) s)))"

definition exit_status :: "outcome \<Rightarrow> int" where
  "exit_status r = (case r of PathsFailed e \<Rightarrow> 1 | Failed e \<Rightarrow> 1 | _ \<Rightarrow> 0)"

text \<open>The flags as given and the paths the process starts with.\<close>

definition initial_paths :: "string \<Rightarrow> string \<Rightarrow> string option \<Rightarrow> paths" where
  "initial_paths config dataDir cwd =
     \<lparr>pa_config = config, pa_dataDir = dataDir, pa_configPath = ''leoxy/leoxy_config.yaml'', pa_cwd = cwd\<rparr>"

section \<open>Platforms\<close>

datatype platform = Unix | Windows

datatype os_signal = Interrupt | SIGTERM | SIGKILL

definition ShutdownSignals :: "platform \<Rightarrow> os_signal list" where
  "ShutdownSignals p = (case p of Unix \<Rightarrow> [Interrupt, SIGTERM] | Windows \<Rightarrow> [Interrupt])"

text \<open>A signal that \<open>signal.Notify\<close> relays goes into a channel with one place, which the select of \<open>Run\<close> reads once; any
  other one ends the process at once.\<close>

definition deliver :: "platform \<Rightarrow> os_signal \<Rightarrow> running \<Rightarrow> running" where
  "deliver p sig r =
     (if run_pc r = Finished \<or> run_pc r = Exited then r
      else if sig \<in> set (ShutdownSignals p) then (if run_pc r = Selecting then shutdown_signal r else r)
      else r\<lparr>run_pc := Exited\<rparr>)"

definition sent_signal :: "signal \<Rightarrow> os_signal option" where
  "sent_signal sig = (case sig of Probe \<Rightarrow> None | Term \<Rightarrow> Some SIGTERM | Kill \<Rightarrow> Some SIGKILL)"

record sys_proc_attr =
  Setsid :: bool
  CreationFlags :: "32 word"

definition detach :: "platform \<Rightarrow> sys_proc_attr" where
  "detach p = (case p of Unix \<Rightarrow> \<lparr>Setsid = True, CreationFlags = 0\<rparr> | Windows \<Rightarrow> \<lparr>Setsid = False, CreationFlags = 0x208\<rparr>)"

section \<open>The transport\<close>

record http_transport =
  tr_Dial_Timeout :: duration
  tr_Dial_KeepAlive :: duration
  tr_ForceAttemptHTTP2 :: bool
  tr_TLSHandshakeTimeout :: duration
  tr_ResponseHeaderTimeout :: duration
  tr_IdleConnTimeout :: duration
  tr_MaxIdleConns :: int
  tr_MaxIdleConnsPerHost :: int
  tr_ExpectContinueTimeout :: duration

definition NewProxyTransport :: "duration \<Rightarrow> http_transport" where
  "NewProxyTransport connectTimeout =
     \<lparr>tr_Dial_Timeout = connectTimeout, tr_Dial_KeepAlive = 30 * second, tr_ForceAttemptHTTP2 = True,
      tr_TLSHandshakeTimeout = 10 * second, tr_ResponseHeaderTimeout = 15 * second, tr_IdleConnTimeout = 90 * second,
      tr_MaxIdleConns = 1024, tr_MaxIdleConnsPerHost = 256, tr_ExpectContinueTimeout = 1 * second\<rparr>"

definition ProxyTransport :: "ServerConfig \<Rightarrow> http_transport" where
  "ProxyTransport cfg = NewProxyTransport (seconds_of (int (to_Connect (cfg_Timeout cfg))))"

section \<open>The paths of a background server\<close>

definition resolved :: "string option \<Rightarrow> string \<Rightarrow> string option" where
  "resolved cwd p = (if p = '''' then Some '''' else abs_path cwd p)"

lemma applyPaths_resolved:
  "applyPaths mkdir chdir p = Inr p' \<longleftrightarrow>
     (\<exists>c d. resolved (pa_cwd p) (pa_config p) = Some c \<and> resolved (pa_cwd p) (pa_dataDir p) = Some d \<and> (d \<noteq> '''' \<longrightarrow> mkdir \<and> chdir) \<and>
       p' = \<lparr>pa_config = c, pa_dataDir = d, pa_configPath = (if c = '''' then pa_configPath p else c),
              pa_cwd = (if d = '''' then pa_cwd p else Some d)\<rparr>)"
proof -
  have "applyPaths mkdir chdir p =
      (case (resolved (pa_cwd p) (pa_config p), resolved (pa_cwd p) (pa_dataDir p)) of
         (Some c, Some d) \<Rightarrow> Configure mkdir chdir c d (p\<lparr>pa_config := c, pa_dataDir := d\<rparr>)
       | _ \<Rightarrow> Inl NoWorkingDir)"
    by (simp add: applyPaths_def resolved_def Let_def split: option.split)
  moreover have "Configure mkdir chdir c d (p\<lparr>pa_config := c, pa_dataDir := d\<rparr>) = Inr p' \<longleftrightarrow>
      (d \<noteq> '''' \<longrightarrow> mkdir \<and> chdir) \<and> p' = \<lparr>pa_config = c, pa_dataDir = d, pa_configPath = (if c = '''' then pa_configPath p else c),
              pa_cwd = (if d = '''' then pa_cwd p else Some d)\<rparr>" for c d
    by (cases p) (auto simp: Configure_def Let_def)
  ultimately show ?thesis
    by (cases "resolved (pa_cwd p) (pa_config p)"; cases "resolved (pa_cwd p) (pa_dataDir p)") simp_all
qed

lemma abs_path_clean:
  assumes "abs_path cwd s = Some q" "\<And>d. cwd = Some d \<Longrightarrow> has_prefix d ''/''"
  shows "has_prefix q ''/''" "path_clean q = q"
proof -
  obtain t where "q = path_clean t" "has_prefix t ''/''"
    using assms has_prefix_extend by (cases cwd) (auto simp: abs_path_def split: if_splits)
  then show "has_prefix q ''/''" "path_clean q = q" using path_clean_idem [of t] by auto
qed

lemma resolved_again:
  assumes "resolved cwd s = Some q" "\<And>d. cwd = Some d \<Longrightarrow> has_prefix d ''/''"
  shows "resolved cwd' q = Some q"
proof (cases "s = ''''")
  case False
  then have "abs_path cwd s = Some q" using assms(1) by (simp add: resolved_def)
  from abs_path_clean [OF this assms(2)] show ?thesis by (simp add: resolved_def abs_path_def)
qed (use assms(1) in \<open>simp add: resolved_def\<close>)

lemma applyPaths_again:
  assumes "applyPaths mkdir chdir (initial_paths config dir cwd) = Inr p" "\<And>d. cwd = Some d \<Longrightarrow> has_prefix d ''/''"
  shows "applyPaths True True (initial_paths (pa_config p) (pa_dataDir p) (pa_cwd p)) = Inr p"
proof -
  obtain c d where r: "resolved cwd config = Some c" "resolved cwd dir = Some d"
    and p: "p = \<lparr>pa_config = c, pa_dataDir = d, pa_configPath = (if c = '''' then ''leoxy/leoxy_config.yaml'' else c),
              pa_cwd = (if d = '''' then cwd else Some d)\<rparr>"
    using assms(1) unfolding applyPaths_resolved initial_paths_def paths.select_convs by blast
  show ?thesis
    using resolved_again [OF r(1) assms(2)] resolved_again [OF r(2) assms(2)]
    by (simp add: applyPaths_resolved initial_paths_def p)
qed

lemma launch_spawns:
  "run_state (launch os c d) s = (Inr child, s') \<Longrightarrow> \<exists>exe. Spawn exe (run_args c d) (Some child) \<in> set (cl_calls s')"
  by (auto simp: launch_def write_pidfile_def Let_def split: option.splits if_splits write_result.splits)

lemma start_launches: "run_state (start_cmd os c d) s = (Inr child, s') \<Longrightarrow> \<exists>t. run_state (launch os c d) t = (Inr child, s')"
  by (auto simp: start_cmd_def split: option.splits prod.splits)

lemma restart_launches: "run_state (restart_cmd os c d) s = (Inr child, s') \<Longrightarrow> \<exists>t. run_state (launch os c d) t = (Inr child, s')"
  by (auto simp: restart_cmd_def Let_def split: option.splits prod.splits sum.splits if_splits)

text \<open>C29: The server that \<open>start\<close> or \<open>restart\<close> leaves running works on the paths of the command that started it: it is
  spawned with arguments that a flag parser reads, in the directory the command changed into, as the command \<open>run\<close> with the
  same configuration file and the same data directory, although the flags were relative to another directory.  The parser
  is the flag library's: it is only assumed to take the first plain word as the subcommand and the word after \<open>--config\<close> or
  \<open>--data-dir\<close> as that flag's value.\<close>

theorem started_server_paths:
  fixes parse :: "string list \<Rightarrow> subcommand \<times> string \<times> string \<Rightarrow> subcommand \<times> string \<times> string"
  assumes "cmd = StartCmd \<or> cmd = RestartCmd"
    and "execute os mkdir chdir cmd (initial_paths config dir cwd) s = (Done child, s')"
    and "\<And>d. cwd = Some d \<Longrightarrow> has_prefix d ''/''"
    and "\<And>sub c d. parse [] (sub, c, d) = (sub, c, d)"
    and "\<And>rest c d. parse (''run'' # rest) (RootCmd, c, d) = parse rest (RunCmd, c, d)"
    and "\<And>v rest sub c d. parse (''--config'' # v # rest) (sub, c, d) = parse rest (sub, v, d)"
    and "\<And>v rest sub c d. parse (''--data-dir'' # v # rest) (sub, c, d) = parse rest (sub, c, v)"
  shows "\<exists>p exe args config' dir'. applyPaths mkdir chdir (initial_paths config dir cwd) = Inr p \<and>
    Spawn exe args (Some child) \<in> set (cl_calls s') \<and> parse args (RootCmd, '''', '''') = (RunCmd, config', dir') \<and>
    (\<forall>os2 s2. fst (execute os2 True True RunCmd (initial_paths config' dir' (pa_cwd p)) s2) = Serves p)"
proof -
  have args: "parse (run_args c d) (RootCmd, '''', '''') = (RunCmd, c, d)" for c d
    by (simp add: run_args_def assms(4-7))
  obtain p where p: "applyPaths mkdir chdir (initial_paths config dir cwd) = Inr p"
    using assms(2) by (cases "applyPaths mkdir chdir (initial_paths config dir cwd)") (auto simp: execute_def)
  have "run_state (start_cmd os (pa_config p) (pa_dataDir p)) s = (Inr child, s') \<or>
      run_state (restart_cmd os (pa_config p) (pa_dataDir p)) s = (Inr child, s')"
    using assms(1,2) p by (auto simp: execute_def outcome_of_def split: prod.splits sum.splits)
  then obtain t where "run_state (launch os (pa_config p) (pa_dataDir p)) t = (Inr child, s')"
    using start_launches restart_launches by blast
  then obtain exe where "Spawn exe (run_args (pa_config p) (pa_dataDir p)) (Some child) \<in> set (cl_calls s')"
    using launch_spawns by blast
  moreover have "applyPaths True True (initial_paths (pa_config p) (pa_dataDir p) (pa_cwd p)) = Inr p"
    by (rule applyPaths_again [OF p assms(3)])
  ultimately show ?thesis
    using p args by (intro exI [of _ p] exI [of _ exe] exI [of _ "run_args (pa_config p) (pa_dataDir p)"] exI) (auto simp: execute_def)
qed

text \<open>Started in /srv with a relative configuration and data directory; a parser of the two flags that ignores all else.\<close>

fun run_flags :: "string list \<Rightarrow> subcommand \<times> string \<times> string \<Rightarrow> subcommand \<times> string \<times> string" where
  "run_flags [] p = p"
| "run_flags [a] (sub, c, d) = (if a = ''run'' \<and> sub = RootCmd then RunCmd else sub, c, d)"
| "run_flags (a # v # rest) (sub, c, d) =
     (if a = ''--config'' then run_flags rest (sub, v, d)
      else if a = ''--data-dir'' then run_flags rest (sub, c, v)
      else run_flags (v # rest) (if a = ''run'' \<and> sub = RootCmd then RunCmd else sub, c, d))"

lemma run_flags_run: "run_flags (''run'' # rest) (RootCmd, c, d) = run_flags rest (RunCmd, c, d)"
  by (cases rest) simp_all

lemma started_server_paths_witness:
  "\<exists>exe args config' dir'. Spawn exe args (Some 50) \<in> set (cl_calls (snd (execute (reused_pid\<lparr>os_read := (\<lambda>_. False)\<rparr>) True True StartCmd
       (initial_paths ''conf.yaml'' ''../data'' (Some ''/srv'')) server_42))) \<and>
     run_flags args (RootCmd, '''', '''') = (RunCmd, config', dir') \<and>
     fst (execute reused_pid True True RunCmd (initial_paths config' dir' (Some ''/data'')) server_42) =
       Serves \<lparr>pa_config = ''/srv/conf.yaml'', pa_dataDir = ''/data'', pa_configPath = ''/srv/conf.yaml'', pa_cwd = Some ''/data''\<rparr>"
proof -
  let ?os = "reused_pid\<lparr>os_read := (\<lambda>_. False)\<rparr>" and ?p = "initial_paths ''conf.yaml'' ''../data'' (Some ''/srv'')"
  let ?q = "\<lparr>pa_config = ''/srv/conf.yaml'', pa_dataDir = ''/data'', pa_configPath = ''/srv/conf.yaml'', pa_cwd = Some ''/data''\<rparr>"
  have a: "applyPaths True True ?p = Inr ?q" by code_simp
  have r: "fst (run_state (start_cmd ?os c d) server_42) = Inr 50" for c d
    by (simp add: start_cmd_def running_server_def parse_pid_def launch_def write_pidfile_def reused_pid_def Let_def)
  obtain s1 where s1: "run_state (start_cmd ?os ''/srv/conf.yaml'' ''/data'') server_42 = (Inr 50, s1)"
    using r [of "''/srv/conf.yaml''" "''/data''"] by (cases "run_state (start_cmd ?os ''/srv/conf.yaml'' ''/data'') server_42") simp
  have e: "execute ?os True True StartCmd ?p server_42 = (Done 50, s1)"
    by (simp add: execute_def a outcome_of_def s1)
  have abs: "\<And>d. Some ''/srv'' = Some d \<Longrightarrow> has_prefix d ''/''" by (auto simp: has_prefix_def)
  obtain p exe args config' dir' where "applyPaths True True ?p = Inr p"
    "Spawn exe args (Some 50) \<in> set (cl_calls s1)" "run_flags args (RootCmd, '''', '''') = (RunCmd, config', dir')"
    "\<forall>os2 s2. fst (execute os2 True True RunCmd (initial_paths config' dir' (pa_cwd p)) s2) = Serves p"
    using started_server_paths [where parse = run_flags, OF disjI1 [OF refl] e abs run_flags.simps(1) run_flags_run] by auto
  then show ?thesis using a by (intro exI [of _ exe] exI [of _ args] exI [of _ config'] exI [of _ dir']) (auto simp: e)
qed

section \<open>Signals\<close>

text \<open>What \<open>stop\<close> and \<open>restart\<close> ask for with SIGTERM is the orderly end: the waiting server closes \<open>done\<close> and drains, and
  whatever signals of the list follow change nothing.  SIGKILL ends it with the request log open.\<close>

theorem stop_request_drains:
  assumes "run_reachable sv r" "run_pc r = Selecting"
    and "cl_calls (snd (run_state (RequestStop os pid) s)) = cl_calls s @ [Signal pid sig None]" "sent_signal sig = Some sent"
  shows "run_reachable sv (deliver Unix sent r)" "run_done (deliver Unix sent r)" "run_pc (deliver Unix sent r) = Draining"
    "again \<in> set (ShutdownSignals Unix) \<Longrightarrow> deliver Unix again (deliver Unix sent r) = deliver Unix sent r"
proof -
  have "sig = Term" using assms(3) by (simp add: RequestStop_def)
  then have d: "deliver Unix sent r = shutdown_signal r"
    using assms(2,4) by (simp add: deliver_def sent_signal_def ShutdownSignals_def)
  show "run_reachable sv (deliver Unix sent r)"
    using run_reachable.Step [OF assms(1) run_step.Signal [OF assms(2)]] by (simp add: d)
  show "run_done (deliver Unix sent r)" "run_pc (deliver Unix sent r) = Draining"
    "again \<in> set (ShutdownSignals Unix) \<Longrightarrow> deliver Unix again (deliver Unix sent r) = deliver Unix sent r"
    by (simp_all add: d run_ops) (simp add: deliver_def)
qed

lemma force_stop_cuts:
  assumes "run_pc r \<noteq> Finished"
    and "cl_calls (snd (run_state (ForceStop os pid) s)) = cl_calls s @ [Signal pid sig None]" "sent_signal sig = Some sent"
  shows "run_pc (deliver p sent r) = Exited" "run_logger_closed (deliver p sent r) = run_logger_closed r"
proof -
  have "sig = Kill" using assms(2) by (simp add: ForceStop_def)
  then show "run_pc (deliver p sent r) = Exited" "run_logger_closed (deliver p sent r) = run_logger_closed r"
    using assms(1,3) by (auto simp: deliver_def sent_signal_def ShutdownSignals_def split: platform.splits)
qed

text \<open>SIGTERM is not in the list of the Windows build, so there it is the abrupt end.\<close>

lemma windows_term_cuts: "run_pc r = Selecting \<Longrightarrow> run_pc (deliver Windows SIGTERM r) = Exited"
  by (simp add: deliver_def ShutdownSignals_def)

text \<open>The flags of the Windows build are DETACHED_PROCESS and CREATE_NEW_PROCESS_GROUP.\<close>

lemma detach_windows_flags: "CreationFlags (detach Windows) = push_bit 3 1 OR push_bit 9 1"
  by (simp add: detach_def)

section \<open>Time limits\<close>

definition max_seconds :: nat where "max_seconds = 9223372036"

lemma seconds_exact: "n \<le> max_seconds \<Longrightarrow> seconds_of (int n) = int n * second"
  by (simp add: seconds_of_def max_seconds_def i64_id second_def)

text \<open>A loaded configuration gives the server and its transport the limits written in it, all of them in force, as long as
  they are below 292 years.\<close>

theorem loaded_timeouts:
  assumes "Load viper env = Inr cfg"
    and "to_Connect (cfg_Timeout cfg) \<le> max_seconds" "to_Read (cfg_Timeout cfg) \<le> max_seconds"
    and "to_Write (cfg_Timeout cfg) \<le> max_seconds" "to_Idle (cfg_Timeout cfg) \<le> max_seconds"
  shows "hs_ReadTimeout (http_settings cfg tls) = int (to_Read (cfg_Timeout cfg)) * second"
    "hs_WriteTimeout (http_settings cfg tls) = int (to_Write (cfg_Timeout cfg)) * second"
    "hs_IdleTimeout (http_settings cfg tls) = int (to_Idle (cfg_Timeout cfg)) * second"
    "tr_Dial_Timeout (ProxyTransport cfg) = int (to_Connect (cfg_Timeout cfg)) * second"
    "0 < hs_ReadTimeout (http_settings cfg tls)" "0 < hs_WriteTimeout (http_settings cfg tls)"
    "0 < hs_IdleTimeout (http_settings cfg tls)" "0 < tr_Dial_Timeout (ProxyTransport cfg)"
proof -
  have pos: "0 < to_Connect (cfg_Timeout cfg)" "0 < to_Read (cfg_Timeout cfg)" "0 < to_Write (cfg_Timeout cfg)" "0 < to_Idle (cfg_Timeout cfg)"
    using load_result [where viper = viper and env = env] assms(1) by (auto split: sum.splits)
  show "hs_ReadTimeout (http_settings cfg tls) = int (to_Read (cfg_Timeout cfg)) * second"
    "hs_WriteTimeout (http_settings cfg tls) = int (to_Write (cfg_Timeout cfg)) * second"
    "hs_IdleTimeout (http_settings cfg tls) = int (to_Idle (cfg_Timeout cfg)) * second"
    "tr_Dial_Timeout (ProxyTransport cfg) = int (to_Connect (cfg_Timeout cfg)) * second"
    by (simp_all add: http_settings_def ProxyTransport_def NewProxyTransport_def seconds_exact assms)
  then show "0 < hs_ReadTimeout (http_settings cfg tls)" "0 < hs_WriteTimeout (http_settings cfg tls)"
    "0 < hs_IdleTimeout (http_settings cfg tls)" "0 < tr_Dial_Timeout (ProxyTransport cfg)"
    using pos by (simp_all add: second_def)
qed

text \<open>Validation looks at none of them: one second more, and the read limit is negative, which net/http takes for none.\<close>

lemma validate_ignores_timeouts: "Validate (cfg\<lparr>cfg_Timeout := t\<rparr>) = Validate cfg"
  by (simp add: Validate_def)

lemma huge_timeout_disabled:
  "to_Read (cfg_Timeout cfg) = max_seconds + 1 \<Longrightarrow> hs_ReadTimeout (http_settings cfg tls) < 0"
  by (simp add: http_settings_def seconds_of_def max_seconds_def second_def i64_def)

end
