(* ===== verification/Spec2Isabelle.thy ===== *)
theory Spec2Isabelle
  imports ServerRate ScriptBound TokenBucket Balancer TcpConn Streams ClientKey MetricsText Platform
begin

text \<open>
  Leoxy is a reverse proxy in Go.  One process serves HTTP routes and raw TCP and UDP listeners, all described by one
  YAML file; a command line starts, stops and restarts it in the background.  This development models the whole
  of \<open>src/app\<close> except its tests: every function is a definition with the name it has in the code wherever
  Isabelle allows it, every state the code keeps is a record, and every error and early return is a branch.

  \<^bold>\<open>How the parts interact.\<close>  \<open>Run\<close> creates and loads the configuration (Config), builds a server from it (Core) and
  runs it (Lifecycle).  A request passes the request log and the counters (Logger, Metrics), the global rate limiter
  (RedisLimit, falling back to RateLimit), the server's access control (AccessControl), the mux (GoMux), and then either
  a built-in endpoint behind the internal gate (ClientIp, Health, MetricsText) or the route's own limiter, access control
  and body limit (BodyLimit) and its load balancer (LoadBalancer).  Serving proves what this order guarantees.  The stream
  listeners share an admission policy (StreamPolicy); each runs a TCP proxy (TcpProxy, TcpConn) or a UDP proxy (UdpProxy).
  The memory monitor (Watcher) samples beside them, and the commands (Cli) act on the process from outside.

  \<^bold>\<open>Theories and sources\<close> (paths under \<open>src/app\<close>):

  \<^item> \<open>Prelude\<close>, \<open>GoText\<close>, \<open>GoNet\<close>, \<open>IpText\<close>, \<open>GoPath\<close>, \<open>GoFloat\<close>, \<open>GoMux\<close>, \<open>Http\<close>: what the program uses of Go and its
    standard library: wrapping integers, times, strings and strconv, addresses and networks, path cleaning and matching,
    float64 rounding, \<open>ServeMux\<close>, requests and responses.
  \<^item> \<open>ClientIp\<close>: \<open>internal/common/ip.go\<close>, \<open>internal/security/internal.go\<close>; \<open>ClientKey\<close>: which clients share a bucket.
  \<^item> \<open>Config\<close>: \<open>internal/file/config.go\<close> and \<open>file.go\<close>.
  \<^item> \<open>AccessControl\<close>, \<open>BodyLimit\<close>: \<open>internal/security/security.go\<close>, \<open>Body.go\<close>.
  \<^item> \<open>RateLimit\<close>, \<open>RateBound\<close>: \<open>internal/security/rate.limit.go\<close> and its bounds; \<open>RedisLimit\<close>: \<open>redis.rate.limit.go\<close>,
    and \<open>ScriptBound\<close> what its script guarantees in the float64 arithmetic of Lua; \<open>TokenBucket\<close>: the abstract bucket both implement.
  \<^item> \<open>LoadBalancer\<close>, \<open>Balancer\<close>: \<open>internal/http_server/proxy\<close> and \<open>shared/index.go\<close>, request by request and over runs; \<open>Health\<close>: \<open>internal/http_server/Health\<close>.
  \<^item> \<open>StreamPolicy\<close>: \<open>shared/policy.go\<close>; \<open>TcpProxy\<close>, \<open>TcpConn\<close>: \<open>TCP/tcp_index.go\<close>; \<open>UdpProxy\<close>: \<open>UDP/udp.index.go\<close>;
    \<open>Streams\<close>: the admission gate both refine, with the clients inside it and the actions each event performs on it;
    \<open>Shutdown\<close>: how they end.
  \<^item> \<open>Logger\<close>, \<open>Metrics\<close>, \<open>MetricsText\<close>: \<open>internal/common/logger.go\<close>, \<open>metrics.go\<close>; the text of the
    metrics is read back by a reader of the Prometheus text format 0.0.4, which \<open>metrics.go\<close> announces.
  \<^item> \<open>Core\<close>, \<open>Serving\<close>, \<open>Lifecycle\<close>: \<open>internal/core/run.go\<close> (assembly, with the groups that readiness probes; request
    path; process); \<open>ServerRate\<close>: the rate
    limits of a running server.
  \<^item> \<open>Watcher\<close>: \<open>internal/watcher\<close>; \<open>Cli\<close>: \<open>cli\<close>, \<open>internal/core/process_unix.go\<close>, \<open>process.windows.go\<close>, \<open>configure.go\<close>;
    \<open>Platform\<close>: the executable as a whole, the signals of \<open>shutdown_*.go\<close>, \<open>cli/detach_*.go\<close>, the settings of the transport.

  \<^bold>\<open>State and concurrency.\<close>  A section of the code under a mutex is one function on the state it protects.  Goroutines are
  step relations whose steps are those sections: \<open>tcp_step\<close>, \<open>udp_step\<close>, \<open>conn_step\<close>, \<open>pool_step\<close>, \<open>run_step\<close>; properties of all
  interleavings are invariants of their reachable states.  Requests through the HTTP server and its load balancers are
  taken one after the other.  Clocks, sockets, the file system, the network, other processes,
  the map iteration order and what Redis answers are arguments of the definitions, so that they may be anything.

  \<^bold>\<open>Interfaces.\<close>  \<open>admission\<close> (StreamPolicy) is what the stream proxies rely on: acquiring and releasing keep the policy in step
  with the client's own account.  \<open>float_arith\<close> (GoFloat) is what the limiters rely on of float64.  \<open>stage\<close> (Http) is
  what the request path relies on of a middleware: it rejects a request or passes that very request on, and \<open>two_stages\<close> in
  turn are a stage again.  \<open>bucket\<close> (TokenBucket) is a token bucket seen through its level; \<open>two_buckets\<close> that start level
  decide alike.  Each is interpreted on the definitions of the component that provides it.

  \<^bold>\<open>What the lemmas show.\<close>  Per component: the invariant of its state and that every operation keeps it; what each
  operation returns on every branch; the bounds that follow (admissions per window, connections and sessions per host, body
  and log sizes, report rate); refinement of an abstract gate by both stream proxies, event by event, and of an abstract token bucket by both
  limiters; equivalence of validation with a declarative specification; round trips (addresses, Redis commands, the metrics text,
  the paths a command passes to the server it starts); termination of connections, of
  shutting down and of the stop command.  Across components: what a proxied request has passed, who reaches the internal
  endpoints, that a valid configuration starts, and that the configured limits hold in the running process, for rates as
  for connections.  The rate bounds are those of clocks that do not go back and of fewer than 100000 buckets; \<open>clock_back_refills\<close>
  and \<open>evicted_starts_full\<close> show why.  The lemmas
  that state a flaw of the code (for example \<open>encoded_slash_skips_access\<close>, \<open>stop_kills_stranger\<close>,
  \<open>shutdown_cuts_connections\<close>, \<open>late_session_waits\<close>) stand at the end of their theory.

  \<^bold>\<open>Bounds and fuel.\<close>  No definition takes fuel beyond the code's own loops: \<open>wait_exit\<close> counts the twenty rounds of the code,
  \<open>pick_loop\<close> the targets, \<open>v6_groups\<close> the eight groups of an address.  Everything else recurses on its data, or terminates by
  a measure (path matching, quoting).  The constants are the code's: 1024 connections, 4096 sessions, 20 reports, 50 MiB of log.

  \<^bold>\<open>Parameters.\<close>  Third-party code is an argument: viper's decoding, the JWT verifier, the JSON encoder.  Of the standard
  library the digest \<open>sha256\<close>, the URL parser, the Unicode tables and \<open>runtime/metrics\<close> are arguments too.

  \<^bold>\<open>Not modelled.\<close>  Packet contents; the bodies of proxied responses; HTTP parsing and TLS handshakes, which net/http does;
  what the transport does with its settings; how cobra parses flags and prints help; the benchmark tools and tests.  Strings are byte strings: Unicode white space and case beyond ASCII are outside.
\<close>

end
